(* ===== verification/Es_Prelude.thy ===== *)
theory Es_Prelude
  imports Main "HOL-Library.Word" "HOL-Library.Monad_Syntax"
begin

text \<open>
  What every part of the development shares: the C++ types the client uses, raw memory with
  bounds, the little-endian integer cells of a frame, and generic lemmas.

  Machine integers.  \<open>std::uint8_t\<close> and \<open>std::byte\<close> are \<open>8 word\<close>, \<open>unsigned int\<close> is
  \<open>32 word\<close> and \<open>std::size_t\<close> is \<open>64 word\<close>, so that their arithmetic wraps as the code's does.
  \<open>std::int64_t\<close> counters and positions are \<open>int\<close>: the code only compares them and counts them
  up, and signed overflow has no defined result in C++.  A narrowing cast is written out.

  Undefined behaviour.  Reading outside a memory region, dereferencing \<open>nullptr\<close>, reading a byte
  that was never written or calling \<open>front\<close> on an empty container has no defined result.  A
  function of the code that can do so returns an \<open>option\<close>, with \<open>None\<close> for that case.

  Strings.  \<open>std::string\<close> is \<open>string\<close>; the bytes it holds are \<open>to_bytes\<close>.
\<close>

type_synonym byte = "8 word"
type_synonym bytes = "8 word list"
type_synonym uint = "32 word"
type_synonym size_t = "64 word"

named_theorems mem_simps "reading and writing bounded memory"
named_theorems outcome_simps "evaluation of the model's result types"

section \<open>Strings and bytes\<close>

definition to_bytes :: "string \<Rightarrow> bytes" where
  "to_bytes s = map (\<lambda>c. of_char c) s"

definition from_bytes :: "bytes \<Rightarrow> string" where
  "from_bytes b = map (\<lambda>x. char_of (unat x)) b"

lemma length_to_bytes [simp]: "length (to_bytes s) = length s"
  by (simp add: to_bytes_def)

lemma length_from_bytes [simp]: "length (from_bytes b) = length b"
  by (simp add: from_bytes_def)

lemma unat_of_char: "unat (of_char c :: byte) = of_char c"
proof -
  have "(of_char c :: nat) < 2 ^ 8"
    using nat_of_char_less_256 [of c] by simp
  moreover have "(of_char c :: byte) = of_nat (of_char c)"
    by (simp only: of_nat_of_char)
  ultimately show ?thesis
    by (simp add: unat_of_nat take_bit_nat_eq_self)
qed

lemma from_to_bytes [simp]: "from_bytes (to_bytes s) = s"
  by (induction s) (simp_all add: from_bytes_def to_bytes_def unat_of_char)

section \<open>Bounded memory\<close>

text \<open>A read of one byte, a read of a range, both undefined outside the region.\<close>

definition rd :: "'a list \<Rightarrow> nat \<Rightarrow> 'a option" where
  "rd m i = (if i < length m then Some (m ! i) else None)"

definition rd_range :: "'a list \<Rightarrow> nat \<Rightarrow> nat \<Rightarrow> 'a list option" where
  "rd_range m i n = (if i + n \<le> length m then Some (take n (drop i m)) else None)"

text \<open>
  Memory fresh from an allocator holds no values: a cell is \<open>None\<close> until it is written.
  \<open>poke\<close> is a \<open>memcpy\<close> or a store into it, \<open>contents\<close> reads all of it back.
\<close>

type_synonym cells = "byte option list"

definition allocate :: "nat \<Rightarrow> cells" where
  "allocate n = replicate n None"

definition poke :: "nat \<Rightarrow> bytes \<Rightarrow> cells \<Rightarrow> cells option" where
  "poke i b m = (if i + length b \<le> length m
     then Some (take i m @ map Some b @ drop (i + length b) m) else None)"

definition contents :: "cells \<Rightarrow> bytes option" where
  "contents m = those m"

lemma rd_append1 [mem_simps]: "i < length xs \<Longrightarrow> rd (xs @ ys) i = rd xs i"
  by (simp add: rd_def nth_append)

lemma rd_append2 [mem_simps]: "length xs \<le> i \<Longrightarrow> rd (xs @ ys) i = rd ys (i - length xs)"
  by (auto simp: rd_def nth_append)

lemma rd_Cons_0 [mem_simps]: "rd (x # xs) 0 = Some x"
  by (simp add: rd_def)

lemma rd_Cons_pos [mem_simps]: "0 < i \<Longrightarrow> rd (x # xs) i = rd xs (i - 1)"
  by (auto simp: rd_def)

lemma rd_eq_Some [mem_simps]: "(rd m i = Some b) = (i < length m \<and> m ! i = b)"
  by (auto simp: rd_def)

lemma rd_eq_None [mem_simps]: "(rd m i = None) = (length m \<le> i)"
  by (auto simp: rd_def)

lemma rd_range_mid: "rd_range (xs @ ys @ zs) (length xs) (length ys) = Some ys"
  by (simp add: rd_range_def)

lemma rd_range_end: "rd_range (xs @ ys) (length xs) (length ys) = Some ys"
  by (simp add: rd_range_def)

lemma rd_range_length: "rd_range m i n = Some b \<Longrightarrow> length b = n"
  by (auto simp: rd_range_def split: if_splits)

lemma those_map_Some [simp]: "those (map Some xs) = Some xs"
  by (induction xs) auto

lemma contents_map_Some [simp]: "contents (map Some xs) = Some xs"
  by (simp add: contents_def)

text \<open>Writing the next field right after the bytes already written: the shape every frame
  constructor has.\<close>

lemma poke_next:
  assumes "length b \<le> n"
  shows "poke (length w) b (map Some w @ allocate n) = Some (map Some (w @ b) @ allocate (n - length b))"
  using assms by (simp add: poke_def allocate_def)

lemma allocate_0 [simp]: "allocate 0 = []"
  by (simp add: allocate_def)

section \<open>Little-endian 32-bit cells\<close>

text \<open>
  The code stores \<open>int\<close> through \<open>reinterpret_cast\<close>, so the order of the four bytes is the
  machine's; the protocol and the supported machines are little-endian.
\<close>

definition le32 :: "uint \<Rightarrow> bytes" where
  "le32 w = [ucast w, ucast (drop_bit 8 w), ucast (drop_bit 16 w), ucast (drop_bit 24 w)]"

definition of_le32 :: "byte \<Rightarrow> byte \<Rightarrow> byte \<Rightarrow> byte \<Rightarrow> uint" where
  "of_le32 a b c d = or (ucast a) (or (push_bit 8 (ucast b)) (or (push_bit 16 (ucast c)) (push_bit 24 (ucast d))))"

definition rd32 :: "bytes \<Rightarrow> nat \<Rightarrow> uint option" where
  "rd32 m i = do { a \<leftarrow> rd m i; b \<leftarrow> rd m (i + 1); c \<leftarrow> rd m (i + 2); d \<leftarrow> rd m (i + 3); Some (of_le32 a b c d) }"

lemma length_le32 [simp]: "length (le32 w) = 4"
  by (simp add: le32_def)

lemma of_le32_le32:
  "of_le32 (ucast w) (ucast (drop_bit 8 w)) (ucast (drop_bit 16 w)) (ucast (drop_bit 24 w)) = (w :: uint)"
proof (rule bit_word_eqI)
  fix n
  assume "n < LENGTH(32)"
  then have n: "n < 32" by simp
  consider "n < 8" | "8 \<le> n" "n < 16" | "16 \<le> n" "n < 24" | "24 \<le> n" by linarith
  then show "bit (of_le32 (ucast w) (ucast (drop_bit 8 w)) (ucast (drop_bit 16 w)) (ucast (drop_bit 24 w))) n = bit w n"
    using n by cases (simp_all add: of_le32_def bit_simps, auto)
qed

lemma rd32_le32 [mem_simps]: "rd32 (le32 w @ r) 0 = Some w"
  by (simp add: rd32_def rd_def le32_def of_le32_le32)

section \<open>Narrowing and the result of a callback\<close>

definition int32_of :: "int \<Rightarrow> int" where
  "int32_of i = sint (word_of_int i :: uint)"

lemma int32_of_id: "- (2 ^ 31) \<le> i \<Longrightarrow> i < 2 ^ 31 \<Longrightarrow> int32_of i = i"
  by (simp add: int32_of_def sint_sbintrunc' signed_take_bit_int_eq_self)

lemma unat_size_add:
  "unat (a :: size_t) + unat b < 2 ^ 64 \<Longrightarrow> unat (a + b) = unat a + unat b"
  by (simp add: unat_word_ariths)

text \<open>The lemmas below name the case split every result type of the model needs.\<close>

lemmas bind_simps [outcome_simps] = Option.bind.simps Option.bind_eq_Some_conv

end
