(* ===== verification/Buffer_Queue.thy ===== *)
theory Buffer_Queue
  imports Es_Prelude
begin

text \<open>
  \<open>include/buffer/buffer_queue.hpp\<close>: a FIFO queue of objects kept in a deque of raw chunks, each
  with room for \<open>ChunkSize\<close> objects, and two 32-bit indices: the slot of the front object in the
  first chunk, and the slot of the back object in the last one.  An empty queue has no chunk and
  the back index \<open>-1\<close>, which is \<open>2 ^ 32 - 1\<close>; pushing increments it to 0 by wrap-around.

  A chunk is the list of its slots, \<open>None\<close> where no object was constructed; reading such a slot, or
  calling \<open>front\<close> on an empty queue, is undefined and gives \<open>None\<close>.  \<open>pop_front\<close> does not check for
  an empty queue: it moves the front index past the end, and pops an empty deque when that index
  reaches the chunk size.

  The interface the subscriptions rely on is the locale \<open>fifo_queue\<close>: an abstraction to a list and
  an invariant.  Its client lemmas are about draining a queue in bounded batches, which is what the
  catch-up subscriptions do; the interpretation at the end of the theory discharges the laws for the
  chunked queue of the code, for every chunk size an \<open>unsigned int\<close> can hold.
\<close>

section \<open>The interface\<close>

locale fifo_queue =
  fixes empty :: "'q"
    and push :: "'a \<Rightarrow> 'q \<Rightarrow> 'q option"
    and front :: "'q \<Rightarrow> 'a option"
    and pop :: "'q \<Rightarrow> 'q option"
    and is_empty :: "'q \<Rightarrow> bool"
    and items :: "'q \<Rightarrow> 'a list"
    and inv :: "'q \<Rightarrow> bool"
  assumes inv_empty: "inv empty"
    and items_empty: "items empty = []"
    and push_ok: "inv q \<Longrightarrow> \<exists>q'. push x q = Some q' \<and> inv q' \<and> items q' = items q @ [x]"
    and front_ok: "inv q \<Longrightarrow> items q \<noteq> [] \<Longrightarrow> front q = Some (hd (items q))"
    and pop_ok: "inv q \<Longrightarrow> items q \<noteq> [] \<Longrightarrow> \<exists>q'. pop q = Some q' \<and> inv q' \<and> items q' = tl (items q)"
    and is_empty_iff: "inv q \<Longrightarrow> is_empty q = (items q = [])"
begin

text \<open>Taking objects off the front while the queue is not empty and the batch is not full: the loop
  of \<open>read_subscription_events\<close>, with the objects taken in order.\<close>

fun take_front :: "nat \<Rightarrow> 'q \<Rightarrow> ('a list \<times> 'q) option" where
  "take_front 0 q = Some ([], q)"
| "take_front (Suc n) q =
     (if is_empty q then Some ([], q)
      else do { x \<leftarrow> front q; q' \<leftarrow> pop q; r \<leftarrow> take_front n q'; Some (x # fst r, snd r) })"

lemma take_front_spec:
  "inv q \<Longrightarrow> \<exists>q'. take_front n q = Some (take n (items q), q') \<and> inv q' \<and> items q' = drop n (items q)"
proof (induction n arbitrary: q)
  case 0
  then show ?case by simp
next
  case (Suc n)
  show ?case
  proof (cases "items q")
    case Nil
    then show ?thesis
      using Suc.prems by (simp add: is_empty_iff)
  next
    case (Cons x xs)
    obtain q' where q': "pop q = Some q'" "inv q'" "items q' = xs"
      using pop_ok [OF Suc.prems] Cons by auto
    from Suc.IH [OF q'(2)] obtain q'' where
      "take_front n q' = Some (take n xs, q'')" "inv q''" "items q'' = drop n xs"
      using q'(3) by auto
    then show ?thesis
      using Suc.prems Cons q' front_ok [OF Suc.prems] by (simp add: is_empty_iff)
  qed
qed

fun push_all :: "'a list \<Rightarrow> 'q \<Rightarrow> 'q option" where
  "push_all [] q = Some q"
| "push_all (x # xs) q = do { q' \<leftarrow> push x q; push_all xs q' }"

lemma push_all_spec:
  "inv q \<Longrightarrow> \<exists>q'. push_all xs q = Some q' \<and> inv q' \<and> items q' = items q @ xs"
proof (induction xs arbitrary: q)
  case (Cons x xs)
  obtain q' where "push x q = Some q'" "inv q'" "items q' = items q @ [x]"
    using push_ok [OF Cons.prems] by blast
  with Cons.IH [of q'] show ?case by auto
qed simp

end

section \<open>The chunked queue\<close>

record 'a buffer_queue =
  deque :: "'a option list list"
  front_chunk_idx :: uint
  back_chunk_idx :: uint

text \<open>Both constructors.\<close>

definition bq_empty :: "'a buffer_queue" where
  "bq_empty = \<lparr>deque = [], front_chunk_idx = 0, back_chunk_idx = - 1\<rparr>"

definition bq_is_empty :: "'a buffer_queue \<Rightarrow> bool" where
  "bq_is_empty q \<longleftrightarrow> deque q = []"

text \<open>\<open>size()\<close>: with one chunk the difference is computed in \<open>unsigned int\<close> and then widened; with
  more, \<open>(deque_.size() - 2) * ChunkSize\<close> is computed in \<open>std::size_t\<close>.\<close>

definition bq_size :: "uint \<Rightarrow> 'a buffer_queue \<Rightarrow> size_t" where
  "bq_size ChunkSize q =
    (if deque q = [] then 0
     else if length (deque q) = 1 then ucast (back_chunk_idx q - front_chunk_idx q + 1)
     else (word_of_nat (length (deque q)) - 2) * ucast ChunkSize
        + ucast (back_chunk_idx q + 1) + ucast (ChunkSize - front_chunk_idx q))"

definition bq_clear :: "'a buffer_queue \<Rightarrow> 'a buffer_queue" where
  "bq_clear q = q\<lparr>deque := [], front_chunk_idx := 0, back_chunk_idx := - 1\<rparr>"

definition bq_swap :: "'a buffer_queue \<Rightarrow> 'a buffer_queue \<Rightarrow> 'a buffer_queue \<times> 'a buffer_queue" where
  "bq_swap q other = (other, q)"

text \<open>The defaulted move constructor: the deque is moved out of \<open>other\<close>, the indices are copied.\<close>

definition bq_move :: "'a buffer_queue \<Rightarrow> 'a buffer_queue \<times> 'a buffer_queue" where
  "bq_move other = (other, other\<lparr>deque := []\<rparr>)"

definition bq_front :: "'a buffer_queue \<Rightarrow> 'a option" where
  "bq_front q = (case deque q of [] \<Rightarrow> None | c # _ \<Rightarrow> do { s \<leftarrow> rd c (unat (front_chunk_idx q)); s })"

definition bq_pop_front :: "uint \<Rightarrow> 'a buffer_queue \<Rightarrow> 'a buffer_queue option" where
  "bq_pop_front ChunkSize q =
    (let f = front_chunk_idx q + 1 in
     if length (deque q) = 1 then
       (if f = back_chunk_idx q + 1
        then Some (q\<lparr>deque := tl (deque q), front_chunk_idx := 0, back_chunk_idx := - 1\<rparr>)
        else Some (q\<lparr>front_chunk_idx := f\<rparr>))
     else
       (if f = ChunkSize
        then (if deque q = [] then None else Some (q\<lparr>deque := tl (deque q), front_chunk_idx := 0\<rparr>))
        else Some (q\<lparr>front_chunk_idx := f\<rparr>)))"

text \<open>\<open>push_back\<close> in both overloads and \<open>emplace_back\<close>: they differ in how the object is built in its
  slot, not in the slot.  A new chunk holds no object.\<close>

definition bq_push_back :: "uint \<Rightarrow> 'a \<Rightarrow> 'a buffer_queue \<Rightarrow> 'a buffer_queue option" where
  "bq_push_back ChunkSize x q =
    (let chunk = replicate (unat ChunkSize) None;
         d = (if deque q = [] then [chunk] else deque q);
         b = back_chunk_idx q + 1;
         d = (if b = ChunkSize then d @ [chunk] else d);
         b = (if b = ChunkSize then 0 else b)
     in if unat b < length (last d)
        then Some (q\<lparr>deque := butlast d @ [(last d)[unat b := Some x]], back_chunk_idx := b\<rparr>)
        else None)"

section \<open>Abstraction and invariant\<close>

definition bq_line :: "'a buffer_queue \<Rightarrow> 'a option list" where
  "bq_line q = (if deque q = [] then []
     else concat (butlast (deque q)) @ take (Suc (unat (back_chunk_idx q))) (last (deque q)))"

definition bq_slots :: "'a buffer_queue \<Rightarrow> 'a option list" where
  "bq_slots q = drop (unat (front_chunk_idx q)) (bq_line q)"

definition bq_items :: "'a buffer_queue \<Rightarrow> 'a list" where
  "bq_items q = map the (bq_slots q)"

definition bq_inv :: "uint \<Rightarrow> 'a buffer_queue \<Rightarrow> bool" where
  "bq_inv ChunkSize q \<longleftrightarrow>
     (\<forall>c \<in> set (deque q). length c = unat ChunkSize) \<and> None \<notin> set (bq_slots q) \<and>
     (if deque q = [] then front_chunk_idx q = 0 \<and> back_chunk_idx q = - 1
      else front_chunk_idx q < ChunkSize \<and> back_chunk_idx q < ChunkSize \<and>
        (length (deque q) = 1 \<longrightarrow> front_chunk_idx q \<le> back_chunk_idx q))"

section \<open>Lemmas\<close>

lemma uint_bound: "unat (w :: uint) < 2 ^ 32"
  using unsigned_less [of w, where 'a = nat] by simp

lemma unat_inc:
  assumes "(b :: uint) < c"
  shows "unat (b + 1) = Suc (unat b)"
proof -
  have "Suc (unat b) < 2 ^ 32"
    using assms uint_bound [of c] by (simp add: word_less_nat_alt)
  then show ?thesis
    by (simp add: unat_word_ariths)
qed

lemma inc_less:
  assumes "(b :: uint) < c" and "b + 1 \<noteq> c"
  shows "b + 1 < c"
proof -
  have "b + 1 \<le> c"
    using assms(1) unat_inc [OF assms(1)] by (simp add: word_le_nat_alt word_less_nat_alt)
  with assms(2) show ?thesis
    by (simp add: order_less_le)
qed

lemma length_concat_const: "(\<forall>c \<in> set d. length c = n) \<Longrightarrow> length (concat d) = length d * n"
  by (induction d) auto

lemma bq_line_length:
  assumes "bq_inv C q" and "deque q \<noteq> []"
  shows "length (bq_line q) = (length (deque q) - 1) * unat C + Suc (unat (back_chunk_idx q))"
proof -
  have "\<forall>c \<in> set (butlast (deque q)). length c = unat C" "length (last (deque q)) = unat C"
    using assms by (auto simp: bq_inv_def in_set_butlastD)
  moreover have "unat (back_chunk_idx q) < unat C"
    using assms by (simp add: bq_inv_def word_less_nat_alt)
  ultimately show ?thesis
    using assms(2) length_concat_const [of "butlast (deque q)" "unat C"] by (simp add: bq_line_def)
qed

lemma bq_front_in_line:
  assumes "bq_inv C q" and "deque q \<noteq> []"
  shows "unat (front_chunk_idx q) < length (bq_line q)"
proof (cases "length (deque q) = 1")
  case True
  then show ?thesis
    using assms bq_line_length [OF assms] by (simp add: bq_inv_def word_le_nat_alt)
next
  case False
  then have "1 \<le> length (deque q) - 1"
    using assms(2) by (cases "deque q") (auto simp: Suc_le_eq)
  then have "unat C \<le> (length (deque q) - 1) * unat C"
    by simp
  moreover have "unat (front_chunk_idx q) < unat C"
    using assms by (simp add: bq_inv_def word_less_nat_alt)
  ultimately show ?thesis
    using bq_line_length [OF assms] by linarith
qed

lemma bq_items_empty_iff:
  assumes "bq_inv C q"
  shows "(bq_items q = []) = (deque q = [])"
  using bq_front_in_line [OF assms] by (auto simp: bq_items_def bq_slots_def bq_line_def)

lemma bq_slots_items: "bq_inv C q \<Longrightarrow> bq_slots q = map Some (bq_items q)"
  by (auto simp: bq_items_def bq_inv_def intro!: map_idI [symmetric])
     (metis option.collapse)

lemma bq_itemsI: "bq_slots q = map Some xs \<Longrightarrow> bq_items q = xs"
  by (simp add: bq_items_def comp_def)

lemma bq_push_empty:
  assumes "bq_inv C q" and "0 < C" and "deque q = []"
  shows "\<exists>q'. bq_push_back C x q = Some q' \<and> bq_inv C q' \<and> bq_items q' = bq_items q @ [x]"
proof -
  let ?q = "q\<lparr>deque := [(replicate (unat C) None)[0 := Some x]], back_chunk_idx := 0\<rparr>"
  have C: "0 < unat C" "C \<noteq> 0"
    using assms(2) by (auto simp: word_less_nat_alt)
  have q: "front_chunk_idx q = 0" "back_chunk_idx q = - 1"
    using assms by (auto simp: bq_inv_def)
  have line: "bq_line ?q = [Some x]"
    using C by (cases "unat C") (auto simp: bq_line_def)
  have "bq_push_back C x q = Some ?q"
    using assms q C by (simp add: bq_push_back_def Let_def)
  moreover have "bq_inv C ?q"
    using C q assms(2) line by (simp add: bq_inv_def bq_slots_def)
  moreover have "bq_items ?q = bq_items q @ [x]"
    using q assms(3) line by (simp add: bq_items_def bq_slots_def) (simp add: bq_line_def)
  ultimately show ?thesis by blast
qed

lemma concat_butlast_last: "d \<noteq> [] \<Longrightarrow> concat d = concat (butlast d) @ last d"
  by (metis append_butlast_last_id concat.simps(1,2) concat_append append_Nil2)

lemma take_Suc_update: "k < length c \<Longrightarrow> take (Suc k) (c[k := x]) = take k c @ [x]"
  by (simp add: take_Suc_conv_app_nth)

text \<open>Pushing appends one slot to the line of slots, in both branches.\<close>

lemma bq_push_line:
  assumes "bq_inv C q" and "0 < C" and "deque q \<noteq> []"
  obtains q' where "bq_push_back C x q = Some q'" and "deque q' \<noteq> []"
    and "bq_line q' = bq_line q @ [Some x]" and "front_chunk_idx q' = front_chunk_idx q"
    and "back_chunk_idx q' < C" and "\<forall>c \<in> set (deque q'). length c = unat C"
    and "length (deque q') = 1 \<longrightarrow> back_chunk_idx q' = back_chunk_idx q + 1 \<and> length (deque q) = 1"
proof -
  let ?b = "back_chunk_idx q" and ?d = "deque q"
  have b: "?b < C" and len: "\<forall>c \<in> set ?d. length c = unat C"
    using assms by (auto simp: bq_inv_def)
  then have last: "length (last ?d) = unat C"
    using assms(3) by auto
  have blen: "\<forall>c \<in> set (butlast ?d). length c = unat C"
    using len by (auto dest: in_set_butlastD)
  have suc: "unat (?b + 1) = Suc (unat ?b)"
    by (rule unat_inc [OF b])
  show thesis
  proof (cases "?b + 1 = C")
    case True
    let ?c = "(replicate (unat C) None)[0 := Some x]"
    let ?q = "q\<lparr>deque := ?d @ [?c], back_chunk_idx := 0\<rparr>"
    have C: "unat C = Suc (unat ?b)"
      using True suc by simp
    show thesis
    proof (rule that [of ?q])
      show "bq_push_back C x q = Some ?q"
        using assms(3) True C by (simp add: bq_push_back_def Let_def)
      show "bq_line ?q = bq_line q @ [Some x]"
        using assms(3) last C concat_butlast_last [OF assms(3)] by (simp add: bq_line_def)
    qed (use assms(2,3) len C in \<open>auto simp: length_Suc_conv\<close>)
  next
    case False
    then have lt: "?b + 1 < C"
      using b by (simp add: inc_less)
    let ?q = "q\<lparr>deque := butlast ?d @ [(last ?d)[unat (?b + 1) := Some x]], back_chunk_idx := ?b + 1\<rparr>"
    have k: "unat (?b + 1) < length (last ?d)"
      using lt last by (simp add: word_less_nat_alt)
    show thesis
    proof (rule that [of ?q])
      show "bq_push_back C x q = Some ?q"
        using assms(3) False k by (simp add: bq_push_back_def Let_def)
      show "bq_line ?q = bq_line q @ [Some x]"
        using assms(3) k suc take_Suc_update [OF k, of "Some x"] by (simp add: bq_line_def)
      show "\<forall>c \<in> set (deque ?q). length c = unat C"
        using blen last by auto
    qed (use lt assms(3) in auto)
  qed
qed

lemma bq_push_ok:
  assumes "bq_inv C q" and "0 < C"
  shows "\<exists>q'. bq_push_back C x q = Some q' \<and> bq_inv C q' \<and> bq_items q' = bq_items q @ [x]"
proof (cases "deque q = []")
  case True
  then show ?thesis
    by (rule bq_push_empty [OF assms])
next
  case False
  from bq_push_line [OF assms False, of x] obtain q' where q':
    "bq_push_back C x q = Some q'" "deque q' \<noteq> []" "bq_line q' = bq_line q @ [Some x]"
    "front_chunk_idx q' = front_chunk_idx q" "back_chunk_idx q' < C"
    "\<forall>c \<in> set (deque q'). length c = unat C"
    "length (deque q') = 1 \<longrightarrow> back_chunk_idx q' = back_chunk_idx q + 1 \<and> length (deque q) = 1" .
  have slots: "bq_slots q' = bq_slots q @ [Some x]"
    using bq_front_in_line [OF assms(1) False] q'(3,4) by (simp add: bq_slots_def)
  have "length (deque q') = 1 \<longrightarrow> front_chunk_idx q' \<le> back_chunk_idx q'"
    using q'(4,7) assms(1) False unat_inc [of "back_chunk_idx q" C]
    by (auto simp: bq_inv_def word_le_nat_alt)
  then have "bq_inv C q'"
    using assms(1) False q' slots by (simp add: bq_inv_def)
  moreover have "bq_items q' = bq_items q @ [x]"
    using slots by (simp add: bq_items_def)
  ultimately show ?thesis
    using q'(1) by blast
qed

lemma bq_front_slot:
  assumes "bq_inv C q" and "deque q \<noteq> []"
  shows "bq_front q = bq_line q ! unat (front_chunk_idx q)"
proof -
  obtain c cs where d: "deque q = c # cs"
    using assms(2) by (cases "deque q") auto
  have f: "unat (front_chunk_idx q) < length c"
    using assms d by (auto simp: bq_inv_def word_less_nat_alt)
  have "bq_line q ! unat (front_chunk_idx q) = c ! unat (front_chunk_idx q)"
  proof (cases cs)
    case Nil
    then have "unat (front_chunk_idx q) \<le> unat (back_chunk_idx q)"
      using assms d by (simp add: bq_inv_def word_le_nat_alt)
    with Nil d show ?thesis
      by (simp add: bq_line_def)
  next
    case (Cons c' cs')
    with d f show ?thesis
      by (simp add: bq_line_def nth_append)
  qed
  with d f show ?thesis
    by (simp add: bq_front_def rd_def)
qed

lemma bq_front_ok:
  assumes "bq_inv C q" and "bq_items q \<noteq> []"
  shows "bq_front q = Some (hd (bq_items q))"
proof -
  have d: "deque q \<noteq> []"
    using assms bq_items_empty_iff by blast
  have "bq_line q ! unat (front_chunk_idx q) = hd (bq_slots q)"
    using bq_front_in_line [OF assms(1) d] by (simp add: bq_slots_def hd_drop_conv_nth)
  also have "\<dots> = Some (hd (bq_items q))"
    using assms bq_slots_items [OF assms(1)] by (simp add: hd_map)
  finally show ?thesis
    using bq_front_slot [OF assms(1) d] by simp
qed

lemma drop_Suc_tl: "drop (Suc n) xs = tl (drop n xs)"
  by (simp add: drop_Suc tl_drop)

text \<open>Popping drops one slot of the line.\<close>

lemma bq_pop_slots:
  assumes "bq_inv C q" and "deque q \<noteq> []"
  obtains q' where "bq_pop_front C q = Some q'" and "bq_slots q' = tl (bq_slots q)" and "bq_inv C q'"
proof -
  let ?f = "front_chunk_idx q" and ?b = "back_chunk_idx q"
  have fb: "?f < C" "?b < C" and len: "\<forall>c \<in> set (deque q). length c = unat C"
    and none: "None \<notin> set (bq_slots q)"
    using assms by (auto simp: bq_inv_def)
  have f: "unat (?f + 1) = Suc (unat ?f)" and b: "unat (?b + 1) = Suc (unat ?b)"
    using fb by (auto intro: unat_inc)
  have tl_none: "None \<notin> set (tl (bq_slots q))"
    using none by (cases "bq_slots q") auto
  show thesis
  proof (cases "length (deque q) = 1")
    case True
    then have fle: "unat ?f \<le> unat ?b"
      using assms by (simp add: bq_inv_def word_le_nat_alt)
    show thesis
    proof (cases "?f + 1 = ?b + 1")
      case last: True
      let ?q = "q\<lparr>deque := tl (deque q), front_chunk_idx := 0, back_chunk_idx := - 1\<rparr>"
      have tl: "tl (deque q) = []"
        using True by (cases "deque q") auto
      have "length (bq_slots q) = 1"
        using bq_line_length [OF assms] last True by (simp add: bq_slots_def)
      then have "tl (bq_slots q) = []"
        by (cases "bq_slots q") auto
      with True last tl show thesis
        by (intro that [of ?q]) (auto simp: bq_pop_front_def bq_slots_def bq_line_def bq_inv_def Let_def)
    next
      case False
      let ?q = "q\<lparr>front_chunk_idx := ?f + 1\<rparr>"
      have "bq_line ?q = bq_line q"
        by (simp add: bq_line_def)
      then have s: "bq_slots ?q = tl (bq_slots q)"
        using f by (simp add: bq_slots_def drop_Suc_tl)
      have "?f + 1 \<le> ?b"
        using False fle f b by (auto simp: word_le_nat_alt order_le_less word_less_nat_alt unsigned_word_eqI)
      moreover have "?f + 1 < C"
        using calculation fb(2) by simp
      ultimately have "bq_inv C ?q"
        using assms s tl_none len fb by (simp add: bq_inv_def)
      with True False s show thesis
        by (intro that [of ?q]) (auto simp: bq_pop_front_def Let_def)
    qed
  next
    case multi: False
    then obtain c c' cs where d: "deque q = c # c' # cs"
      using assms(2) by (cases "deque q" rule: list.exhaust; cases "tl (deque q)") auto
    show thesis
    proof (cases "?f + 1 = C")
      case True
      let ?q = "q\<lparr>deque := tl (deque q), front_chunk_idx := 0\<rparr>"
      have "bq_line q = c @ bq_line ?q" "length c = Suc (unat ?f)"
        using d True f len by (auto simp: bq_line_def)
      then have s: "bq_slots ?q = tl (bq_slots q)"
        by (simp add: bq_slots_def flip: drop_Suc_tl)
      have "0 < C"
        using fb(1) by (simp add: word_less_nat_alt)
      then have "bq_inv C ?q"
        using assms s tl_none d len fb by (auto simp: bq_inv_def)
      with multi True d s show thesis
        by (intro that [of ?q]) (auto simp: bq_pop_front_def Let_def)
    next
      case False
      let ?q = "q\<lparr>front_chunk_idx := ?f + 1\<rparr>"
      have "bq_line ?q = bq_line q"
        by (simp add: bq_line_def)
      then have s: "bq_slots ?q = tl (bq_slots q)"
        using f by (simp add: bq_slots_def drop_Suc_tl)
      have "?f + 1 < C"
        using False fb by (simp add: inc_less)
      then have "bq_inv C ?q"
        using assms s tl_none len fb multi by (simp add: bq_inv_def)
      with multi False s show thesis
        by (intro that [of ?q]) (auto simp: bq_pop_front_def Let_def)
    qed
  qed
qed

lemma bq_pop_ok:
  assumes "bq_inv C q" and "bq_items q \<noteq> []"
  shows "\<exists>q'. bq_pop_front C q = Some q' \<and> bq_inv C q' \<and> bq_items q' = tl (bq_items q)"
proof -
  have "deque q \<noteq> []"
    using assms bq_items_empty_iff by blast
  from bq_pop_slots [OF assms(1) this] show ?thesis
    by (metis bq_items_def map_tl)
qed

lemma bq_inv_empty: "bq_inv C bq_empty" and bq_items_bq_empty: "bq_items bq_empty = []"
  by (simp_all add: bq_inv_def bq_empty_def bq_items_def bq_slots_def bq_line_def)


section \<open>The chunked queue provides the interface\<close>

interpretation bq: fifo_queue bq_empty "bq_push_back 25" bq_front "bq_pop_front 25" bq_is_empty bq_items "bq_inv 25"
  by unfold_locales
     (auto simp: bq_inv_empty bq_items_bq_empty bq_push_ok bq_front_ok bq_pop_ok bq_is_empty_def
       bq_items_empty_iff)

text \<open>The objects counted, as \<open>size()\<close> does.\<close>

lemma bq_size_items:
  assumes "bq_inv C q"
  shows "bq_size C q = word_of_nat (length (bq_items q))"
proof (cases "deque q = []")
  case True
  then show ?thesis
    by (simp add: bq_size_def bq_items_def bq_slots_def bq_line_def)
next
  case False
  let ?f = "front_chunk_idx q" and ?b = "back_chunk_idx q" and ?n = "length (deque q)"
  have fb: "?f < C" "?b < C"
    using assms False by (auto simp: bq_inv_def)
  have uc: "\<And>w :: uint. (ucast w :: size_t) = word_of_nat (unat w)"
    by simp
  have len: "length (bq_items q) = (?n - 1) * unat C + Suc (unat ?b) - unat ?f"
    using bq_line_length [OF assms False] by (simp add: bq_items_def bq_slots_def)
  have b: "unat (?b + 1) = Suc (unat ?b)"
    using fb(2) by (rule unat_inc)
  show ?thesis
  proof (cases "?n = 1")
    case True
    then have le: "?f \<le> ?b"
      using assms False by (simp add: bq_inv_def)
    then have "unat (?b - ?f) = unat ?b - unat ?f"
      by (simp add: unat_sub)
    moreover have "?b - ?f < C"
      using calculation fb(2) by (simp add: word_less_nat_alt)
    ultimately have "unat (?b - ?f + 1) = Suc (unat ?b) - unat ?f"
      using le by (simp add: unat_inc Suc_diff_le word_le_nat_alt)
    then show ?thesis
      using True False len uc [of "?b - ?f + 1"] by (simp add: bq_size_def)
  next
    case multi: False
    have n: "2 \<le> ?n"
      using multi False by (cases "deque q") (auto simp: Suc_le_eq)
    have cf: "unat (C - ?f) = unat C - unat ?f"
      using fb(1) by (simp add: unat_sub)
    have fC: "unat ?f \<le> unat C"
      using fb(1) by (simp add: word_less_nat_alt)
    have "length (bq_items q) = (?n - 2) * unat C + Suc (unat ?b) + (unat C - unat ?f)"
    proof -
      have "(?n - 1) * unat C = (?n - 2) * unat C + unat C"
        using n by (cases "?n - 1") (auto simp: numeral_2_eq_2)
      then show ?thesis
        using len fC by simp
    qed
    moreover have "bq_size C q = (word_of_nat ?n - 2) * word_of_nat (unat C)
        + word_of_nat (Suc (unat ?b)) + word_of_nat (unat C - unat ?f)"
      using False multi uc [of C] uc [of "?b + 1"] uc [of "C - ?f"] b cf by (simp only: bq_size_def if_False)
    ultimately show ?thesis
      using n by (simp only: of_nat_add of_nat_mult) (simp add: of_nat_diff)
  qed
qed

section \<open>Properties\<close>

text \<open>C22: the chunked queue is a FIFO queue.  For every chunk size from 1 up to the largest
  \<open>unsigned int\<close>, the invariant holds initially and is kept, a push appends, the front is the oldest
  object, a pop removes it, and \<open>empty\<close> tells whether there is one.  In particular no push or pop of
  a well-formed queue reads a slot without an object or writes outside a chunk.\<close>

theorem buffer_queue_is_fifo:
  assumes "0 < C"
  shows "bq_inv C bq_empty \<and> bq_items bq_empty = [] \<and>
    (\<forall>q. bq_inv C q \<longrightarrow> (bq_is_empty q \<longleftrightarrow> bq_items q = []) \<and>
       (\<exists>q'. bq_push_back C x q = Some q' \<and> bq_inv C q' \<and> bq_items q' = bq_items q @ [x]) \<and>
       (bq_items q \<noteq> [] \<longrightarrow> bq_front q = Some (hd (bq_items q)) \<and>
          (\<exists>q'. bq_pop_front C q = Some q' \<and> bq_inv C q' \<and> bq_items q' = tl (bq_items q))))"
  using assms
  by (auto simp: bq_inv_empty bq_items_bq_empty bq_is_empty_def bq_items_empty_iff bq_push_ok
      bq_front_ok bq_pop_ok)

theorem buffer_queue_is_fifo_witness:
  "bq_inv 3 (bq_empty :: nat buffer_queue) \<and>
    (\<exists>q'. bq_push_back 3 (7 :: nat) bq_empty = Some q' \<and> bq_items q' = [7])"
proof -
  note f = buffer_queue_is_fifo [of 3 "7 :: nat", simplified]
  then have "bq_inv 3 (bq_empty :: nat buffer_queue)" "bq_items (bq_empty :: nat buffer_queue) = []"
    by blast+
  moreover from this f have
    "\<exists>q'. bq_push_back 3 (7 :: nat) bq_empty = Some q' \<and> bq_inv 3 q' \<and> bq_items q' = bq_items bq_empty @ [7]"
    by blast
  ultimately show ?thesis
    by auto
qed

text \<open>\<open>size()\<close>, whose arithmetic mixes \<open>unsigned int\<close> indices that wrap with \<open>std::size_t\<close>, is the
  number of objects in the queue, for every queue that fits into the range of \<open>std::size_t\<close>.\<close>

theorem buffer_queue_size:
  assumes "bq_inv C q" and "length (bq_items q) < 2 ^ 64"
  shows "unat (bq_size C q) = length (bq_items q)"
  using assms by (simp add: bq_size_items unat_of_nat take_bit_nat_eq_self)

theorem buffer_queue_size_witness: "unat (bq_size 25 (bq_empty :: nat buffer_queue)) = length (bq_items (bq_empty :: nat buffer_queue))"
  by (rule buffer_queue_size) (simp_all add: bq_inv_empty bq_items_bq_empty)

text \<open>The defaulted move constructor leaves the moved-from queue broken.  Its deque is empty but its
  back index is not reset, so the next push constructs the object in the middle of a new chunk while
  \<open>front()\<close> reads a slot of that chunk where no object was constructed.\<close>

theorem moved_from_queue_reads_garbage:
  assumes "bq_inv C q" and "0 < C" and "deque q \<noteq> []" and "back_chunk_idx q + 1 \<noteq> C"
    and "front_chunk_idx q \<le> back_chunk_idx q"
  shows "\<not> bq_inv C (snd (bq_move q)) \<and>
    (\<exists>q'. bq_push_back C x (snd (bq_move q)) = Some q' \<and> bq_front q' = None)"
proof -
  let ?b = "back_chunk_idx q" and ?c = "replicate (unat C) None"
  have fb: "front_chunk_idx q < C" "?b < C" "?b \<noteq> - 1"
    using assms by (auto simp: bq_inv_def)
  have lt: "unat (?b + 1) < unat C"
    using inc_less [OF fb(2) assms(4)] by (simp add: word_less_nat_alt)
  let ?q = "q\<lparr>deque := [?c[unat (?b + 1) := Some x]], back_chunk_idx := ?b + 1\<rparr>"
  have "bq_push_back C x (snd (bq_move q)) = Some ?q"
    using assms(4) lt by (simp add: bq_push_back_def bq_move_def Let_def)
  moreover have "unat (front_chunk_idx q) < unat (?b + 1)"
    using assms(5) unat_inc [OF fb(2)] by (simp add: word_le_nat_alt)
  then have "bq_front ?q = None"
    using lt by (simp add: bq_front_def rd_def)
  ultimately show ?thesis
    using fb(3) by (auto simp: bq_inv_def bq_move_def)
qed

theorem moved_from_queue_reads_garbage_witness:
  "\<exists>q'. bq_push_back 3 (8 :: nat)
      (snd (bq_move \<lparr>deque = [[Some (7 :: nat), None, None]], front_chunk_idx = 0, back_chunk_idx = 0\<rparr>)) = Some q' \<and>
    bq_front q' = None"
  using moved_from_queue_reads_garbage
    [of 3 "\<lparr>deque = [[Some (7 :: nat), None, None]], front_chunk_idx = 0, back_chunk_idx = 0\<rparr>" 8]
  by (simp add: bq_inv_def bq_slots_def bq_line_def)

end
