(* ===== verification/Tcp_Commands.thy ===== *)
theory Tcp_Commands
  imports Es_Prelude
begin

text \<open>
  \<open>include/tcp/tcp_commands.hpp\<close> and \<open>include/tcp/tcp_flags.hpp\<close>: the command and flag bytes of a
  frame.  \<open>tcp_command\<close> has the fixed underlying type \<open>std::uint8_t\<close>, so every byte read from a
  frame is a value of the enumeration; the bytes without an enumerator are \<open>Other_Command\<close>.
\<close>

datatype (plugins only: code size) tcp_command =
  Heartbeat_Request_Command | Heartbeat_Response_Command | Ping_Command
| Pong_Command | Prepare_Ack_Command | Commit_Ack_Command
| Slave_Assignment_Command | Clone_Assignment_Command | Subscribe_Replica_Command
| Replica_Log_Position_Ack_Command | Create_Chunk_Command | Raw_Chunk_Bulk_Command
| Data_Chunk_Bulk_Command | Replica_Subscription_Retry_Command | Replica_Subscribed_Command
| Write_Events_Command | Write_Events_Completed_Command | Transaction_Start_Command
| Transaction_Start_Completed_Command | Transaction_Write_Command | Transaction_Write_Completed_Command
| Transaction_Commit_Command | Transaction_Commit_Completed_Command | Delete_Stream_Command
| Delete_Stream_Completed_Command | Read_Event_Command | Read_Event_Completed_Command
| Read_Stream_Events_Forward_Command | Read_Stream_Events_Forward_Completed_Command | Read_Stream_Events_Backward_Command
| Read_Stream_Events_Backward_Completed_Command | Read_All_Events_Forward_Command | Read_All_Events_Forward_Completed_Command
| Read_All_Events_Backward_Command | Read_All_Events_Backward_Completed_Command | Subscribe_To_Stream_Command
| Subscription_Confirmation_Command | Stream_Event_Appeared_Command | Unsubscribe_From_Stream_Command
| Subscription_Dropped_Command | Connect_To_Persistent_Subscription_Command | Persistent_Subscription_Confirmation_Command
| Persistent_Subscription_Stream_Event_Appeared_Command | Create_Persistent_Subscription_Command | Create_Persistent_Subscription_Completed_Command
| Delete_Persistent_Subscription_Command | Delete_Persistent_Subscription_Completed_Command | Persistent_Subscription_Ack_Events_Command
| Persistent_Subscription_Nak_Events_Command | Update_Persistent_Subscription_Command | Update_Persistent_Subscription_Completed_Command
| Scavenge_Database_Command | Scavenge_Database_Completed_Command | Bad_Request_Command
| Not_Handled_Command | Authenticate_Command | Authenticated_Command
| Not_Authenticated_Command | Identify_Client_Command | Client_Identified_Command
| Other_Command byte

fun command_code :: "tcp_command \<Rightarrow> byte" where
  "command_code Heartbeat_Request_Command = 0x01"
| "command_code Heartbeat_Response_Command = 0x02"
| "command_code Ping_Command = 0x03"
| "command_code Pong_Command = 0x04"
| "command_code Prepare_Ack_Command = 0x05"
| "command_code Commit_Ack_Command = 0x06"
| "command_code Slave_Assignment_Command = 0x07"
| "command_code Clone_Assignment_Command = 0x08"
| "command_code Subscribe_Replica_Command = 0x10"
| "command_code Replica_Log_Position_Ack_Command = 0x11"
| "command_code Create_Chunk_Command = 0x12"
| "command_code Raw_Chunk_Bulk_Command = 0x13"
| "command_code Data_Chunk_Bulk_Command = 0x14"
| "command_code Replica_Subscription_Retry_Command = 0x15"
| "command_code Replica_Subscribed_Command = 0x16"
| "command_code Write_Events_Command = 0x82"
| "command_code Write_Events_Completed_Command = 0x83"
| "command_code Transaction_Start_Command = 0x84"
| "command_code Transaction_Start_Completed_Command = 0x85"
| "command_code Transaction_Write_Command = 0x86"
| "command_code Transaction_Write_Completed_Command = 0x87"
| "command_code Transaction_Commit_Command = 0x88"
| "command_code Transaction_Commit_Completed_Command = 0x89"
| "command_code Delete_Stream_Command = 0x8A"
| "command_code Delete_Stream_Completed_Command = 0x8B"
| "command_code Read_Event_Command = 0xB0"
| "command_code Read_Event_Completed_Command = 0xB1"
| "command_code Read_Stream_Events_Forward_Command = 0xB2"
| "command_code Read_Stream_Events_Forward_Completed_Command = 0xB3"
| "command_code Read_Stream_Events_Backward_Command = 0xB4"
| "command_code Read_Stream_Events_Backward_Completed_Command = 0xB5"
| "command_code Read_All_Events_Forward_Command = 0xB6"
| "command_code Read_All_Events_Forward_Completed_Command = 0xB7"
| "command_code Read_All_Events_Backward_Command = 0xB8"
| "command_code Read_All_Events_Backward_Completed_Command = 0xB9"
| "command_code Subscribe_To_Stream_Command = 0xC0"
| "command_code Subscription_Confirmation_Command = 0xC1"
| "command_code Stream_Event_Appeared_Command = 0xC2"
| "command_code Unsubscribe_From_Stream_Command = 0xC3"
| "command_code Subscription_Dropped_Command = 0xC4"
| "command_code Connect_To_Persistent_Subscription_Command = 0xC5"
| "command_code Persistent_Subscription_Confirmation_Command = 0xC6"
| "command_code Persistent_Subscription_Stream_Event_Appeared_Command = 0xC7"
| "command_code Create_Persistent_Subscription_Command = 0xC8"
| "command_code Create_Persistent_Subscription_Completed_Command = 0xC9"
| "command_code Delete_Persistent_Subscription_Command = 0xCA"
| "command_code Delete_Persistent_Subscription_Completed_Command = 0xCB"
| "command_code Persistent_Subscription_Ack_Events_Command = 0xCC"
| "command_code Persistent_Subscription_Nak_Events_Command = 0xCD"
| "command_code Update_Persistent_Subscription_Command = 0xCE"
| "command_code Update_Persistent_Subscription_Completed_Command = 0xCF"
| "command_code Scavenge_Database_Command = 0xD0"
| "command_code Scavenge_Database_Completed_Command = 0xD1"
| "command_code Bad_Request_Command = 0xF0"
| "command_code Not_Handled_Command = 0xF1"
| "command_code Authenticate_Command = 0xF2"
| "command_code Authenticated_Command = 0xF3"
| "command_code Not_Authenticated_Command = 0xF4"
| "command_code Identify_Client_Command = 0xF5"
| "command_code Client_Identified_Command = 0xF6"
| "command_code (Other_Command b) = b"

text \<open>The enumerators in the order of the source.\<close>

definition named_commands :: "tcp_command list" where
  "named_commands =
    [Heartbeat_Request_Command, Heartbeat_Response_Command, Ping_Command,
     Pong_Command, Prepare_Ack_Command, Commit_Ack_Command,
     Slave_Assignment_Command, Clone_Assignment_Command, Subscribe_Replica_Command,
     Replica_Log_Position_Ack_Command, Create_Chunk_Command, Raw_Chunk_Bulk_Command,
     Data_Chunk_Bulk_Command, Replica_Subscription_Retry_Command, Replica_Subscribed_Command,
     Write_Events_Command, Write_Events_Completed_Command, Transaction_Start_Command,
     Transaction_Start_Completed_Command, Transaction_Write_Command, Transaction_Write_Completed_Command,
     Transaction_Commit_Command, Transaction_Commit_Completed_Command, Delete_Stream_Command,
     Delete_Stream_Completed_Command, Read_Event_Command, Read_Event_Completed_Command,
     Read_Stream_Events_Forward_Command, Read_Stream_Events_Forward_Completed_Command, Read_Stream_Events_Backward_Command,
     Read_Stream_Events_Backward_Completed_Command, Read_All_Events_Forward_Command, Read_All_Events_Forward_Completed_Command,
     Read_All_Events_Backward_Command, Read_All_Events_Backward_Completed_Command, Subscribe_To_Stream_Command,
     Subscription_Confirmation_Command, Stream_Event_Appeared_Command, Unsubscribe_From_Stream_Command,
     Subscription_Dropped_Command, Connect_To_Persistent_Subscription_Command, Persistent_Subscription_Confirmation_Command,
     Persistent_Subscription_Stream_Event_Appeared_Command, Create_Persistent_Subscription_Command, Create_Persistent_Subscription_Completed_Command,
     Delete_Persistent_Subscription_Command, Delete_Persistent_Subscription_Completed_Command, Persistent_Subscription_Ack_Events_Command,
     Persistent_Subscription_Nak_Events_Command, Update_Persistent_Subscription_Command, Update_Persistent_Subscription_Completed_Command,
     Scavenge_Database_Command, Scavenge_Database_Completed_Command, Bad_Request_Command,
     Not_Handled_Command, Authenticate_Command, Authenticated_Command,
     Not_Authenticated_Command, Identify_Client_Command, Client_Identified_Command]"

text \<open>\<open>*reinterpret_cast<tcp_command*>(&b)\<close>.\<close>

definition command_of :: "byte \<Rightarrow> tcp_command" where
  "command_of b = (case find (\<lambda>c. command_code c = b) named_commands of
      Some c \<Rightarrow> c
    | None \<Rightarrow> Other_Command b)"

text \<open>\<open>to_string(tcp_command)\<close>.\<close>

fun command_to_string :: "tcp_command \<Rightarrow> string" where
  "command_to_string Heartbeat_Request_Command = ''heartbeat request''"
| "command_to_string Heartbeat_Response_Command = ''heartbeat response''"
| "command_to_string Ping_Command = ''ping''"
| "command_to_string Pong_Command = ''pong''"
| "command_to_string Prepare_Ack_Command = ''prepare ack''"
| "command_to_string Commit_Ack_Command = ''commit ack''"
| "command_to_string Slave_Assignment_Command = ''slave assignment''"
| "command_to_string Clone_Assignment_Command = ''clone assignment''"
| "command_to_string Subscribe_Replica_Command = ''subscribe replica''"
| "command_to_string Replica_Log_Position_Ack_Command = ''replica log position ack''"
| "command_to_string Create_Chunk_Command = ''create chunk''"
| "command_to_string Raw_Chunk_Bulk_Command = ''raw chunk bulk''"
| "command_to_string Data_Chunk_Bulk_Command = ''data chunk bulk''"
| "command_to_string Replica_Subscription_Retry_Command = ''replica subscription retry''"
| "command_to_string Replica_Subscribed_Command = ''replica subscribed''"
| "command_to_string Write_Events_Command = ''write events''"
| "command_to_string Write_Events_Completed_Command = ''write events completed''"
| "command_to_string Transaction_Start_Command = ''transaction start''"
| "command_to_string Transaction_Start_Completed_Command = ''transaction start completed''"
| "command_to_string Transaction_Write_Command = ''transaction write''"
| "command_to_string Transaction_Write_Completed_Command = ''transaction write completed''"
| "command_to_string Transaction_Commit_Command = ''transaction commit''"
| "command_to_string Transaction_Commit_Completed_Command = ''transaction commit completed''"
| "command_to_string Delete_Stream_Command = ''delete stream''"
| "command_to_string Delete_Stream_Completed_Command = ''delete stream completed''"
| "command_to_string Read_Event_Command = ''read event''"
| "command_to_string Read_Event_Completed_Command = ''read event completed''"
| "command_to_string Read_Stream_Events_Forward_Command = ''read stream events forward''"
| "command_to_string Read_Stream_Events_Forward_Completed_Command = ''read stream events forward completed''"
| "command_to_string Read_Stream_Events_Backward_Command = ''read stream events backward''"
| "command_to_string Read_Stream_Events_Backward_Completed_Command = ''read stream events backward completed''"
| "command_to_string Read_All_Events_Forward_Command = ''read all events forward''"
| "command_to_string Read_All_Events_Forward_Completed_Command = ''read all events forward completed''"
| "command_to_string Read_All_Events_Backward_Command = ''read all events backward''"
| "command_to_string Read_All_Events_Backward_Completed_Command = ''read all events backward completed''"
| "command_to_string Subscribe_To_Stream_Command = ''subscribe to stream''"
| "command_to_string Subscription_Confirmation_Command = ''subscription confirmation''"
| "command_to_string Stream_Event_Appeared_Command = ''stream event appeared''"
| "command_to_string Unsubscribe_From_Stream_Command = ''unsubscribe from stream''"
| "command_to_string Subscription_Dropped_Command = ''subscription dropped''"
| "command_to_string Connect_To_Persistent_Subscription_Command = ''connect to persistent subscription''"
| "command_to_string Persistent_Subscription_Confirmation_Command = ''persistent subscription confirmation''"
| "command_to_string Persistent_Subscription_Stream_Event_Appeared_Command = ''persistent subscription stream event appeared''"
| "command_to_string Create_Persistent_Subscription_Command = ''create persistent subscription''"
| "command_to_string Create_Persistent_Subscription_Completed_Command = ''create persistent subscription completed''"
| "command_to_string Delete_Persistent_Subscription_Command = ''delete persistent subscription''"
| "command_to_string Delete_Persistent_Subscription_Completed_Command = ''delete persistent subscription completed''"
| "command_to_string Persistent_Subscription_Ack_Events_Command = ''persistent subscription ack events''"
| "command_to_string Persistent_Subscription_Nak_Events_Command = ''persistent subscription nak events''"
| "command_to_string Update_Persistent_Subscription_Command = ''update persistent subscription''"
| "command_to_string Update_Persistent_Subscription_Completed_Command = ''update persistent subscription completed''"
| "command_to_string Scavenge_Database_Command = ''scavenge database''"
| "command_to_string Scavenge_Database_Completed_Command = ''scavenge database completed''"
| "command_to_string Bad_Request_Command = ''bad request''"
| "command_to_string Not_Handled_Command = ''not handled''"
| "command_to_string Authenticate_Command = ''authenticate''"
| "command_to_string Authenticated_Command = ''authenticated''"
| "command_to_string Not_Authenticated_Command = ''not authenticated''"
| "command_to_string Identify_Client_Command = ''identify client''"
| "command_to_string Client_Identified_Command = ''client identified''"
| "command_to_string (Other_Command b) = ''unknown''"

section \<open>Flags\<close>

type_synonym tcp_flags = byte

definition flags_none :: tcp_flags where
  "flags_none = 0x00"

definition flags_authenticated :: tcp_flags where
  "flags_authenticated = 0x01"

section \<open>Facts\<close>

definition is_named :: "tcp_command \<Rightarrow> bool" where
  "is_named c \<longleftrightarrow> (\<forall>b. c \<noteq> Other_Command b)"

lemma named_commands_complete: "is_named c \<Longrightarrow> c \<in> set named_commands"
  by (cases c) (simp_all add: is_named_def named_commands_def)

lemma distinct_codes: "distinct (map command_code named_commands)"
  by (simp add: named_commands_def)

lemma find_by_key:
  assumes "distinct (map f xs)" and "x \<in> set xs"
  shows "find (\<lambda>y. f y = f x) xs = Some x"
  using assms by (induction xs) (auto simp: image_iff)

lemma command_of_code [simp]: "is_named c \<Longrightarrow> command_of (command_code c) = c"
  using find_by_key [OF distinct_codes] named_commands_complete by (simp add: command_of_def)

lemma code_command_of [simp]: "command_code (command_of b) = b"
  by (auto simp: command_of_def find_Some_iff split: option.split)

lemma command_code_named_inject:
  "is_named a \<Longrightarrow> is_named b \<Longrightarrow> (command_code a = command_code b) = (a = b)"
  by (metis command_of_code)

lemma command_to_string_unknown: "(command_to_string c = ''unknown'') = (\<not> is_named c)"
  by (cases c) (simp_all add: is_named_def)

lemma command_to_string_inject_length: "distinct (map command_to_string named_commands)"
  by (simp add: named_commands_def)

end
