(* ===== verification/Tcp_Package.thy ===== *)
theory Tcp_Package
  imports Es_Prelude Tcp_Commands
begin

text \<open>
  \<open>include/tcp/tcp_package.hpp\<close> and the byte view of \<open>include/guid.hpp\<close>: frames of the
  EventStore TCP protocol.  A frame is a length prefix (4 bytes, not counting itself), a command
  byte, a flag byte, a correlation id of 16 bytes, login and password when the frame is
  authenticated (each a length byte followed by the bytes), and the message.

  \<open>tcp_package\<close> owns the memory of a frame it builds, \<open>tcp_package_view\<close> reads a frame that lies in
  somebody else's memory.  Memory is a list of bytes, \<open>nullptr\<close> is \<open>None\<close>.  A constructor writes
  into freshly allocated cells at the offsets the code computes; \<open>None\<close> as the result of an
  operation is undefined behaviour (a read or a write out of bounds, or of unwritten memory).
\<close>

section \<open>Globally unique ids\<close>

text \<open>\<open>boost::uuids::uuid\<close> is 16 bytes of data.\<close>

type_synonym guid = bytes

definition is_guid :: "guid \<Rightarrow> bool" where
  "is_guid g \<longleftrightarrow> length g = 16"

text \<open>\<open>es::guid(const char* a)\<close>: \<open>memcpy\<close> of 16 bytes.\<close>

definition guid_of :: "bytes \<Rightarrow> guid option" where
  "guid_of a = rd_range a 0 16"

lemma guid_of_guid [simp]: "is_guid g \<Longrightarrow> guid_of g = Some g"
  by (simp add: guid_of_def is_guid_def rd_range_def)

section \<open>Offsets\<close>

definition kLengthOffset :: nat where "kLengthOffset = 0"
definition kCommandOffset :: nat where "kCommandOffset = kLengthOffset + 4"
definition kFlagsOffset :: nat where "kFlagsOffset = kCommandOffset + 1"
definition kCorrelationOffset :: nat where "kCorrelationOffset = kFlagsOffset + 1"
definition kAuthOffset :: nat where "kAuthOffset = kCorrelationOffset + 16"
definition kMandatorySize :: nat where "kMandatorySize = kAuthOffset"
definition kMaxPackageSize :: nat where "kMaxPackageSize = 64 * 1024 * 1024"

lemmas offsets [simp] = kLengthOffset_def kCommandOffset_def kFlagsOffset_def
  kCorrelationOffset_def kAuthOffset_def kMandatorySize_def kMaxPackageSize_def

section \<open>tcp_package_view\<close>

record tcp_package_view =
  v_package :: "bytes option"
  v_length :: size_t

text \<open>\<open>tcp_package_view()\<close> value-initialised, the \<open>{}\<close> that callbacks get with an error.\<close>

definition null_view :: tcp_package_view where
  "null_view = \<lparr>v_package = None, v_length = 0\<rparr>"

definition mk_view :: "bytes option \<Rightarrow> size_t \<Rightarrow> tcp_package_view option" where
  "mk_view package n =
    (let len = n - 4;
         p = (if n < word_of_nat kMandatorySize then None else package)
     in case p of
          None \<Rightarrow> Some \<lparr>v_package = None, v_length = len\<rparr>
        | Some m \<Rightarrow> do {
            flags \<leftarrow> rd m kFlagsOffset;
            if flags = flags_authenticated then do {
              login_size \<leftarrow> rd m kAuthOffset;
              let password_offset = kAuthOffset + 1 + unat login_size;
              password_size \<leftarrow> rd m password_offset;
              if n < word_of_nat (kMandatorySize + 1 + unat login_size + 1 + unat password_size)
              then Some \<lparr>v_package = None, v_length = len\<rparr>
              else Some \<lparr>v_package = Some m, v_length = len\<rparr>
            }
            else Some \<lparr>v_package = Some m, v_length = len\<rparr>
          })"

definition view_command :: "tcp_package_view \<Rightarrow> tcp_command option" where
  "view_command v = do { m \<leftarrow> v_package v; b \<leftarrow> rd m kCommandOffset; Some (command_of b) }"

definition view_flags :: "tcp_package_view \<Rightarrow> tcp_flags option" where
  "view_flags v = do { m \<leftarrow> v_package v; rd m kFlagsOffset }"

definition view_correlation_id :: "tcp_package_view \<Rightarrow> bytes option" where
  "view_correlation_id v = do { m \<leftarrow> v_package v; rd_range m kCorrelationOffset 16 }"

definition view_is_valid :: "tcp_package_view \<Rightarrow> bool" where
  "view_is_valid v \<longleftrightarrow> v_package v \<noteq> None"

definition view_is_authenticated :: "tcp_package_view \<Rightarrow> bool option" where
  "view_is_authenticated v = do { f \<leftarrow> view_flags v; Some (f = flags_authenticated) }"

definition view_login_size :: "tcp_package_view \<Rightarrow> byte option" where
  "view_login_size v = do { m \<leftarrow> v_package v; rd m kAuthOffset }"

definition view_login_offset :: "tcp_package_view \<Rightarrow> uint" where
  "view_login_offset v = word_of_nat (kAuthOffset + 1)"

definition view_password_offset :: "tcp_package_view \<Rightarrow> uint option" where
  "view_password_offset v = do {
     login_size \<leftarrow> view_login_size v;
     let password_size_offset = view_login_offset v + ucast login_size;
     Some (password_size_offset + 1) }"

definition view_password_size :: "tcp_package_view \<Rightarrow> byte option" where
  "view_password_size v = do {
     login_size \<leftarrow> view_login_size v;
     let password_size_offset = view_login_offset v + ucast login_size;
     m \<leftarrow> v_package v;
     rd m (unat password_size_offset) }"

definition view_login :: "tcp_package_view \<Rightarrow> bytes option" where
  "view_login v = do {
     m \<leftarrow> v_package v;
     n \<leftarrow> view_login_size v;
     rd_range m (unat (view_login_offset v)) (unat n) }"

definition view_password :: "tcp_package_view \<Rightarrow> bytes option" where
  "view_password v = do {
     m \<leftarrow> v_package v;
     i \<leftarrow> view_password_offset v;
     n \<leftarrow> view_password_size v;
     rd_range m (unat i) (unat n) }"

definition view_message_offset :: "tcp_package_view \<Rightarrow> uint option" where
  "view_message_offset v = do {
     a \<leftarrow> view_is_authenticated v;
     if a then do {
       i \<leftarrow> view_password_offset v;
       n \<leftarrow> view_password_size v;
       Some (i + ucast n) }
     else Some (word_of_nat kMandatorySize) }"

definition view_message_size :: "tcp_package_view \<Rightarrow> uint option" where
  "view_message_size v = do {
     i \<leftarrow> view_message_offset v;
     Some (ucast (v_length v + 4 - ucast i)) }"

definition view_data :: "tcp_package_view \<Rightarrow> bytes option" where
  "view_data v = v_package v"

definition view_size :: "tcp_package_view \<Rightarrow> size_t" where
  "view_size v = v_length v + 4"

text \<open>The bytes every response parser gets: \<open>view.data() + view.message_offset()\<close> with
  \<open>view.message_size()\<close>.\<close>

definition view_message :: "tcp_package_view \<Rightarrow> bytes option" where
  "view_message v = do {
     m \<leftarrow> view_data v;
     i \<leftarrow> view_message_offset v;
     n \<leftarrow> view_message_size v;
     rd_range m (unat i) (unat n) }"

section \<open>tcp_package\<close>

record tcp_package =
  p_package :: "bytes option"
  p_length :: nat

definition null_package :: tcp_package where
  "null_package = \<lparr>p_package = None, p_length = 0\<rparr>"

text \<open>The unauthenticated constructor.\<close>

definition unauthenticated_package ::
  "tcp_command \<Rightarrow> tcp_flags \<Rightarrow> bytes \<Rightarrow> bytes \<Rightarrow> tcp_package option" where
  "unauthenticated_package command flags correlation_id message =
    (if and flags flags_authenticated \<noteq> 0 then Some null_package
     else do {
       let len = 18 + length message;
       m \<leftarrow> poke kLengthOffset (le32 (word_of_nat len)) (allocate (len + 4));
       m \<leftarrow> poke kCommandOffset [command_code command] m;
       m \<leftarrow> poke kFlagsOffset [flags] m;
       m \<leftarrow> poke kCorrelationOffset correlation_id m;
       m \<leftarrow> poke kMandatorySize message m;
       b \<leftarrow> contents m;
       Some \<lparr>p_package = Some b, p_length = len\<rparr> })"

text \<open>The authenticated constructor.\<close>

definition authenticated_package ::
  "tcp_command \<Rightarrow> tcp_flags \<Rightarrow> bytes \<Rightarrow> string \<Rightarrow> string \<Rightarrow> bytes \<Rightarrow> tcp_package option" where
  "authenticated_package command flags correlation_id login password message =
    (if \<not> (and flags flags_authenticated \<noteq> 0) then Some null_package
     else do {
       let len = 18 + 1 + length login + 1 + length password + length message;
       m \<leftarrow> poke kLengthOffset (le32 (word_of_nat len)) (allocate (len + 4));
       m \<leftarrow> poke kCommandOffset [command_code command] m;
       m \<leftarrow> poke kFlagsOffset [flags] m;
       m \<leftarrow> poke kCorrelationOffset correlation_id m;
       m \<leftarrow> poke kAuthOffset [word_of_nat (length login)] m;
       m \<leftarrow> poke (kAuthOffset + 1) (to_bytes login) m;
       let password_size_offset = kAuthOffset + 1 + length login;
       m \<leftarrow> poke password_size_offset [word_of_nat (length password)] m;
       m \<leftarrow> poke (password_size_offset + 1) (to_bytes password) m;
       let message_offset = password_size_offset + 1 + length password;
       m \<leftarrow> poke message_offset message m;
       b \<leftarrow> contents m;
       Some \<lparr>p_package = Some b, p_length = len\<rparr> })"

text \<open>Move and copy.  A moved-from package keeps its length but owns nothing.\<close>

definition move_package :: "tcp_package \<Rightarrow> tcp_package \<times> tcp_package" where
  "move_package other = (\<lparr>p_package = p_package other, p_length = p_length other\<rparr>, other\<lparr>p_package := None\<rparr>)"

definition copy_package :: "tcp_package \<Rightarrow> tcp_package option" where
  "copy_package other = do {
     src \<leftarrow> p_package other;
     b \<leftarrow> rd_range src 0 (p_length other + 4);
     m \<leftarrow> poke 0 b (allocate (p_length other + 4));
     b \<leftarrow> contents m;
     Some \<lparr>p_package = Some b, p_length = p_length other\<rparr> }"

definition change_length_endianness :: "tcp_package \<Rightarrow> tcp_package option" where
  "change_length_endianness p = do {
     m \<leftarrow> p_package p;
     b0 \<leftarrow> rd m 0; b3 \<leftarrow> rd m 3; b1 \<leftarrow> rd m 1; b2 \<leftarrow> rd m 2;
     Some (p\<lparr>p_package := Some (m[0 := b3, 3 := b0, 1 := b2, 2 := b1])\<rparr>) }"

definition is_header_valid :: "tcp_package \<Rightarrow> bool option" where
  "is_header_valid p = do {
     m \<leftarrow> p_package p;
     w \<leftarrow> rd32 m kLengthOffset;
     Some (w = word_of_nat (p_length p)) }"

definition is_valid :: "tcp_package \<Rightarrow> bool option" where
  "is_valid p = (if p_package p \<noteq> None \<and> p_length p \<ge> 18 then is_header_valid p else Some False)"

definition data :: "tcp_package \<Rightarrow> bytes option" where
  "data p = p_package p"

definition size_of :: "tcp_package \<Rightarrow> nat" where
  "size_of p = p_length p + 4"

text \<open>The explicit conversion to a view.\<close>

definition to_view :: "tcp_package \<Rightarrow> tcp_package_view option" where
  "to_view p = mk_view (p_package p) (word_of_nat (p_length p + 4))"

section \<open>The bytes of a frame\<close>

lemma poke_at:
  "length w = i \<Longrightarrow> length b \<le> n \<Longrightarrow>
   poke i b (map Some w @ allocate n) = Some (map Some (w @ b) @ allocate (n - length b))"
  using poke_next by blast

lemma poke_start:
  "length b \<le> n \<Longrightarrow> poke 0 b (allocate n) = Some (map Some b @ allocate (n - length b))"
  using poke_next [of b n "[]"] by simp

definition unauthenticated_frame :: "tcp_command \<Rightarrow> tcp_flags \<Rightarrow> bytes \<Rightarrow> bytes \<Rightarrow> bytes" where
  "unauthenticated_frame command flags correlation_id message =
     le32 (word_of_nat (18 + length message)) @ [command_code command] @ [flags] @ correlation_id @ message"

definition authenticated_frame ::
  "tcp_command \<Rightarrow> tcp_flags \<Rightarrow> bytes \<Rightarrow> string \<Rightarrow> string \<Rightarrow> bytes \<Rightarrow> bytes" where
  "authenticated_frame command flags correlation_id login password message =
     le32 (word_of_nat (18 + 1 + length login + 1 + length password + length message)) @
     [command_code command] @ [flags] @ correlation_id @ [word_of_nat (length login)] @ to_bytes login @
     [word_of_nat (length password)] @ to_bytes password @ message"

lemma unauthenticated_package_frame:
  assumes "and flags flags_authenticated = 0" and "is_guid correlation_id"
  shows "unauthenticated_package command flags correlation_id message =
    Some \<lparr>p_package = Some (unauthenticated_frame command flags correlation_id message),
          p_length = 18 + length message\<rparr>"
  using assms
  by (simp add: unauthenticated_package_def unauthenticated_frame_def poke_start poke_at is_guid_def
      flip: map_append)

lemma authenticated_package_frame:
  assumes "and flags flags_authenticated \<noteq> 0" and "is_guid correlation_id"
  shows "authenticated_package command flags correlation_id login password message =
    Some \<lparr>p_package = Some (authenticated_frame command flags correlation_id login password message),
          p_length = 18 + 1 + length login + 1 + length password + length message\<rparr>"
  using assms
  by (simp add: authenticated_package_def authenticated_frame_def poke_start poke_at is_guid_def
      flip: map_append)

lemma length_unauthenticated_frame:
  "is_guid c \<Longrightarrow> length (unauthenticated_frame cmd f c msg) = 22 + length msg"
  by (simp add: unauthenticated_frame_def is_guid_def)

lemma length_authenticated_frame:
  "is_guid c \<Longrightarrow> length (authenticated_frame cmd f c l p msg) =
     24 + length l + length p + length msg"
  by (simp add: authenticated_frame_def is_guid_def)

section \<open>Reading a frame through a view\<close>

lemma byte_bound: "unat (b :: byte) < 256"
  using unsigned_less [of b, where 'a = nat] by simp

lemma size_less_iff:
  "a < 2 ^ 64 \<Longrightarrow> b < 2 ^ 64 \<Longrightarrow> (word_of_nat a < (word_of_nat b :: size_t)) = (a < b)"
  by (simp add: word_less_nat_alt unat_of_nat take_bit_nat_eq_self)

lemma size_less_22: "a < 2 ^ 64 \<Longrightarrow> (word_of_nat a < (22 :: size_t)) = (a < 22)"
  using size_less_iff [of a 22] by simp

text \<open>The view constructor on a region whose first \<open>n\<close> bytes are the frame.\<close>

abbreviation login_len :: "bytes \<Rightarrow> nat" where
  "login_len m \<equiv> unat (m ! 22)"

abbreviation password_len :: "bytes \<Rightarrow> nat" where
  "password_len m \<equiv> unat (m ! (23 + login_len m))"

lemma mk_view_eq:
  assumes "n < 2 ^ 64" and "n \<le> length m"
  shows "mk_view (Some m) (word_of_nat n) =
    (if n < 22 then Some \<lparr>v_package = None, v_length = word_of_nat n - 4\<rparr>
     else if m ! 5 \<noteq> flags_authenticated then Some \<lparr>v_package = Some m, v_length = word_of_nat n - 4\<rparr>
     else if length m \<le> 23 + (if length m \<le> 22 then 0 else login_len m) then None
     else if n < 24 + login_len m + password_len m
       then Some \<lparr>v_package = None, v_length = word_of_nat n - 4\<rparr>
     else Some \<lparr>v_package = Some m, v_length = word_of_nat n - 4\<rparr>)"
proof (cases "n < 22 \<or> m ! 5 \<noteq> flags_authenticated")
  case True
  then show ?thesis
    using assms by (auto simp: mk_view_def size_less_22 rd_def)
next
  case False
  let ?k = "kMandatorySize + 1 + login_len m + 1 + password_len m"
  have n: "\<not> word_of_nat n < (word_of_nat kMandatorySize :: size_t)" and f: "rd m kFlagsOffset = Some flags_authenticated"
    using False assms by (simp_all add: size_less_22 rd_def)
  have "?k < 2 ^ 64"
    using byte_bound [of "m ! 22"] byte_bound [of "m ! (23 + login_len m)"] by simp
  then have l: "(word_of_nat n < (word_of_nat ?k :: size_t)) = (n < ?k)"
    by (rule size_less_iff [OF assms(1)])
  consider "length m \<le> 22" | "22 < length m" "length m \<le> 23 + login_len m" | "23 + login_len m < length m"
    by linarith
  then show ?thesis
  proof cases
    case 3
    then have "rd m kAuthOffset = Some (m ! 22)" "rd m (kAuthOffset + 1 + login_len m) = Some (m ! (23 + login_len m))"
      by (simp_all add: rd_def)
    with False 3 l n f show ?thesis
      by (simp only: mk_view_def Let_def option.case Option.bind.simps if_True if_False) simp
  qed (use False n f in \<open>auto simp: mk_view_def rd_def\<close>)
qed

text \<open>What a frame must satisfy for the view to be valid, and what the view then reads.\<close>

definition frame_ok :: "bytes \<Rightarrow> nat \<Rightarrow> bool" where
  "frame_ok m n \<longleftrightarrow> 22 \<le> n \<and> n \<le> length m \<and>
     (m ! 5 = flags_authenticated \<longrightarrow> 23 + login_len m < length m \<and> 24 + login_len m + password_len m \<le> n)"

definition frame_view :: "bytes \<Rightarrow> nat \<Rightarrow> tcp_package_view" where
  "frame_view m n = \<lparr>v_package = Some m, v_length = word_of_nat n - 4\<rparr>"

definition body_offset :: "bytes \<Rightarrow> nat" where
  "body_offset m = (if m ! 5 = flags_authenticated then 24 + login_len m + password_len m else 22)"

lemma mk_view_ok:
  assumes "frame_ok m n" and "n < 2 ^ 64"
  shows "mk_view (Some m) (word_of_nat n) = Some (frame_view m n)"
  using assms mk_view_eq [of n m] by (auto simp: frame_ok_def frame_view_def)

lemma mk_view_valid_iff:
  assumes "n < 2 ^ 64" and "n \<le> length m"
  shows "(\<exists>v. mk_view (Some m) (word_of_nat n) = Some v \<and> view_is_valid v) = frame_ok m n"
  using mk_view_eq [OF assms] assms by (auto simp: frame_ok_def view_is_valid_def)

lemma body_offset_le: "frame_ok m n \<Longrightarrow> body_offset m \<le> n"
  by (auto simp: frame_ok_def body_offset_def)

lemma body_offset_bound: "body_offset m < 2 ^ 32"
  using byte_bound [of "m ! 22"] byte_bound [of "m ! (23 + login_len m)"] by (simp add: body_offset_def)

lemma frame_view_command: "frame_ok m n \<Longrightarrow> view_command (frame_view m n) = Some (command_of (m ! 4))"
  by (simp add: view_command_def frame_view_def frame_ok_def rd_def)

lemma frame_view_flags: "frame_ok m n \<Longrightarrow> view_flags (frame_view m n) = Some (m ! 5)"
  by (simp add: view_flags_def frame_view_def frame_ok_def rd_def)

lemma frame_view_correlation_id:
  "frame_ok m n \<Longrightarrow> view_correlation_id (frame_view m n) = Some (take 16 (drop 6 m))"
  by (simp add: view_correlation_id_def frame_view_def frame_ok_def rd_range_def)

lemma frame_view_is_authenticated:
  "frame_ok m n \<Longrightarrow> view_is_authenticated (frame_view m n) = Some (m ! 5 = flags_authenticated)"
  by (simp add: view_is_authenticated_def frame_view_flags)

lemma frame_view_size: "view_size (frame_view m n) = word_of_nat n"
  by (simp add: view_size_def frame_view_def)

lemma unat_ucast_byte: "unat (ucast (b :: byte) :: uint) = unat b"
  using byte_bound [of b] by (simp add: unsigned_ucast_eq take_bit_nat_eq_self)

lemma unat_uint_add:
  "unat (a :: uint) + unat b < 2 ^ 32 \<Longrightarrow> unat (a + b) = unat a + unat b"
  by (simp add: unat_word_ariths)

lemma frame_view_auth_parts:
  assumes ok: "frame_ok m n" and auth: "m ! 5 = flags_authenticated"
  shows "view_login_size (frame_view m n) = Some (m ! 22)"
    and "map_option unat (view_password_offset (frame_view m n)) = Some (24 + login_len m)"
    and "view_password_size (frame_view m n) = Some (m ! (23 + login_len m))"
proof -
  have b: "login_len m < 256" "password_len m < 256"
    by (rule byte_bound)+
  have len: "22 < length m" "23 + login_len m < length m"
    using assms by (auto simp: frame_ok_def)
  show ls: "view_login_size (frame_view m n) = Some (m ! 22)"
    using len by (simp add: view_login_size_def frame_view_def rd_def)
  have off: "unat (view_login_offset (frame_view m n) + ucast (m ! 22)) = 23 + login_len m"
    using b unat_uint_add [of 23 "ucast (m ! 22)"] by (simp add: view_login_offset_def unat_ucast_byte)
  show "map_option unat (view_password_offset (frame_view m n)) = Some (24 + login_len m)"
    using ls b off unat_uint_add [of "view_login_offset (frame_view m n) + ucast (m ! 22)" 1]
    by (simp add: view_password_offset_def)
  show "view_password_size (frame_view m n) = Some (m ! (23 + login_len m))"
    using ls off len by (simp add: view_password_size_def frame_view_def rd_def)
qed

lemma frame_view_message_offset:
  assumes ok: "frame_ok m n"
  shows "map_option unat (view_message_offset (frame_view m n)) = Some (body_offset m)"
proof (cases "m ! 5 = flags_authenticated")
  case True
  obtain i where i: "view_password_offset (frame_view m n) = Some i" "unat i = 24 + login_len m"
    using frame_view_auth_parts(2) [OF ok True] by auto
  have "unat (i + ucast (m ! (23 + login_len m))) = 24 + login_len m + password_len m"
    using i byte_bound [of "m ! 22"] byte_bound [of "m ! (23 + login_len m)"]
      unat_uint_add [of i "ucast (m ! (23 + login_len m))"]
    by (simp add: unat_ucast_byte)
  then show ?thesis
    using ok True i frame_view_auth_parts(3) [OF ok True]
    by (simp add: view_message_offset_def frame_view_is_authenticated body_offset_def)
next
  case False
  then show ?thesis
    using ok by (simp add: view_message_offset_def frame_view_is_authenticated body_offset_def)
qed

lemma frame_view_message_size:
  assumes ok: "frame_ok m n" and n: "n < 2 ^ 32"
  shows "map_option unat (view_message_size (frame_view m n)) = Some (n - body_offset m)"
proof -
  obtain i where i: "view_message_offset (frame_view m n) = Some i" "unat i = body_offset m"
    using frame_view_message_offset [OF ok] by auto
  have le: "body_offset m \<le> n"
    by (rule body_offset_le [OF ok])
  have "(ucast i :: size_t) = word_of_nat (body_offset m)"
    by (simp flip: i(2))
  then have "(word_of_nat n :: size_t) - ucast i = word_of_nat (n - body_offset m)"
    using le by (simp add: of_nat_diff)
  moreover have "unat (ucast (word_of_nat (n - body_offset m) :: size_t) :: uint) = n - body_offset m"
    using n by (simp add: unsigned_ucast_eq unat_of_nat take_bit_nat_eq_self)
  ultimately show ?thesis
    using i(1) by (simp add: view_message_size_def frame_view_def)
qed

lemma frame_view_message:
  assumes ok: "frame_ok m n" and n: "n < 2 ^ 32"
  shows "view_message (frame_view m n) = Some (drop (body_offset m) (take n m))"
proof -
  have "n \<le> length m" "body_offset m \<le> n"
    using ok body_offset_le by (auto simp: frame_ok_def)
  moreover have "take (n - body_offset m) (drop (body_offset m) m) = drop (body_offset m) (take n m)"
    by (simp add: drop_take)
  moreover obtain i j where "view_message_offset (frame_view m n) = Some i" "unat i = body_offset m"
      "view_message_size (frame_view m n) = Some j" "unat j = n - body_offset m"
    using frame_view_message_offset [OF ok] frame_view_message_size [OF ok n] by auto
  ultimately show ?thesis
    by (simp add: view_message_def view_data_def frame_view_def rd_range_def)
qed

lemma frame_view_login:
  assumes ok: "frame_ok m n" and auth: "m ! 5 = flags_authenticated"
  shows "view_login (frame_view m n) = Some (take (login_len m) (drop 23 m))"
    and "view_password (frame_view m n) = Some (take (password_len m) (drop (24 + login_len m) m))"
proof -
  have len: "23 + login_len m < length m" "24 + login_len m + password_len m \<le> length m"
    using assms by (auto simp: frame_ok_def)
  show "view_login (frame_view m n) = Some (take (login_len m) (drop 23 m))"
    using len frame_view_auth_parts(1) [OF assms]
    by (simp add: view_login_def frame_view_def view_login_offset_def rd_range_def)
  obtain i where i: "view_password_offset (frame_view m n) = Some i" "unat i = 24 + login_len m"
    using frame_view_auth_parts(2) [OF ok auth] by auto
  have p: "v_package (frame_view m n) = Some m"
    by (simp add: frame_view_def)
  show "view_password (frame_view m n) = Some (take (password_len m) (drop (24 + login_len m) m))"
    using len i p frame_view_auth_parts(3) [OF assms] by (simp add: view_password_def rd_range_def)
qed

section \<open>The frames the constructors build, seen through a view\<close>

lemma unauthenticated_frame_ok:
  assumes "is_guid g" and "and f flags_authenticated = 0"
  shows "frame_ok (unauthenticated_frame c f g msg) (22 + length msg)"
    and "unauthenticated_frame c f g msg ! 4 = command_code c"
    and "unauthenticated_frame c f g msg ! 5 = f"
    and "take 16 (drop 6 (unauthenticated_frame c f g msg)) = g"
    and "body_offset (unauthenticated_frame c f g msg) = 22"
    and "drop 22 (unauthenticated_frame c f g msg) = msg"
proof -
  have f: "f \<noteq> flags_authenticated"
    using assms(2) by (auto simp: flags_authenticated_def)
  show five: "unauthenticated_frame c f g msg ! 5 = f"
    by (simp add: unauthenticated_frame_def nth_append)
  then show "frame_ok (unauthenticated_frame c f g msg) (22 + length msg)"
    using assms(1) f by (simp add: frame_ok_def length_unauthenticated_frame)
  show "body_offset (unauthenticated_frame c f g msg) = 22"
    using five f by (simp add: body_offset_def)
qed (use assms(1) in \<open>simp_all add: unauthenticated_frame_def nth_append is_guid_def\<close>)

lemma unat_len_byte: "unat (word_of_nat n :: byte) = n mod 256"
  by (simp add: unat_of_nat take_bit_eq_mod)

lemma authenticated_frame_fields:
  assumes "is_guid g"
  shows "authenticated_frame c f g l p msg ! 4 = command_code c"
    and "authenticated_frame c f g l p msg ! 5 = f"
    and "take 16 (drop 6 (authenticated_frame c f g l p msg)) = g"
    and "login_len (authenticated_frame c f g l p msg) = length l mod 256"
    and "drop 23 (authenticated_frame c f g l p msg) =
           to_bytes l @ word_of_nat (length p) # to_bytes p @ msg"
    and "authenticated_frame c f g l p msg ! (23 + length l) = word_of_nat (length p)"
    and "drop (24 + length l) (authenticated_frame c f g l p msg) = to_bytes p @ msg"
    and "drop (24 + length l + length p) (authenticated_frame c f g l p msg) = msg"
proof -
  show d: "drop 23 (authenticated_frame c f g l p msg) = to_bytes l @ word_of_nat (length p) # to_bytes p @ msg"
    using assms by (simp add: authenticated_frame_def is_guid_def)
  have "drop (24 + length l) (authenticated_frame c f g l p msg) =
      drop (Suc (length l)) (drop 23 (authenticated_frame c f g l p msg))"
    by (simp add: add.commute)
  then show e: "drop (24 + length l) (authenticated_frame c f g l p msg) = to_bytes p @ msg"
    by (simp add: d)
  have "drop (24 + length l + length p) (authenticated_frame c f g l p msg) =
      drop (length p) (drop (24 + length l) (authenticated_frame c f g l p msg))"
    by (simp only: drop_drop add.commute)
  then show "drop (24 + length l + length p) (authenticated_frame c f g l p msg) = msg"
    by (simp only: e) simp
qed (use assms in \<open>simp_all add: authenticated_frame_def nth_append is_guid_def unat_len_byte\<close>)

lemma authenticated_frame_ok:
  assumes "is_guid g" and "length l < 256" and "length p < 256"
  shows "frame_ok (authenticated_frame c flags_authenticated g l p msg) (24 + length l + length p + length msg)"
    and "body_offset (authenticated_frame c flags_authenticated g l p msg) = 24 + length l + length p"
  using assms authenticated_frame_fields [OF assms(1)]
  by (simp_all add: frame_ok_def body_offset_def length_authenticated_frame unat_len_byte)

lemma frame_header_valid:
  "rd32 (unauthenticated_frame c f g msg) 0 = Some (word_of_nat (18 + length msg))"
  "rd32 (authenticated_frame c f g l p msg) 0 =
     Some (word_of_nat (18 + 1 + length l + 1 + length p + length msg))"
  by (simp_all add: unauthenticated_frame_def authenticated_frame_def rd32_le32 del: of_nat_add)

lemma unauthenticated_package_view:
  assumes "is_named c" and "and f flags_authenticated = 0" and "is_guid g"
    and "22 + length msg < 2 ^ 32"
  shows "\<exists>p v. unauthenticated_package c f g msg = Some p \<and> is_valid p = Some True \<and>
    to_view p = Some v \<and> view_is_valid v \<and> view_command v = Some c \<and> view_flags v = Some f \<and>
    view_is_authenticated v = Some False \<and> view_correlation_id v = Some g \<and>
    view_message v = Some msg \<and> view_size v = word_of_nat (size_of p)"
proof -
  let ?m = "unauthenticated_frame c f g msg" and ?n = "22 + length msg"
  let ?p = "\<lparr>p_package = Some ?m, p_length = 18 + length msg\<rparr>"
  note F = unauthenticated_frame_ok [OF assms(3,2), where c = c and msg = msg]
  have "to_view ?p = mk_view (Some ?m) (word_of_nat ?n)"
    by (simp add: to_view_def)
  then have v: "to_view ?p = Some (frame_view ?m ?n)"
    using mk_view_ok [OF F(1)] assms(4) by simp
  have "is_valid ?p = Some True"
    by (simp add: is_valid_def is_header_valid_def frame_header_valid)
  moreover have "view_message (frame_view ?m ?n) = Some msg"
    using frame_view_message [OF F(1) assms(4)] F(5,6) length_unauthenticated_frame [OF assms(3)] by simp
  moreover have "f \<noteq> flags_authenticated"
    using assms(2) by (auto simp: flags_authenticated_def)
  ultimately show ?thesis
    using unauthenticated_package_frame [OF assms(2,3)] v F assms(1)
    by (simp add: frame_view_command [OF F(1)] frame_view_flags [OF F(1)] frame_view_correlation_id [OF F(1)]
        frame_view_is_authenticated [OF F(1)] frame_view_size size_of_def)
       (simp add: view_is_valid_def frame_view_def)
qed

lemma authenticated_package_view:
  assumes "is_named c" and "is_guid g" and "length l < 256" and "length p < 256"
    and "24 + length l + length p + length msg < 2 ^ 32"
  shows "\<exists>pk v. authenticated_package c flags_authenticated g l p msg = Some pk \<and> is_valid pk = Some True \<and>
    to_view pk = Some v \<and> view_is_valid v \<and> view_command v = Some c \<and>
    view_is_authenticated v = Some True \<and> view_correlation_id v = Some g \<and>
    view_login v = Some (to_bytes l) \<and> view_password v = Some (to_bytes p) \<and>
    view_message v = Some msg \<and> view_size v = word_of_nat (size_of pk)"
proof -
  let ?m = "authenticated_frame c flags_authenticated g l p msg"
  let ?n = "24 + length l + length p + length msg"
  let ?p = "\<lparr>p_package = Some ?m, p_length = 18 + 1 + length l + 1 + length p + length msg\<rparr>"
  note F = authenticated_frame_ok [OF assms(2-4), where c = c and msg = msg]
  note G = authenticated_frame_fields [OF assms(2), where c = c and f = flags_authenticated and l = l and p = p and msg = msg]
  have auth: "and flags_authenticated flags_authenticated \<noteq> 0"
    by (simp add: flags_authenticated_def)
  have "p_length ?p + 4 = ?n"
    by simp
  then have v: "to_view ?p = Some (frame_view ?m ?n)"
    using mk_view_ok [OF F(1)] assms(5) by (simp only: to_view_def tcp_package.simps) simp
  have "is_valid ?p = Some True"
    by (simp add: is_valid_def is_header_valid_def frame_header_valid)
  moreover have "view_message (frame_view ?m ?n) = Some msg"
    using frame_view_message [OF F(1) assms(5)] F(2) G(8) length_authenticated_frame [OF assms(2)]
    by simp
  moreover have "view_login (frame_view ?m ?n) = Some (to_bytes l)"
    using frame_view_login(1) [OF F(1) G(2)] G assms(3) by simp
  moreover have "view_password (frame_view ?m ?n) = Some (to_bytes p)"
    using frame_view_login(2) [OF F(1) G(2)] G assms(3,4) by (simp add: unat_len_byte)
  ultimately show ?thesis
    using authenticated_package_frame [OF auth assms(2)] v G assms(1)
    by (simp add: frame_view_command [OF F(1)] frame_view_correlation_id [OF F(1)]
        frame_view_is_authenticated [OF F(1)] frame_view_size size_of_def)
       (simp add: view_is_valid_def frame_view_def add_ac)
qed

section \<open>Properties\<close>

text \<open>A frame built by the unauthenticated constructor is valid, and the view of it reads back
  the command, the flags, the correlation id and exactly the message, for every message whose
  frame fits the 32-bit length prefix.\<close>

theorem unauthenticated_round_trip:
  assumes "is_named c" and "and f flags_authenticated = 0" and "is_guid g"
    and "22 + length msg < 2 ^ 32"
  shows "\<exists>p v. unauthenticated_package c f g msg = Some p \<and> is_valid p = Some True \<and>
    to_view p = Some v \<and> view_is_valid v \<and> view_command v = Some c \<and> view_flags v = Some f \<and>
    view_is_authenticated v = Some False \<and> view_correlation_id v = Some g \<and>
    view_message v = Some msg \<and> view_size v = word_of_nat (size_of p)"
  by (rule unauthenticated_package_view [OF assms])

theorem unauthenticated_round_trip_witness:
  "\<exists>p v. unauthenticated_package Ping_Command 0 (replicate 16 7) [1, 2, 3] = Some p \<and> is_valid p = Some True \<and>
    to_view p = Some v \<and> view_is_valid v \<and> view_command v = Some Ping_Command \<and> view_flags v = Some 0 \<and>
    view_is_authenticated v = Some False \<and> view_correlation_id v = Some (replicate 16 7) \<and>
    view_message v = Some [1, 2, 3] \<and> view_size v = word_of_nat (size_of p)"
  by (rule unauthenticated_round_trip) (simp_all add: is_named_def is_guid_def)

text \<open>C16: a frame built by the authenticated constructor, with login and password of at most 255
  bytes and a size below 2 to the 32, is valid, and the view of it reads back every field, credentials included.\<close>

theorem authenticated_round_trip:
  assumes "is_named c" and "is_guid g" and "length l < 256" and "length p < 256"
    and "24 + length l + length p + length msg < 2 ^ 32"
  shows "\<exists>pk v. authenticated_package c flags_authenticated g l p msg = Some pk \<and> is_valid pk = Some True \<and>
    to_view pk = Some v \<and> view_is_valid v \<and> view_command v = Some c \<and>
    view_is_authenticated v = Some True \<and> view_correlation_id v = Some g \<and>
    view_login v = Some (to_bytes l) \<and> view_password v = Some (to_bytes p) \<and>
    view_message v = Some msg \<and> view_size v = word_of_nat (size_of pk)"
  by (rule authenticated_package_view [OF assms])

theorem authenticated_round_trip_witness:
  "\<exists>pk v. authenticated_package Authenticate_Command flags_authenticated (replicate 16 7) ''admin'' ''changeit'' [] = Some pk \<and>
    is_valid pk = Some True \<and> to_view pk = Some v \<and> view_is_valid v \<and> view_command v = Some Authenticate_Command \<and>
    view_is_authenticated v = Some True \<and> view_correlation_id v = Some (replicate 16 7) \<and>
    view_login v = Some (to_bytes ''admin'') \<and> view_password v = Some (to_bytes ''changeit'') \<and>
    view_message v = Some [] \<and> view_size v = word_of_nat (size_of pk)"
  by (rule authenticated_round_trip) (simp_all add: is_named_def is_guid_def)

text \<open>Every accessor of a valid view is defined: a view that passed the constructor's checks never
  reads outside the frame, and the message it hands to the parsers is exactly the frame's tail after
  the header and the credentials.\<close>

theorem valid_view_reads_inside_frame:
  assumes "mk_view (Some m) (word_of_nat n) = Some v" and "view_is_valid v"
    and "n \<le> length m" and "n < 2 ^ 32"
  shows "view_command v = Some (command_of (m ! 4)) \<and> view_flags v = Some (m ! 5) \<and>
    view_correlation_id v = Some (take 16 (drop 6 m)) \<and>
    view_message v = Some (drop (body_offset m) (take n m)) \<and> body_offset m \<le> n \<and>
    (m ! 5 = flags_authenticated \<longrightarrow>
       view_login v = Some (take (login_len m) (drop 23 m)) \<and>
       view_password v = Some (take (password_len m) (drop (24 + login_len m) m)))"
proof -
  have ok: "frame_ok m n"
    using assms mk_view_valid_iff [of n m] by auto
  then have "v = frame_view m n"
    using assms mk_view_ok [of m n] by simp
  with ok assms(4) show ?thesis
    by (simp add: frame_view_command frame_view_flags frame_view_correlation_id frame_view_message
        body_offset_le frame_view_login)
qed

text \<open>An authenticated frame of 24 bytes with empty login and password.\<close>

definition sample_frame :: bytes where
  "sample_frame = [20, 0, 0, 0, 0xF3, 1] @ replicate 16 7 @ [0, 0]"

theorem valid_view_reads_inside_frame_witness:
  "view_command (frame_view sample_frame 24) = Some Authenticated_Command \<and>
   view_message (frame_view sample_frame 24) = Some []"
proof -
  have m: "mk_view (Some sample_frame) (word_of_nat 24) = Some (frame_view sample_frame 24)"
    by (rule mk_view_ok) (simp_all add: frame_ok_def sample_frame_def nth_append)
  have c: "command_of 0xF3 = Authenticated_Command"
    using command_of_code [of Authenticated_Command] by (simp add: is_named_def)
  from valid_view_reads_inside_frame [OF m] show ?thesis
    by (simp add: view_is_valid_def frame_view_def sample_frame_def body_offset_def nth_append c
        flags_authenticated_def)
qed

text \<open>C31: the view constructor itself is not memory safe on frames from the network.  It reads the
  password size before it has checked the length, so for a frame that fills its memory region it
  reads out of bounds exactly when the frame is flagged authenticated and its login runs up to or
  past its end.\<close>

theorem mk_view_out_of_bounds_iff:
  assumes "length m < 2 ^ 64"
  shows "(mk_view (Some m) (word_of_nat (length m)) = None) =
    (22 \<le> length m \<and> m ! 5 = flags_authenticated \<and> (22 = length m \<or> length m \<le> 23 + login_len m))"
  using mk_view_eq [OF assms order_refl] by auto

theorem mk_view_out_of_bounds_iff_witness:
  "(mk_view (Some ([18, 0, 0, 0, 0xF3, 1] @ replicate 16 7)) (word_of_nat 22) = None)"
  using mk_view_out_of_bounds_iff [of "[18, 0, 0, 0, 0xF3, 1] @ replicate 16 7"]
  by (simp add: flags_authenticated_def)

text \<open>A login is written with its length truncated to one byte and no check, so the login read
  back from the frame is the prefix of length modulo 256: a login longer than 255 bytes is never
  transmitted as given.\<close>

theorem login_length_truncated:
  assumes "authenticated_package c flags_authenticated g l p msg = Some pk" and "is_guid g"
    and "to_view pk = Some v" and "view_is_valid v"
    and "24 + length l + length p + length msg < 2 ^ 32"
  shows "view_login v = Some (take (length l mod 256) (to_bytes l))"
proof -
  let ?m = "authenticated_frame c flags_authenticated g l p msg"
  let ?n = "24 + length l + length p + length msg"
  note G = authenticated_frame_fields [OF assms(2), where c = c and f = flags_authenticated and l = l
      and p = p and msg = msg]
  have auth: "and flags_authenticated flags_authenticated \<noteq> 0"
    by (simp add: flags_authenticated_def)
  have "p_length pk + 4 = ?n" "p_package pk = Some ?m"
    using assms(1) authenticated_package_frame [OF auth assms(2)] by auto
  then have mk: "mk_view (Some ?m) (word_of_nat ?n) = Some v"
    using assms(3) by (simp only: to_view_def)
  have n: "?n < 2 ^ 64" "?n \<le> length ?m"
    using assms(2,5) by (simp_all add: length_authenticated_frame)
  then have ok: "frame_ok ?m ?n"
    using mk assms(4) mk_view_valid_iff [OF n] by auto
  then have "v = frame_view ?m ?n"
    using mk mk_view_ok [OF ok n(1)] by simp
  then show ?thesis
    using frame_view_login(1) [OF ok G(2)] G(4,5) by (simp add: min_def mod_le_divisor)
qed

definition long_login :: string where
  "long_login = replicate 257 CHR ''a''"

theorem login_length_truncated_witness:
  "\<exists>pk v. authenticated_package Authenticate_Command flags_authenticated (replicate 16 7) long_login [] [] = Some pk \<and>
     to_view pk = Some v \<and> view_login v = Some (to_bytes ''a'')"
proof -
  let ?m = "authenticated_frame Authenticate_Command flags_authenticated (replicate 16 7) long_login [] []"
  let ?p = "\<lparr>p_package = Some ?m, p_length = 18 + 1 + length long_login + 1 + 0 + 0\<rparr>"
  have g: "is_guid (replicate 16 (7 :: byte))"
    by (simp add: is_guid_def)
  have auth: "and flags_authenticated flags_authenticated \<noteq> 0"
    by (simp add: flags_authenticated_def)
  have p: "authenticated_package Authenticate_Command flags_authenticated (replicate 16 7) long_login [] [] = Some ?p"
    using authenticated_package_frame [OF auth g] by simp
  note G = authenticated_frame_fields [OF g, where c = Authenticate_Command and f = flags_authenticated
      and l = long_login and p = "[]" and msg = "[]"]
  have len: "length ?m = 281" "length long_login = 257"
    using length_authenticated_frame [OF g] by (simp_all add: long_login_def)
  have "?m ! 24 = drop 23 ?m ! 1"
    using len by simp
  also have "\<dots> = of_char CHR ''a''"
    using G(5) by (simp add: nth_append to_bytes_def long_login_def)
  finally have pw: "?m ! 24 = 97"
    by simp
  have ok: "frame_ok ?m 281"
    using G(2,4) pw len by (simp add: frame_ok_def)
  have v: "to_view ?p = Some (frame_view ?m 281)"
    using mk_view_ok [OF ok] len by (simp add: to_view_def)
  have valid: "view_is_valid (frame_view ?m 281)"
    by (simp add: view_is_valid_def frame_view_def)
  have "view_login (frame_view ?m 281) = Some (take (length long_login mod 256) (to_bytes long_login))"
    by (rule login_length_truncated [OF p g v valid]) (simp add: len)
  moreover have "take (length long_login mod 256) (to_bytes long_login) = to_bytes ''a''"
    by (simp add: long_login_def to_bytes_def)
  ultimately show ?thesis
    using p v by auto
qed

text \<open>A constructor called with the wrong authentication flag yields no frame: the package is
  invalid, and its size is still reported as 4 bytes although there is no memory behind it.\<close>

theorem wrong_flag_gives_no_frame:
  "(and f flags_authenticated \<noteq> 0 \<longrightarrow>
      (\<exists>pk. unauthenticated_package c f g msg = Some pk \<and> is_valid pk = Some False \<and>
        data pk = None \<and> size_of pk = 4)) \<and>
   (and f flags_authenticated = 0 \<longrightarrow>
      (\<exists>pk. authenticated_package c f g l p msg = Some pk \<and> is_valid pk = Some False \<and>
        data pk = None \<and> size_of pk = 4))"
  by (simp add: unauthenticated_package_def authenticated_package_def null_package_def is_valid_def
      data_def size_of_def)

theorem wrong_flag_gives_no_frame_witness:
  "(\<exists>pk. unauthenticated_package Ping_Command 1 (replicate 16 7) [3] = Some pk \<and> is_valid pk = Some False \<and>
      data pk = None \<and> size_of pk = 4) \<and>
   (\<exists>pk. authenticated_package Ping_Command 0 (replicate 16 7) ''a'' ''b'' [3] = Some pk \<and> is_valid pk = Some False \<and>
      data pk = None \<and> size_of pk = 4)"
  using wrong_flag_gives_no_frame [of 1 Ping_Command "replicate 16 7" "[3]" "''a''" "''b''"]
    wrong_flag_gives_no_frame [of 0 Ping_Command "replicate 16 7" "[3]" "''a''" "''b''"]
  by (simp add: flags_authenticated_def)

end
