(* ===== verification/Proto_Messages.thy ===== *)
theory Proto_Messages
  imports Es_Prelude
begin

text \<open>
  \<open>proto/messages.proto\<close>: the messages the client exchanges, as the generated accessors show them
  to the client.  A required field is its value (the generated accessor gives the type's default when
  a malformed message lacks it, because the client ignores what \<open>ParseFromArray\<close> returns); an
  optional field, and every field whose \<open>has_\<close> accessor the client consults, is an \<open>option\<close>.

  The generated code itself (\<open>message/messages.pb.h\<close>, \<open>messages.pb.cc\<close>) is not modelled: the functions
  that serialize a request and parse a response are parameters of the operations that use them.

  Every enumeration has one more constructor, for a value outside the enumerators, so that the
  \<open>default\<close> branch of each \<open>switch\<close> is a case of the model.
\<close>

section \<open>Events\<close>

record new_event =
  ne_event_id :: string
  ne_event_type :: string
  ne_data_content_type :: int
  ne_metadata_content_type :: int
  ne_data :: string
  ne_metadata :: "string option"

record event_record =
  er_event_stream_id :: string
  er_event_number :: int
  er_event_id :: string
  er_event_type :: string
  er_data_content_type :: int
  er_metadata_content_type :: int
  er_data :: string
  er_metadata :: "string option"
  er_created :: "int option"
  er_created_epoch :: "int option"

record resolved_indexed_event_msg =
  ri_event :: "event_record option"
  ri_link :: "event_record option"

record resolved_event_msg =
  re_event :: "event_record option"
  re_link :: "event_record option"
  re_commit_position :: int
  re_prepare_position :: int

section \<open>Writing\<close>

record write_events =
  we_event_stream_id :: string
  we_expected_version :: int
  we_events :: "new_event list"
  we_require_master :: bool

datatype operation_result =
  OR_Success | OR_PrepareTimeout | OR_CommitTimeout | OR_ForwardTimeout | OR_WrongExpectedVersion
| OR_StreamDeleted | OR_InvalidTransaction | OR_AccessDenied | OR_Other int

record write_events_completed =
  wec_result :: operation_result
  wec_first_event_number :: int
  wec_last_event_number :: int
  wec_prepare_position :: "int option"
  wec_commit_position :: "int option"

record delete_stream_msg =
  ds_event_stream_id :: string
  ds_expected_version :: int
  ds_require_master :: bool
  ds_hard_delete :: bool

record delete_stream_completed =
  dsc_result :: operation_result
  dsc_prepare_position :: "int option"
  dsc_commit_position :: "int option"

record transaction_start =
  ts_event_stream_id :: string
  ts_expected_version :: int
  ts_require_master :: bool

record transaction_start_completed =
  tsc_transaction_id :: int
  tsc_result :: operation_result

record transaction_write =
  tw_transaction_id :: int
  tw_events :: "new_event list"
  tw_require_master :: bool

record transaction_write_completed =
  twc_transaction_id :: int
  twc_result :: operation_result

record transaction_commit =
  tc_transaction_id :: int
  tc_require_master :: bool

record transaction_commit_completed =
  tcc_transaction_id :: int
  tcc_result :: operation_result
  tcc_first_event_number :: int
  tcc_last_event_number :: int
  tcc_prepare_position :: "int option"
  tcc_commit_position :: "int option"

section \<open>Reading\<close>

record read_event_msg =
  rev_event_stream_id :: string
  rev_event_number :: int
  rev_resolve_link_tos :: bool
  rev_require_master :: bool

datatype read_event_result =
  RE_Success | RE_NotFound | RE_NoStream | RE_StreamDeleted | RE_Error | RE_AccessDenied | RE_Other int

record read_event_completed =
  rec_result :: read_event_result
  rec_event :: resolved_indexed_event_msg
  rec_error :: "string option"

record read_stream_events_msg =
  rse_event_stream_id :: string
  rse_from_event_number :: int
  rse_max_count :: int
  rse_resolve_link_tos :: bool
  rse_require_master :: bool

datatype read_stream_result =
  RS_Success | RS_NoStream | RS_StreamDeleted | RS_NotModified | RS_Error | RS_AccessDenied | RS_Other int

record read_stream_events_completed =
  rsc_events :: "resolved_indexed_event_msg list"
  rsc_result :: read_stream_result
  rsc_next_event_number :: int
  rsc_last_event_number :: int
  rsc_is_end_of_stream :: bool
  rsc_last_commit_position :: int
  rsc_error :: "string option"

record read_all_events_msg =
  rae_commit_position :: int
  rae_prepare_position :: int
  rae_max_count :: int
  rae_resolve_link_tos :: bool
  rae_require_master :: bool

datatype read_all_result =
  RA_Success | RA_NotModified | RA_Error | RA_AccessDenied | RA_Other int

record read_all_events_completed =
  rac_commit_position :: int
  rac_prepare_position :: int
  rac_events :: "resolved_event_msg list"
  rac_next_commit_position :: int
  rac_next_prepare_position :: int
  rac_result :: read_all_result
  rac_error :: "string option"

section \<open>Persistent subscriptions\<close>

text \<open>\<open>CreatePersistentSubscription\<close> and \<open>UpdatePersistentSubscription\<close> have the same fields.\<close>

record persistent_subscription_msg =
  ps_subscription_group_name :: string
  ps_event_stream_id :: string
  ps_resolve_link_tos :: bool
  ps_start_from :: int
  ps_message_timeout_milliseconds :: int
  ps_record_statistics :: bool
  ps_live_buffer_size :: int
  ps_read_batch_size :: int
  ps_buffer_size :: int
  ps_max_retry_count :: int
  ps_prefer_round_robin :: bool
  ps_checkpoint_after_time :: int
  ps_checkpoint_max_count :: int
  ps_checkpoint_min_count :: int
  ps_subscriber_max_count :: int
  ps_named_consumer_strategy :: "string option"

record delete_persistent_subscription_msg =
  dps_subscription_group_name :: string
  dps_event_stream_id :: string

datatype create_persistent_result = CP_Success | CP_AlreadyExists | CP_Fail | CP_AccessDenied | CP_Other int

datatype update_persistent_result = UP_Success | UP_DoesNotExist | UP_Fail | UP_AccessDenied | UP_Other int

datatype delete_persistent_result = DP_Success | DP_DoesNotExist | DP_Fail | DP_AccessDenied | DP_Other int

record connect_to_persistent_subscription =
  cps_subscription_id :: string
  cps_event_stream_id :: string
  cps_allowed_in_flight_messages :: int

record persistent_subscription_ack_events =
  pa_subscription_id :: string
  pa_processed_event_ids :: "string list"

datatype nak_action = NA_Unknown | NA_Park | NA_Retry | NA_Skip | NA_Stop

record persistent_subscription_nak_events =
  pn_subscription_id :: string
  pn_processed_event_ids :: "string list"
  pn_message :: "string option"
  pn_action :: nak_action

record persistent_subscription_confirmation =
  pc_last_commit_position :: int
  pc_subscription_id :: string
  pc_last_event_number :: "int option"

record persistent_subscription_stream_event_appeared =
  pse_event :: resolved_indexed_event_msg
  pse_retryCount :: "int option"

section \<open>Subscriptions\<close>

record subscribe_to_stream =
  ss_event_stream_id :: string
  ss_resolve_link_tos :: bool

record subscription_confirmation =
  sc_last_commit_position :: int
  sc_last_event_number :: "int option"

record stream_event_appeared =
  sea_event :: resolved_event_msg

datatype subscription_drop_reason =
  SD_Unsubscribed | SD_AccessDenied | SD_NotFound | SD_PersistentSubscriptionDeleted
| SD_SubscriberMaxCountReached | SD_Other int

record subscription_dropped =
  sd_reason :: subscription_drop_reason

datatype not_handled_reason = NH_NotReady | NH_TooBusy | NH_NotMaster | NH_Other int

record not_handled =
  nh_reason :: not_handled_reason
  nh_additional_info :: "bytes option"

record master_info =
  nm_external_tcp_address :: string
  nm_external_tcp_port :: int
  nm_external_http_address :: string
  nm_external_http_port :: int
  nm_external_secure_tcp_address :: "string option"
  nm_external_secure_tcp_port :: "int option"

section \<open>Scavenging\<close>

type_synonym scavenge_database = unit

datatype scavenge_result = SR_Started | SR_InProgress | SR_Unauthorized | SR_Other int

record scavenge_database_response =
  sr_result :: scavenge_result
  sr_scavenge_id :: "string option"

section \<open>Identification\<close>

record identify_client =
  ic_version :: int
  ic_connection_name :: "string option"

type_synonym client_identified = unit

end
