(* ===== verification/Es_Values.thy ===== *)
theory Es_Values
  imports Tcp_Package Proto_Messages
begin

text \<open>
  The values the client hands to its user: \<open>position.hpp\<close>, \<open>event_data.hpp\<close>, \<open>recorded_event.hpp\<close>,
  \<open>resolved_event.hpp\<close>, \<open>stream_events_slice.hpp\<close>, \<open>all_events_slice.hpp\<close>, \<open>event_read_result.hpp\<close>,
  \<open>stream_metadata_result_raw.hpp\<close>, \<open>write_result.hpp\<close>, \<open>delete_stream_result.hpp\<close>,
  \<open>connection_result.hpp\<close>, \<open>read_direction.hpp\<close>, \<open>expected_version.hpp\<close>, and the names under
  \<open>include/system/\<close>.

  A constructor that takes a message by non-const reference and moves strings out of it returns the
  value together with the message as it is left.  \<open>None\<close> is undefined behaviour; an exception thrown
  by the standard library or by Boost is \<open>Inl\<close> of its name.
\<close>

datatype exn = Bad_Optional_Access | Out_Of_Range | Invalid_Argument | Length_Error | System_Error

section \<open>position\<close>

datatype position = Position (commit_position: int) (prepare_position: int)

definition position_default :: position where
  "position_default = Position (- 1) (- 1)"

definition position_start :: position where
  "position_start = Position 0 0"

definition position_end :: position where
  "position_end = Position (- 1) (- 1)"

definition position_lt :: "position \<Rightarrow> position \<Rightarrow> bool" where
  "position_lt p other \<longleftrightarrow> commit_position p < commit_position other \<or>
     (commit_position p = commit_position other \<and> prepare_position p < prepare_position other)"

definition position_gt :: "position \<Rightarrow> position \<Rightarrow> bool" where
  "position_gt p other \<longleftrightarrow> commit_position p > commit_position other \<or>
     (commit_position p = commit_position other \<and> prepare_position p > prepare_position other)"

definition position_eq :: "position \<Rightarrow> position \<Rightarrow> bool" where
  "position_eq p other \<longleftrightarrow> commit_position p = commit_position other \<and>
     prepare_position p = prepare_position other"

definition position_ne :: "position \<Rightarrow> position \<Rightarrow> bool" where
  "position_ne p other \<longleftrightarrow> \<not> position_eq p other"

definition position_ge :: "position \<Rightarrow> position \<Rightarrow> bool" where
  "position_ge p other \<longleftrightarrow> position_eq p other \<or> position_gt p other"

definition position_le :: "position \<Rightarrow> position \<Rightarrow> bool" where
  "position_le p other \<longleftrightarrow> position_eq p other \<or> position_lt p other"

lemmas position_ops = position_lt_def position_gt_def position_eq_def position_ne_def
  position_ge_def position_le_def

lemma position_eq_iff: "position_eq p q \<longleftrightarrow> p = q"
  by (cases p; cases q) (simp add: position_eq_def)

text \<open>The code's comparisons make positions a linear order of the library.\<close>

instantiation position :: linorder
begin

definition less_eq_position :: "position \<Rightarrow> position \<Rightarrow> bool" where
  "less_eq_position p q = position_le p q"

definition less_position :: "position \<Rightarrow> position \<Rightarrow> bool" where
  "less_position p q = position_lt p q"

instance
  by standard
     (auto simp: less_eq_position_def less_position_def position_le_def position_lt_def position_eq_def
       intro: position.expand)

end

section \<open>Results\<close>

record write_result =
  next_expected_version :: int
  wr_log_position :: position

record delete_stream_result =
  ds_log_position :: position

record connection_result =
  connection_id :: guid

datatype read_direction = Forward | Backward

datatype expected_version = Any | No_Stream | Stream_Exists

fun expected_version_value :: "expected_version \<Rightarrow> int" where
  "expected_version_value Any = - 2"
| "expected_version_value No_Stream = - 1"
| "expected_version_value Stream_Exists = - 4"

record event_data =
  ed_event_id :: guid
  ed_type :: string
  ed_is_json :: bool
  ed_content :: string
  ed_metadata :: "string option"

record stream_metadata_result_raw =
  md_stream :: string
  md_is_stream_deleted :: bool
  md_meta_stream_version :: int
  md_stream_metadata :: string

section \<open>recorded_event\<close>

record recorded_event =
  event_stream_id :: string
  event_id :: guid
  event_number :: int
  event_type :: string
  content :: string
  metadata :: string
  is_json :: bool
  created :: int
  created_epoch :: int

text \<open>\<open>std::string::data()\<close> is followed by a terminator, which may be read.\<close>

definition string_memory :: "string \<Rightarrow> bytes" where
  "string_memory s = to_bytes s @ [0]"

definition mk_recorded_event :: "event_record \<Rightarrow> (recorded_event \<times> event_record) option" where
  "mk_recorded_event r = do {
     g \<leftarrow> guid_of (string_memory (er_event_id r));
     Some (\<lparr>event_stream_id = er_event_stream_id r, event_id = g, event_number = er_event_number r,
             event_type = er_event_type r, content = er_data r,
             metadata = (case er_metadata r of None \<Rightarrow> [] | Some m \<Rightarrow> m),
             is_json = (er_data_content_type r = 1),
             created = (case er_created r of None \<Rightarrow> 0 | Some c \<Rightarrow> c),
             created_epoch = (case er_created_epoch r of None \<Rightarrow> 0 | Some c \<Rightarrow> c)\<rparr>,
           r\<lparr>er_event_stream_id := [], er_event_type := [], er_data := [], er_metadata := Some []\<rparr>) }"

section \<open>resolved_event\<close>

record resolved_event =
  event :: "recorded_event option"
  link :: "recorded_event option"
  original_position :: "position option"

definition emplace_event :: "event_record option \<Rightarrow> (recorded_event option \<times> event_record option) option" where
  "emplace_event m = (case m of None \<Rightarrow> Some (None, None)
     | Some r \<Rightarrow> do { (e, r') \<leftarrow> mk_recorded_event r; Some (Some e, Some r') })"

definition mk_resolved_event :: "resolved_event_msg \<Rightarrow> (resolved_event \<times> resolved_event_msg) option" where
  "mk_resolved_event m = do {
     (e, e') \<leftarrow> emplace_event (re_event m);
     (l, l') \<leftarrow> emplace_event (re_link m);
     Some (\<lparr>event = e, link = l,
             original_position = Some (Position (re_commit_position m) (re_prepare_position m))\<rparr>,
           m\<lparr>re_event := e', re_link := l'\<rparr>) }"

definition mk_resolved_indexed_event ::
    "resolved_indexed_event_msg \<Rightarrow> (resolved_event \<times> resolved_indexed_event_msg) option" where
  "mk_resolved_indexed_event m = do {
     (e, e') \<leftarrow> emplace_event (ri_event m);
     (l, l') \<leftarrow> emplace_event (ri_link m);
     Some (\<lparr>event = e, link = l, original_position = None\<rparr>, m\<lparr>ri_event := e', ri_link := l'\<rparr>) }"

definition original_event :: "resolved_event \<Rightarrow> recorded_event option" where
  "original_event e = (if link e \<noteq> None then link e else event e)"

definition is_resolved :: "resolved_event \<Rightarrow> bool" where
  "is_resolved e \<longleftrightarrow> link e \<noteq> None \<and> event e \<noteq> None"

definition original_stream_id :: "resolved_event \<Rightarrow> exn + string" where
  "original_stream_id e = (case original_event e of None \<Rightarrow> Inl Bad_Optional_Access
     | Some r \<Rightarrow> Inr (event_stream_id r))"

definition original_event_number :: "resolved_event \<Rightarrow> exn + int" where
  "original_event_number e = (case original_event e of None \<Rightarrow> Inl Bad_Optional_Access
     | Some r \<Rightarrow> Inr (event_number r))"

section \<open>Slices and read results\<close>

text \<open>\<open>std::transform\<close> into a \<open>back_inserter\<close>: the messages converted from left to right.\<close>

fun transform :: "('a \<Rightarrow> ('b \<times> 'a) option) \<Rightarrow> 'a list \<Rightarrow> 'b list option" where
  "transform f [] = Some []"
| "transform f (x # xs) = do { (y, _) \<leftarrow> f x; ys \<leftarrow> transform f xs; Some (y # ys) }"

record stream_events_slice =
  ses_from_event_number :: int
  ses_next_event_number :: int
  ses_last_event_number :: int
  ses_stream :: string
  ses_read_direction :: read_direction
  ses_is_end_of_stream :: bool
  ses_events :: "resolved_event list"

definition mk_stream_events_slice ::
    "string \<Rightarrow> int \<Rightarrow> read_direction \<Rightarrow> read_stream_events_completed \<Rightarrow> stream_events_slice option" where
  "mk_stream_events_slice stream from_event_number direction response = do {
     es \<leftarrow> transform mk_resolved_indexed_event (rsc_events response);
     Some \<lparr>ses_from_event_number = from_event_number,
           ses_next_event_number = rsc_next_event_number response,
           ses_last_event_number = rsc_last_event_number response,
           ses_stream = stream, ses_read_direction = direction,
           ses_is_end_of_stream = rsc_is_end_of_stream response, ses_events = es\<rparr> }"

record all_events_slice =
  aes_from_position :: position
  aes_next_position :: position
  aes_direction :: read_direction
  aes_is_end_of_stream :: bool
  aes_events :: "resolved_event list"

definition mk_all_events_slice ::
    "read_direction \<Rightarrow> read_all_events_completed \<Rightarrow> all_events_slice option" where
  "mk_all_events_slice direction response = do {
     es \<leftarrow> transform mk_resolved_event (rac_events response);
     Some \<lparr>aes_from_position = Position (rac_commit_position response) (rac_prepare_position response),
           aes_next_position = Position (rac_next_commit_position response) (rac_next_prepare_position response),
           aes_direction = direction,
           aes_is_end_of_stream = (length (rac_events response) = 0), aes_events = es\<rparr> }"

datatype event_read_status = Read_Success | Read_Not_Found | Read_No_Stream | Read_Stream_Deleted

record event_read_result =
  err_status :: event_read_status
  err_stream :: string
  err_event_number :: int
  err_event :: "resolved_event option"

definition mk_event_read_result ::
    "event_read_status \<Rightarrow> string \<Rightarrow> int \<Rightarrow> resolved_indexed_event_msg \<Rightarrow> event_read_result option" where
  "mk_event_read_result status stream number m =
    (if status = Read_Success
     then do { (e, _) \<leftarrow> mk_resolved_indexed_event m;
               Some \<lparr>err_status = status, err_stream = stream, err_event_number = number, err_event = Some e\<rparr> }
     else Some \<lparr>err_status = status, err_stream = stream, err_event_number = number, err_event = None\<rparr>)"

section \<open>System names\<close>

definition streams_stream :: string where "streams_stream = ''$streams''"
definition settings_stream :: string where "settings_stream = ''$settings''"
definition stats_stream_prefix :: string where "stats_stream_prefix = ''$stats''"

definition meta_stream_of :: "string \<Rightarrow> string" where
  "meta_stream_of stream = ''$$'' @ stream"

text \<open>\<open>std::string_view::find\<close>: the first index at which the needle occurs.\<close>

fun find_sub :: "string \<Rightarrow> string \<Rightarrow> nat option" where
  "find_sub needle [] = (if needle = [] then Some 0 else None)"
| "find_sub needle (c # cs) = (if take (length needle) (c # cs) = needle then Some 0
     else map_option Suc (find_sub needle cs))"

definition is_meta_stream :: "string \<Rightarrow> bool" where
  "is_meta_stream stream \<longleftrightarrow> find_sub ''$$'' stream = Some 0"

text \<open>\<open>substr(0, 2)\<close>.\<close>

definition original_stream_of :: "string \<Rightarrow> string" where
  "original_stream_of meta_stream = take 2 meta_stream"

definition event_type_stream_metadata :: string where
  "event_type_stream_metadata = ''$metadata''"

definition round_robin :: string where "round_robin = ''RoundRobin''"
definition dispatch_to_single :: string where "dispatch_to_single = ''DispatchToSingle''"
definition pinned :: string where "pinned = ''Pinned''"

section \<open>Lemmas\<close>

text \<open>An event id the client can read: at least 15 bytes, for the terminator is the sixteenth.\<close>

definition readable_id :: "event_record \<Rightarrow> bool" where
  "readable_id r \<longleftrightarrow> 15 \<le> length (er_event_id r)"

lemma mk_recorded_event_Some: "mk_recorded_event r \<noteq> None \<longleftrightarrow> readable_id r"
  by (auto simp: mk_recorded_event_def guid_of_def rd_range_def string_memory_def readable_id_def)

lemma mk_recorded_event_fields:
  assumes "mk_recorded_event r = Some (e, r')"
  shows "event_stream_id e = er_event_stream_id r" "event_number e = er_event_number r"
    "content e = er_data r" "event_type e = er_event_type r" "is_guid (event_id e)"
    "er_data r' = []" "er_event_number r' = er_event_number r"
  using assms by (auto simp: mk_recorded_event_def guid_of_def rd_range_def is_guid_def
      split: if_splits Option.bind_splits)

lemma emplace_event_Some:
  "emplace_event m \<noteq> None \<longleftrightarrow> (\<forall>r. m = Some r \<longrightarrow> readable_id r)"
  using mk_recorded_event_Some
  by (cases m) (force simp: emplace_event_def split: Option.bind_splits)+

lemma transform_Some:
  "transform f xs = Some ys \<longleftrightarrow> list_all2 (\<lambda>x y. \<exists>x'. f x = Some (y, x')) xs ys"
proof (induction xs arbitrary: ys)
  case (Cons x xs)
  show ?case
  proof (cases "transform f xs")
    case None
    then have "\<not> list_all2 (\<lambda>x y. \<exists>x'. f x = Some (y, x')) xs zs" for zs
      using Cons.IH [of zs] by simp
    with None show ?thesis
      by (auto simp: list_all2_Cons1 split: Option.bind_splits)
  next
    case (Some v)
    then have "list_all2 (\<lambda>x y. \<exists>x'. f x = Some (y, x')) xs zs \<longleftrightarrow> v = zs" for zs
      using Cons.IH [of zs] by simp
    with Some show ?thesis
      by (cases "f x") (auto simp: list_all2_Cons1)
  qed
qed auto

lemma transform_length: "transform f xs = Some ys \<Longrightarrow> length ys = length xs"
  by (auto simp: transform_Some dest: list_all2_lengthD)

lemma find_sub_0: "needle \<noteq> [] \<Longrightarrow> find_sub needle s = Some 0 \<longleftrightarrow> take (length needle) s = needle"
  by (cases s) auto

lemma is_meta_stream_iff: "is_meta_stream s \<longleftrightarrow> (\<exists>t. s = meta_stream_of t)"
proof
  assume "is_meta_stream s"
  then have "take 2 s = ''$$''"
    by (simp add: is_meta_stream_def find_sub_0 numeral_2_eq_2)
  then show "\<exists>t. s = meta_stream_of t"
    unfolding meta_stream_of_def by (metis append_take_drop_id)
next
  assume "\<exists>t. s = meta_stream_of t"
  then show "is_meta_stream s"
    by (auto simp: is_meta_stream_def meta_stream_of_def find_sub_0)
qed

lemma transform_defined: "transform f xs \<noteq> None \<longleftrightarrow> (\<forall>x \<in> set xs. f x \<noteq> None)"
proof (induction xs)
  case (Cons x xs)
  then show ?case
    by (cases "f x"; cases "transform f xs") auto
qed simp

lemma mk_resolved_indexed_event_Some:
  "mk_resolved_indexed_event m \<noteq> None \<longleftrightarrow>
     (\<forall>r. ri_event m = Some r \<or> ri_link m = Some r \<longrightarrow> readable_id r)"
proof -
  have "mk_resolved_indexed_event m \<noteq> None \<longleftrightarrow> emplace_event (ri_event m) \<noteq> None \<and> emplace_event (ri_link m) \<noteq> None"
    by (auto simp: mk_resolved_indexed_event_def split: Option.bind_splits)
  then show ?thesis
    unfolding emplace_event_Some by blast
qed

text \<open>A resolved event built from a message shows the fields of its record.\<close>

definition shows_record :: "recorded_event \<Rightarrow> event_record \<Rightarrow> bool" where
  "shows_record e r \<longleftrightarrow> event_number e = er_event_number r \<and> content e = er_data r \<and>
     event_stream_id e = er_event_stream_id r \<and> event_type e = er_event_type r"

lemma emplace_event_shows:
  "emplace_event m = Some (e, m') \<Longrightarrow> rel_option shows_record e m"
  by (cases m)
     (auto simp: emplace_event_def shows_record_def mk_recorded_event_fields split: Option.bind_splits)

lemma rel_option_None_iff: "rel_option R x y \<Longrightarrow> (x = None) = (y = None)"
  by (cases x; cases y) auto

lemma resolved_indexed_shows:
  assumes "mk_resolved_indexed_event m = Some (e, m')"
  shows "rel_option shows_record (original_event e)
    (case ri_link m of None \<Rightarrow> ri_event m | l \<Rightarrow> l)"
proof -
  obtain ev ev' l l' where *: "emplace_event (ri_event m) = Some (ev, ev')"
      "emplace_event (ri_link m) = Some (l, l')" "event e = ev" "link e = l"
    using assms by (auto simp: mk_resolved_indexed_event_def split: Option.bind_splits)
  then show ?thesis
    using emplace_event_shows [OF *(1)] emplace_event_shows [OF *(2)]
    by (cases "ri_link m") (auto simp: original_event_def dest: rel_option_None_iff)
qed

lemma slice_defined:
  "mk_stream_events_slice s n d response \<noteq> None \<longleftrightarrow>
     (\<forall>m \<in> set (rsc_events response). \<forall>r. ri_event m = Some r \<or> ri_link m = Some r \<longrightarrow> readable_id r)"
proof -
  have "mk_stream_events_slice s n d response \<noteq> None \<longleftrightarrow>
      transform mk_resolved_indexed_event (rsc_events response) \<noteq> None"
    by (auto simp: mk_stream_events_slice_def split: Option.bind_splits)
  then show ?thesis
    unfolding transform_defined mk_resolved_indexed_event_Some .
qed

lemma slice_events:
  assumes "mk_stream_events_slice s n d response = Some sl"
  shows "list_all2 (\<lambda>e m. rel_option shows_record (original_event e)
      (case ri_link m of None \<Rightarrow> ri_event m | l \<Rightarrow> l)) (ses_events sl) (rsc_events response)"
proof -
  have "transform mk_resolved_indexed_event (rsc_events response) = Some (ses_events sl)"
    using assms by (auto simp: mk_stream_events_slice_def split: Option.bind_splits)
  then have "list_all2 (\<lambda>m e. \<exists>m'. mk_resolved_indexed_event m = Some (e, m'))
      (rsc_events response) (ses_events sl)"
    by (simp add: transform_Some)
  then show ?thesis
    by (auto simp: list_all2_conv_all_nth dest!: resolved_indexed_shows)
qed

lemma slice_fields:
  "mk_stream_events_slice s n d response = Some sl \<Longrightarrow>
     ses_stream sl = s \<and> ses_from_event_number sl = n \<and>
     ses_next_event_number sl = rsc_next_event_number response \<and>
     ses_last_event_number sl = rsc_last_event_number response \<and>
     ses_is_end_of_stream sl = rsc_is_end_of_stream response"
  by (auto simp: mk_stream_events_slice_def split: Option.bind_splits)

section \<open>Properties\<close>

text \<open>Positions in the log are ordered lexicographically, commit position first, and the six
  comparison operators agree with each other: exactly one of \<open><\<close>, \<open>==\<close>, \<open>>\<close> holds, \<open><\<close> is
  transitive, \<open>!=\<close>, \<open><=\<close> and \<open>>=\<close> are the derived relations, \<open>position::start()\<close> precedes every other
  position with non-negative components, and the default position is \<open>position::end()\<close>, below it.\<close>

theorem position_order:
  "(position_lt p q \<longleftrightarrow> ((commit_position p, prepare_position p), (commit_position q, prepare_position q))
      \<in> {(c, d). c < d} <*lex*> {(c, d). c < d}) \<and>
   (position_gt p q \<longleftrightarrow> position_lt q p) \<and> (position_eq p q \<longleftrightarrow> p = q) \<and>
   (position_ne p q \<longleftrightarrow> p \<noteq> q) \<and> (position_ge p q \<longleftrightarrow> \<not> position_lt p q) \<and>
   (position_le p q \<longleftrightarrow> \<not> position_gt p q) \<and>
   (position_lt p q \<and> position_lt q r \<longrightarrow> position_lt p r) \<and>
   (0 \<le> commit_position p \<and> 0 \<le> prepare_position p \<longrightarrow> position_le position_start p) \<and>
   position_default = position_end \<and> position_lt position_end position_start"
proof -
  have eq: "position_eq p q \<longleftrightarrow> p = q"
    by (rule position_eq_iff)
  have ge: "position_ge p q \<longleftrightarrow> \<not> position_lt p q" and le: "position_le p q \<longleftrightarrow> \<not> position_gt p q"
    by (auto simp: position_ops)
  show ?thesis
    unfolding eq ge le
    by (auto simp: position_lt_def position_gt_def position_ne_def position_eq_iff position_le_def
        position_start_def position_default_def position_end_def intro: position.expand)
qed

theorem position_order_witness:
  "position_lt (Position 1 2) (Position 3 0) \<and> position_le position_start (Position 5 0)"
  using position_order [of "Position 1 2" "Position 2 5" "Position 3 0"]
    position_order [of "Position 5 0"] by (simp add: position_lt_def)

text \<open>What a slice of a stream holds.  Constructing it reads the event ids without undefined
  behaviour if and only if every event and every link has an id of at least 15 bytes; then it has one
  resolved event per message, in the order of the response, each with the link of its message when
  there is one and else the event (stream, number, type and content), and the numbers and the flag
  of the response.\<close>

theorem stream_slice_of_response:
  "(mk_stream_events_slice s n d response \<noteq> None \<longleftrightarrow>
     (\<forall>m \<in> set (rsc_events response). \<forall>r. ri_event m = Some r \<or> ri_link m = Some r \<longrightarrow> readable_id r)) \<and>
   (\<forall>sl. mk_stream_events_slice s n d response = Some sl \<longrightarrow>
     list_all2 (\<lambda>e m. rel_option shows_record (original_event e)
        (case ri_link m of None \<Rightarrow> ri_event m | l \<Rightarrow> l)) (ses_events sl) (rsc_events response) \<and>
     ses_stream sl = s \<and> ses_from_event_number sl = n \<and>
     ses_next_event_number sl = rsc_next_event_number response \<and>
     ses_last_event_number sl = rsc_last_event_number response \<and>
     ses_is_end_of_stream sl = rsc_is_end_of_stream response)"
  using slice_defined slice_events slice_fields by blast

theorem stream_slice_of_response_witness:
  "mk_stream_events_slice ''s'' 4 Forward \<lparr>rsc_events = [\<lparr>ri_event = Some \<lparr>er_event_stream_id = ''s'',
      er_event_number = 4, er_event_id = replicate 16 (CHR ''a''), er_event_type = ''t'',
      er_data_content_type = 1, er_metadata_content_type = 0, er_data = ''x'', er_metadata = None,
      er_created = None, er_created_epoch = None\<rparr>, ri_link = None\<rparr>], rsc_result = RS_Success,
      rsc_next_event_number = 5, rsc_last_event_number = 4, rsc_is_end_of_stream = True,
      rsc_last_commit_position = 0, rsc_error = None\<rparr> \<noteq> None"
  by (subst conjunct1 [OF stream_slice_of_response]) (simp add: readable_id_def)

text \<open>Metadata streams.  A stream is recognised as a metadata stream exactly when it is the
  metadata stream of some stream, but \<open>original_stream_of\<close> does not invert \<open>meta_stream_of\<close>: it keeps
  the prefix of the name instead of dropping it, so that it answers \<open>$$\<close> for every metadata stream.\<close>

theorem meta_stream_names:
  "(is_meta_stream s \<longleftrightarrow> (\<exists>t. s = meta_stream_of t)) \<and>
   original_stream_of (meta_stream_of t) = ''$$''"
  by (simp add: is_meta_stream_iff original_stream_of_def meta_stream_of_def)

end
