(* ===== verification/Es_Settings.thy ===== *)
theory Es_Settings
  imports Es_Values
begin

text \<open>
  The options of the client and their builders: \<open>user/user_credentials.hpp\<close>, \<open>tcp/gossip_seed.hpp\<close>,
  \<open>connection/constants.hpp\<close>, \<open>connection/node_preference.hpp\<close>, \<open>connection_settings.hpp\<close>,
  \<open>catchup_subscription_settings.hpp\<close>, \<open>persistent_subscription_settings.hpp\<close>, \<open>cluster_settings.hpp\<close>
  and \<open>duration_conversions.hpp\<close>.

  A data member without an initializer holds an indeterminate value until the builder sets it: it is
  an \<open>option\<close> here, \<open>None\<close> while indeterminate.  A duration is its count, in the unit of the member's
  type.  \<open>std::uint32_t\<close> is \<open>uint\<close>; \<open>int\<close> and \<open>std::int32_t\<close> members are only stored and compared and are
  \<open>int\<close>.
\<close>

section \<open>Credentials, seeds, preference\<close>

record user_credentials =
  username :: string
  password :: string

definition credentials_default :: user_credentials where
  "credentials_default = \<lparr>username = [], password = []\<rparr>"

definition mk_credentials :: "string \<Rightarrow> string \<Rightarrow> user_credentials" where
  "mk_credentials u p = \<lparr>username = u, password = p\<rparr>"

definition credentials_eq :: "user_credentials \<Rightarrow> user_credentials \<Rightarrow> bool" where
  "credentials_eq c rhs \<longleftrightarrow> username c = username rhs \<and> password c = password rhs"

definition credentials_null :: "user_credentials \<Rightarrow> bool" where
  "credentials_null c \<longleftrightarrow> username c = [] \<and> password c = []"

definition set_username :: "string \<Rightarrow> user_credentials \<Rightarrow> user_credentials" where
  "set_username u c = c\<lparr>username := u\<rparr>"

definition set_password :: "string \<Rightarrow> user_credentials \<Rightarrow> user_credentials" where
  "set_password p c = c\<lparr>password := p\<rparr>"

text \<open>An endpoint is an address and a port.\<close>

type_synonym endpoint = "string \<times> int"

record gossip_seed =
  gs_endpoint :: endpoint
  gs_host_header :: string

definition seed_of_endpoint :: "endpoint \<Rightarrow> gossip_seed" where
  "seed_of_endpoint e = \<lparr>gs_endpoint = e, gs_host_header = []\<rparr>"

datatype node_preference = Master | Slave | Random

text \<open>\<open>duration_cast\<close> from nanoseconds to milliseconds truncates towards zero.\<close>

definition milliseconds_of_ns :: "int \<Rightarrow> int" where
  "milliseconds_of_ns n = (if 0 \<le> n then n div 1000000 else - ((- n) div 1000000))"

section \<open>Constants\<close>

definition kDefaultMaxQueueSize :: uint where "kDefaultMaxQueueSize = 5000"
definition kDefaultMaxConcurrentItems :: uint where "kDefaultMaxConcurrentItems = 5000"
definition kDefaultMaxOperationRetries :: uint where "kDefaultMaxOperationRetries = 10"
definition kDefaultMaxReconnections :: uint where "kDefaultMaxReconnections = 10"
definition kDefaultRequireMaster :: bool where "kDefaultRequireMaster = True"
definition kDefaultReconnectionDelay :: int where "kDefaultReconnectionDelay = 100"
definition kDefaultQueueTimeout :: int where "kDefaultQueueTimeout = 0"
definition kDefaultOperationTimeout :: int where "kDefaultOperationTimeout = 7"
definition kDefaultOperationTimeoutCheckPeriod :: int where "kDefaultOperationTimeoutCheckPeriod = 1"
definition kDefaultMaxClusterDiscoverAttempts :: uint where "kDefaultMaxClusterDiscoverAttempts = 10"
definition kDefaultClusterManagerExternalHttpPort :: uint where "kDefaultClusterManagerExternalHttpPort = 30778"
definition kDefaultHeartbeatInterval :: int where "kDefaultHeartbeatInterval = 750"
definition kDefaultHeartbeatTimeout :: int where "kDefaultHeartbeatTimeout = 1500"
definition kDefaultClientConnectionTimeout :: int where "kDefaultClientConnectionTimeout = 1000"
definition kDefaultGossipTimeout :: int where "kDefaultGossipTimeout = 1"

section \<open>connection_settings\<close>

record connection_settings =
  cs_verbose :: "bool option"
  cs_max_queue_size :: uint
  cs_max_concurrent_items :: uint
  cs_max_retries :: uint
  cs_max_reconnections :: uint
  cs_require_master :: bool
  cs_reconnection_delay :: int
  cs_queue_timeout :: int
  cs_operation_timeout :: int
  cs_operation_timeout_check_period :: int
  cs_heartbeat_interval :: int
  cs_heartbeat_timeout :: int
  cs_client_connection_timeout :: int
  cs_max_discover_attempts :: uint
  cs_gossip_external_http_port :: uint
  cs_gossip_timeout :: int
  cs_node_preference :: node_preference
  cs_default_user_credentials :: user_credentials
  cs_use_ssl :: "bool option"
  cs_target_host :: string
  cs_validate_server :: "bool option"
  cs_fail_on_no_server_response :: "bool option"
  cs_cluster_dns :: string
  cs_gossip_seeds :: "gossip_seed list"

text \<open>\<open>connection_settings()\<close>, which is what a new builder and \<open>connection_settings::null()\<close> hold.\<close>

definition connection_settings_default :: connection_settings where
  "connection_settings_default =
    \<lparr>cs_verbose = None, cs_max_queue_size = kDefaultMaxQueueSize,
     cs_max_concurrent_items = kDefaultMaxConcurrentItems, cs_max_retries = kDefaultMaxOperationRetries,
     cs_max_reconnections = kDefaultMaxReconnections, cs_require_master = kDefaultRequireMaster,
     cs_reconnection_delay = kDefaultReconnectionDelay, cs_queue_timeout = kDefaultQueueTimeout,
     cs_operation_timeout = kDefaultOperationTimeout,
     cs_operation_timeout_check_period = kDefaultOperationTimeoutCheckPeriod,
     cs_heartbeat_interval = kDefaultHeartbeatInterval, cs_heartbeat_timeout = kDefaultHeartbeatTimeout,
     cs_client_connection_timeout = kDefaultClientConnectionTimeout,
     cs_max_discover_attempts = kDefaultMaxClusterDiscoverAttempts,
     cs_gossip_external_http_port = kDefaultClusterManagerExternalHttpPort,
     cs_gossip_timeout = kDefaultGossipTimeout, cs_node_preference = Master,
     cs_default_user_credentials = credentials_default, cs_use_ssl = None, cs_target_host = [],
     cs_validate_server = None, cs_fail_on_no_server_response = None, cs_cluster_dns = [],
     cs_gossip_seeds = []\<rparr>"

text \<open>The builder's methods; the state of the builder is the settings it builds.\<close>

definition with_max_queue_size :: "uint \<Rightarrow> connection_settings \<Rightarrow> connection_settings" where
  "with_max_queue_size x s = s\<lparr>cs_max_queue_size := x\<rparr>"

definition with_max_concurrent_items :: "uint \<Rightarrow> connection_settings \<Rightarrow> connection_settings" where
  "with_max_concurrent_items x s = s\<lparr>cs_max_concurrent_items := x\<rparr>"

definition with_max_retries :: "uint \<Rightarrow> connection_settings \<Rightarrow> connection_settings" where
  "with_max_retries x s = s\<lparr>cs_max_retries := x\<rparr>"

definition with_max_reconnections :: "uint \<Rightarrow> connection_settings \<Rightarrow> connection_settings" where
  "with_max_reconnections x s = s\<lparr>cs_max_reconnections := x\<rparr>"

definition with_require_master :: "bool \<Rightarrow> connection_settings \<Rightarrow> connection_settings" where
  "with_require_master x s = s\<lparr>cs_require_master := x\<rparr>"

definition with_reconnection_delay :: "int \<Rightarrow> connection_settings \<Rightarrow> connection_settings" where
  "with_reconnection_delay x s = s\<lparr>cs_reconnection_delay := x\<rparr>"

definition with_queue_timeout :: "int \<Rightarrow> connection_settings \<Rightarrow> connection_settings" where
  "with_queue_timeout x s = s\<lparr>cs_queue_timeout := x\<rparr>"

definition with_operation_timeout :: "int \<Rightarrow> connection_settings \<Rightarrow> connection_settings" where
  "with_operation_timeout x s = s\<lparr>cs_operation_timeout := x\<rparr>"

definition with_operation_timeout_check_period :: "int \<Rightarrow> connection_settings \<Rightarrow> connection_settings" where
  "with_operation_timeout_check_period x s = s\<lparr>cs_operation_timeout_check_period := x\<rparr>"

definition with_heartbeat_interval :: "int \<Rightarrow> connection_settings \<Rightarrow> connection_settings" where
  "with_heartbeat_interval x s = s\<lparr>cs_heartbeat_interval := x\<rparr>"

definition with_heartbeat_timeout :: "int \<Rightarrow> connection_settings \<Rightarrow> connection_settings" where
  "with_heartbeat_timeout x s = s\<lparr>cs_heartbeat_timeout := x\<rparr>"

definition with_client_connection_timeout :: "int \<Rightarrow> connection_settings \<Rightarrow> connection_settings" where
  "with_client_connection_timeout x s = s\<lparr>cs_client_connection_timeout := x\<rparr>"

definition with_max_discover_attempts :: "uint \<Rightarrow> connection_settings \<Rightarrow> connection_settings" where
  "with_max_discover_attempts x s = s\<lparr>cs_max_discover_attempts := x\<rparr>"

definition with_gossip_external_http_port :: "uint \<Rightarrow> connection_settings \<Rightarrow> connection_settings" where
  "with_gossip_external_http_port x s = s\<lparr>cs_gossip_external_http_port := x\<rparr>"

definition with_gossip_timeout :: "int \<Rightarrow> connection_settings \<Rightarrow> connection_settings" where
  "with_gossip_timeout x s = s\<lparr>cs_gossip_timeout := x\<rparr>"

definition prefer_random_node :: "connection_settings \<Rightarrow> connection_settings" where
  "prefer_random_node s = s\<lparr>cs_node_preference := Random\<rparr>"

definition prefer_slave_node :: "connection_settings \<Rightarrow> connection_settings" where
  "prefer_slave_node s = s\<lparr>cs_node_preference := Slave\<rparr>"

definition with_default_user_credentials :: "user_credentials \<Rightarrow> connection_settings \<Rightarrow> connection_settings" where
  "with_default_user_credentials x s = s\<lparr>cs_default_user_credentials := x\<rparr>"

definition use_ssl :: "bool \<Rightarrow> connection_settings \<Rightarrow> connection_settings" where
  "use_ssl x s = s\<lparr>cs_use_ssl := Some x\<rparr>"

definition with_target_host :: "string \<Rightarrow> connection_settings \<Rightarrow> connection_settings" where
  "with_target_host x s = s\<lparr>cs_target_host := x\<rparr>"

definition validate_server :: "bool \<Rightarrow> connection_settings \<Rightarrow> connection_settings" where
  "validate_server x s = s\<lparr>cs_validate_server := Some x\<rparr>"

definition fail_on_no_server_response :: "bool \<Rightarrow> connection_settings \<Rightarrow> connection_settings" where
  "fail_on_no_server_response x s = s\<lparr>cs_fail_on_no_server_response := Some x\<rparr>"

definition with_cluster_dns :: "string \<Rightarrow> connection_settings \<Rightarrow> connection_settings" where
  "with_cluster_dns x s = s\<lparr>cs_cluster_dns := x\<rparr>"

definition with_gossip_seeds :: "gossip_seed list \<Rightarrow> connection_settings \<Rightarrow> connection_settings" where
  "with_gossip_seeds seeds s = s\<lparr>cs_gossip_seeds := [] @ seeds\<rparr>"

definition with_gossip_seed_endpoints :: "endpoint list \<Rightarrow> connection_settings \<Rightarrow> connection_settings" where
  "with_gossip_seed_endpoints seeds s =
     foldl (\<lambda>s endpoint. s\<lparr>cs_gossip_seeds := cs_gossip_seeds s @ [seed_of_endpoint endpoint]\<rparr>)
       (s\<lparr>cs_gossip_seeds := []\<rparr>) seeds"

section \<open>catchup_subscription_settings\<close>

record catchup_subscription_settings =
  cu_max_live_queue_size :: int
  cu_read_batch_size :: int
  cu_resolve_link_tos :: bool
  cu_subscription_name :: string

definition catchup_settings_default :: catchup_subscription_settings where
  "catchup_settings_default = \<lparr>cu_max_live_queue_size = 500, cu_read_batch_size = 10,
     cu_resolve_link_tos = True, cu_subscription_name = []\<rparr>"

definition with_max_live_queue_size :: "int \<Rightarrow> catchup_subscription_settings \<Rightarrow> catchup_subscription_settings" where
  "with_max_live_queue_size x s = s\<lparr>cu_max_live_queue_size := x\<rparr>"

definition with_read_batch_size :: "int \<Rightarrow> catchup_subscription_settings \<Rightarrow> catchup_subscription_settings" where
  "with_read_batch_size x s = s\<lparr>cu_read_batch_size := x\<rparr>"

definition cu_with_resolve_link_tos :: "bool \<Rightarrow> catchup_subscription_settings \<Rightarrow> catchup_subscription_settings" where
  "cu_with_resolve_link_tos x s = s\<lparr>cu_resolve_link_tos := x\<rparr>"

definition with_subscription_name :: "string \<Rightarrow> catchup_subscription_settings \<Rightarrow> catchup_subscription_settings" where
  "with_subscription_name x s = s\<lparr>cu_subscription_name := x\<rparr>"

section \<open>persistent_subscription_settings\<close>

text \<open>\<open>start_from_\<close> has no initializer.\<close>

record persistent_subscription_settings =
  pss_resolve_link_tos :: bool
  pss_start_from :: "int option"
  pss_extra_statistics :: bool
  pss_message_timeout :: int
  pss_max_retry_count :: int
  pss_live_buffer_size :: int
  pss_history_buffer_size :: int
  pss_read_batch_size :: int
  pss_checkpoint_after :: int
  pss_min_checkpoint_count :: int
  pss_max_checkpoint_count :: int
  pss_max_subscriber_count :: int
  pss_named_consumer_strategy :: string

definition persistent_settings_default :: persistent_subscription_settings where
  "persistent_settings_default = \<lparr>pss_resolve_link_tos = False, pss_start_from = None,
     pss_extra_statistics = False, pss_message_timeout = 30 * 1000000000, pss_max_retry_count = 10,
     pss_live_buffer_size = 500, pss_history_buffer_size = 500, pss_read_batch_size = 20,
     pss_checkpoint_after = 2 * 1000000000, pss_min_checkpoint_count = 10,
     pss_max_checkpoint_count = 1000, pss_max_subscriber_count = 0,
     pss_named_consumer_strategy = round_robin\<rparr>"

definition ps_resolve :: "persistent_subscription_settings \<Rightarrow> persistent_subscription_settings" where
  "ps_resolve s = s\<lparr>pss_resolve_link_tos := True\<rparr>"

definition ps_do_not_resolve :: "persistent_subscription_settings \<Rightarrow> persistent_subscription_settings" where
  "ps_do_not_resolve s = s\<lparr>pss_resolve_link_tos := False\<rparr>"

definition with_extra_statistics :: "persistent_subscription_settings \<Rightarrow> persistent_subscription_settings" where
  "with_extra_statistics s = s\<lparr>pss_extra_statistics := True\<rparr>"

definition prefer_round_robin :: "persistent_subscription_settings \<Rightarrow> persistent_subscription_settings" where
  "prefer_round_robin s = s\<lparr>pss_named_consumer_strategy := round_robin\<rparr>"

definition prefer_dispatch_to_single :: "persistent_subscription_settings \<Rightarrow> persistent_subscription_settings" where
  "prefer_dispatch_to_single s = s\<lparr>pss_named_consumer_strategy := dispatch_to_single\<rparr>"

definition start_from_beginning :: "persistent_subscription_settings \<Rightarrow> persistent_subscription_settings" where
  "start_from_beginning s = s\<lparr>pss_start_from := Some 0\<rparr>"

definition start_from :: "int \<Rightarrow> persistent_subscription_settings \<Rightarrow> persistent_subscription_settings" where
  "start_from x s = s\<lparr>pss_start_from := Some x\<rparr>"

definition with_message_timeout :: "int \<Rightarrow> persistent_subscription_settings \<Rightarrow> persistent_subscription_settings" where
  "with_message_timeout x s = s\<lparr>pss_message_timeout := x\<rparr>"

definition dont_timeout_messages :: "persistent_subscription_settings \<Rightarrow> persistent_subscription_settings" where
  "dont_timeout_messages s = s\<lparr>pss_message_timeout := 0\<rparr>"

definition checkpoint_after :: "int \<Rightarrow> persistent_subscription_settings \<Rightarrow> persistent_subscription_settings" where
  "checkpoint_after x s = s\<lparr>pss_checkpoint_after := x\<rparr>"

definition minimum_checkpoint_count_of :: "int \<Rightarrow> persistent_subscription_settings \<Rightarrow> persistent_subscription_settings" where
  "minimum_checkpoint_count_of x s = s\<lparr>pss_min_checkpoint_count := x\<rparr>"

definition maximum_checkpoint_count_of :: "int \<Rightarrow> persistent_subscription_settings \<Rightarrow> persistent_subscription_settings" where
  "maximum_checkpoint_count_of x s = s\<lparr>pss_max_checkpoint_count := x\<rparr>"

definition with_max_retries_of :: "int \<Rightarrow> persistent_subscription_settings \<Rightarrow> persistent_subscription_settings" where
  "with_max_retries_of x s = s\<lparr>pss_max_retry_count := x\<rparr>"

definition with_live_buffer_size_of :: "int \<Rightarrow> persistent_subscription_settings \<Rightarrow> persistent_subscription_settings" where
  "with_live_buffer_size_of x s = s\<lparr>pss_live_buffer_size := x\<rparr>"

definition with_read_batch_size_of :: "int \<Rightarrow> persistent_subscription_settings \<Rightarrow> persistent_subscription_settings" where
  "with_read_batch_size_of x s = s\<lparr>pss_read_batch_size := x\<rparr>"

definition with_history_buffer_size_of :: "int \<Rightarrow> persistent_subscription_settings \<Rightarrow> persistent_subscription_settings" where
  "with_history_buffer_size_of x s = s\<lparr>pss_history_buffer_size := x\<rparr>"

definition start_from_current :: "persistent_subscription_settings \<Rightarrow> persistent_subscription_settings" where
  "start_from_current s = s\<lparr>pss_start_from := Some (- 1)\<rparr>"

definition with_max_subscriber_count_of :: "int \<Rightarrow> persistent_subscription_settings \<Rightarrow> persistent_subscription_settings" where
  "with_max_subscriber_count_of x s = s\<lparr>pss_max_subscriber_count := x\<rparr>"

definition with_named_consumer_strategy :: "string \<Rightarrow> persistent_subscription_settings \<Rightarrow> persistent_subscription_settings" where
  "with_named_consumer_strategy x s = s\<lparr>pss_named_consumer_strategy := x\<rparr>"

section \<open>cluster_settings\<close>

record cluster_settings =
  cl_cluster_dns :: string
  cl_max_discover_attempts :: "int option"
  cl_external_gossip_port :: "int option"
  cl_gossip_seeds :: "gossip_seed list"
  cl_gossip_timeout :: "int option"
  cl_node_preference :: "node_preference option"

definition cluster_settings_default :: cluster_settings where
  "cluster_settings_default = \<lparr>cl_cluster_dns = [], cl_max_discover_attempts = None,
     cl_external_gossip_port = None, cl_gossip_seeds = [], cl_gossip_timeout = None,
     cl_node_preference = None\<rparr>"

definition cl_with_gossip_seeds :: "gossip_seed list \<Rightarrow> cluster_settings \<Rightarrow> cluster_settings" where
  "cl_with_gossip_seeds seeds s = s\<lparr>cl_gossip_seeds := seeds\<rparr>"

definition cl_with_endpoints :: "endpoint list \<Rightarrow> cluster_settings \<Rightarrow> cluster_settings" where
  "cl_with_endpoints seeds s = s\<lparr>cl_gossip_seeds := map seed_of_endpoint seeds\<rparr>"

definition keep_discovering :: "cluster_settings \<Rightarrow> cluster_settings" where
  "keep_discovering s = s\<lparr>cl_max_discover_attempts := Some (2 ^ 31 - 1)\<rparr>"

definition cl_with_max_discover_attempts :: "int \<Rightarrow> cluster_settings \<Rightarrow> cluster_settings" where
  "cl_with_max_discover_attempts x s = s\<lparr>cl_max_discover_attempts := Some x\<rparr>"

definition cl_with_gossip_timeout :: "int \<Rightarrow> cluster_settings \<Rightarrow> cluster_settings" where
  "cl_with_gossip_timeout x s = s\<lparr>cl_gossip_timeout := Some x\<rparr>"

definition cl_prefer_random_node :: "cluster_settings \<Rightarrow> cluster_settings" where
  "cl_prefer_random_node s = s\<lparr>cl_node_preference := Some Random\<rparr>"

definition cl_prefer_slave_node :: "cluster_settings \<Rightarrow> cluster_settings" where
  "cl_prefer_slave_node s = s\<lparr>cl_node_preference := Some Slave\<rparr>"

section \<open>Lemmas\<close>

lemma with_gossip_seed_endpoints_eq:
  "with_gossip_seed_endpoints es s = with_gossip_seeds (map seed_of_endpoint es) s"
proof -
  have "foldl (\<lambda>s e. s\<lparr>cs_gossip_seeds := cs_gossip_seeds s @ [seed_of_endpoint e]\<rparr>) s es
      = s\<lparr>cs_gossip_seeds := cs_gossip_seeds s @ map seed_of_endpoint es\<rparr>" for s :: connection_settings
    by (induction es arbitrary: s) simp_all
  then show ?thesis
    by (simp add: with_gossip_seed_endpoints_def with_gossip_seeds_def)
qed

lemma credentials_null_iff: "credentials_null c \<longleftrightarrow> credentials_eq c credentials_default"
  by (simp add: credentials_null_def credentials_eq_def credentials_default_def)

end
