(* ===== verification/Es_Error.thy ===== *)
theory Es_Error
  imports Es_Prelude
begin

text \<open>
  \<open>include/error/error.hpp\<close>: the four error enumerations, their Boost.System categories with the
  message of every code, and \<open>make_error_code\<close>.  An error code is a value with a category, as
  in Boost.System: it denotes success when the value is 0, and two codes are equal when both
  agree.  The other categories a completion handler may see are Asio's.
\<close>

datatype connection_errors =
  Authentication_Failed | Identification_Failed | Operation_Timeout | Heartbeat_Timeout
| Max_Reconnections | Max_Operation_Retries | Endpoint_Discovery | Connection_Unexpected_Response
| Connection_Closed | Authentication_Timeout

datatype communication_errors =
  Bad_Length_Prefix | Unexpected_Response | Server_Error | Bad_Request

datatype stream_errors =
  Wrong_Expected_Version | Stream_Deleted | Stream_Access_Denied | Invalid_Transaction
| Stream_Not_Found | Version_Mismatch | Transaction_Committed | Transaction_Rolled_Back

datatype subscription_errors =
  Unsubscribed | Subscription_Access_Denied | Not_Found | Unknown | Not_Authenticated
| Subscription_Request_Not_Sent | Bad_Subscription_Confirmation | Persistent_Subscription_Deleted
| Subscriber_Max_Count_Reached | Persistent_Subscription_Already_Exists
| Persistent_Subscription_Fail | Persistent_Subscription_Does_Not_Exist

datatype error_category =
  Connection_Category | Communication_Category | Stream_Category | Subscription_Category
| System_Category | Other_Category string

datatype error_code = Error_Code (ec_value: int) (ec_category: error_category)

definition failed :: "error_code \<Rightarrow> bool" where
  "failed ec \<longleftrightarrow> ec_value ec \<noteq> 0"

definition success :: error_code where
  "success = Error_Code 0 System_Category"

text \<open>Asio's \<open>operation_aborted\<close> is \<open>ECANCELED\<close> of the system category.\<close>

definition operation_aborted :: error_code where
  "operation_aborted = Error_Code 125 System_Category"

section \<open>The enumerators' values\<close>

fun connection_errors_value :: "connection_errors \<Rightarrow> int" where
  "connection_errors_value Authentication_Failed = 1"
| "connection_errors_value Identification_Failed = 2"
| "connection_errors_value Operation_Timeout = 3"
| "connection_errors_value Heartbeat_Timeout = 4"
| "connection_errors_value Max_Reconnections = 5"
| "connection_errors_value Max_Operation_Retries = 6"
| "connection_errors_value Endpoint_Discovery = 7"
| "connection_errors_value Connection_Unexpected_Response = 8"
| "connection_errors_value Connection_Closed = 9"
| "connection_errors_value Authentication_Timeout = 10"

fun communication_errors_value :: "communication_errors \<Rightarrow> int" where
  "communication_errors_value Bad_Length_Prefix = 1"
| "communication_errors_value Unexpected_Response = 2"
| "communication_errors_value Server_Error = 3"
| "communication_errors_value Bad_Request = 4"

fun stream_errors_value :: "stream_errors \<Rightarrow> int" where
  "stream_errors_value Wrong_Expected_Version = 1"
| "stream_errors_value Stream_Deleted = 2"
| "stream_errors_value Stream_Access_Denied = 3"
| "stream_errors_value Invalid_Transaction = 4"
| "stream_errors_value Stream_Not_Found = 5"
| "stream_errors_value Version_Mismatch = 6"
| "stream_errors_value Transaction_Committed = 7"
| "stream_errors_value Transaction_Rolled_Back = 8"

fun subscription_errors_value :: "subscription_errors \<Rightarrow> int" where
  "subscription_errors_value Unsubscribed = 1"
| "subscription_errors_value Subscription_Access_Denied = 2"
| "subscription_errors_value Not_Found = 3"
| "subscription_errors_value Unknown = 4"
| "subscription_errors_value Not_Authenticated = 5"
| "subscription_errors_value Subscription_Request_Not_Sent = 6"
| "subscription_errors_value Bad_Subscription_Confirmation = 7"
| "subscription_errors_value Persistent_Subscription_Deleted = 8"
| "subscription_errors_value Subscriber_Max_Count_Reached = 9"
| "subscription_errors_value Persistent_Subscription_Already_Exists = 10"
| "subscription_errors_value Persistent_Subscription_Fail = 11"
| "subscription_errors_value Persistent_Subscription_Does_Not_Exist = 12"

section \<open>The categories\<close>

definition connection_category_name :: string where
  "connection_category_name = ''eventstore.connection''"

definition connection_category_message :: "int \<Rightarrow> string" where
  "connection_category_message e =
    (if e = connection_errors_value Authentication_Failed then ''failed to authenticate to server''
     else if e = connection_errors_value Identification_Failed then ''failed to identify to server''
     else if e = connection_errors_value Operation_Timeout then ''request timed out''
     else if e = connection_errors_value Heartbeat_Timeout then ''server failed to respond to heartbeat request''
     else if e = connection_errors_value Max_Reconnections then ''reached maximum number of reconnection attempts to server''
     else if e = connection_errors_value Max_Operation_Retries then ''reached maximum number of retries for operation''
     else if e = connection_errors_value Endpoint_Discovery then ''failed to discover nodes''
     else if e = connection_errors_value Connection_Unexpected_Response then ''server response is not coherent with client request''
     else if e = connection_errors_value Connection_Closed then ''connection to server terminated''
     else if e = connection_errors_value Authentication_Timeout then ''authentication timed out''
     else ''unknown error'')"

definition communication_category_name :: string where
  "communication_category_name = ''eventstore.communication''"

definition communication_category_message :: "int \<Rightarrow> string" where
  "communication_category_message e =
    (if e = communication_errors_value Bad_Length_Prefix then ''tcp length-prefixed frame had invalid message length''
     else if e = communication_errors_value Unexpected_Response then ''server response could not be understood''
     else if e = communication_errors_value Server_Error then ''error on server side''
     else if e = communication_errors_value Bad_Request then ''bad request''
     else ''unknown error'')"

definition stream_category_name :: string where
  "stream_category_name = ''eventstore.stream''"

definition stream_category_message :: "int \<Rightarrow> string" where
  "stream_category_message e =
    (if e = stream_errors_value Stream_Access_Denied then ''access denied for stream''
     else if e = stream_errors_value Invalid_Transaction then ''invalid transaction''
     else if e = stream_errors_value Stream_Deleted then ''stream has been deleted''
     else if e = stream_errors_value Wrong_Expected_Version then ''wrong expected version, stream was updated before this operation or did not exist''
     else if e = stream_errors_value Stream_Not_Found then ''the stream was not found''
     else if e = stream_errors_value Version_Mismatch then ''the expected version does not match actual stream version''
     else if e = stream_errors_value Transaction_Committed then ''the transaction was already committed''
     else if e = stream_errors_value Transaction_Rolled_Back then ''the transaction was already rolled back''
     else ''unknown error'')"

definition subscription_category_name :: string where
  "subscription_category_name = ''eventstore.subscription''"

definition subscription_category_message :: "int \<Rightarrow> string" where
  "subscription_category_message e =
    (if e = subscription_errors_value Subscription_Access_Denied then ''subscription failed due to access denied''
     else if e = subscription_errors_value Not_Found then ''subscription not found''
     else if e = subscription_errors_value Unsubscribed then ''user unsubscribed''
     else if e = subscription_errors_value Unknown then ''unsubscribed for unknown reason''
     else if e = subscription_errors_value Not_Authenticated then ''not authenticated''
     else if e = subscription_errors_value Subscription_Request_Not_Sent then ''an error occurred before sending the subscription request''
     else if e = subscription_errors_value Bad_Subscription_Confirmation then ''subscription confirmation did not have last_event_number or last_commit_position''
     else if e = subscription_errors_value Persistent_Subscription_Deleted then ''persistent subscription was deleted''
     else if e = subscription_errors_value Subscriber_Max_Count_Reached then ''the maximum number of subscriber for this subscription group was reached''
     else if e = subscription_errors_value Persistent_Subscription_Already_Exists then ''could not create the persistent subscription since it already exists''
     else if e = subscription_errors_value Persistent_Subscription_Fail then ''the operation on the persistent subscription failed''
     else if e = subscription_errors_value Persistent_Subscription_Does_Not_Exist then ''the persistent subscription did not exist''
     else ''unknown error'')"

text \<open>\<open>error_code::message()\<close> asks the category; Asio's messages are the platform's.\<close>

fun ec_message :: "(int \<Rightarrow> error_category \<Rightarrow> string) \<Rightarrow> error_code \<Rightarrow> string" where
  "ec_message platform (Error_Code e Connection_Category) = connection_category_message e"
| "ec_message platform (Error_Code e Communication_Category) = communication_category_message e"
| "ec_message platform (Error_Code e Stream_Category) = stream_category_message e"
| "ec_message platform (Error_Code e Subscription_Category) = subscription_category_message e"
| "ec_message platform (Error_Code e c) = platform e c"

section \<open>make_error_code\<close>

definition connection_error :: "connection_errors \<Rightarrow> error_code" where
  "connection_error ec = Error_Code (connection_errors_value ec) Connection_Category"

definition communication_error :: "communication_errors \<Rightarrow> error_code" where
  "communication_error ec = Error_Code (communication_errors_value ec) Communication_Category"

definition stream_error :: "stream_errors \<Rightarrow> error_code" where
  "stream_error ec = Error_Code (stream_errors_value ec) Stream_Category"

definition subscription_error :: "subscription_errors \<Rightarrow> error_code" where
  "subscription_error ec = Error_Code (subscription_errors_value ec) Subscription_Category"

text \<open>One name for the client's errors, so that facts over all four overloads are one statement.\<close>

datatype es_error =
  Connection_E connection_errors | Communication_E communication_errors
| Stream_E stream_errors | Subscription_E subscription_errors

fun make_error_code :: "es_error \<Rightarrow> error_code" where
  "make_error_code (Connection_E e) = connection_error e"
| "make_error_code (Communication_E e) = communication_error e"
| "make_error_code (Stream_E e) = stream_error e"
| "make_error_code (Subscription_E e) = subscription_error e"

section \<open>Facts\<close>

lemma not_failed_success [simp]: "\<not> failed success"
  by (simp add: failed_def success_def)

lemma failed_connection [simp]: "failed (connection_error e)"
  by (cases e) (simp_all add: failed_def connection_error_def)

lemma failed_communication [simp]: "failed (communication_error e)"
  by (cases e) (simp_all add: failed_def communication_error_def)

lemma failed_stream [simp]: "failed (stream_error e)"
  by (cases e) (simp_all add: failed_def stream_error_def)

lemma failed_subscription [simp]: "failed (subscription_error e)"
  by (cases e) (simp_all add: failed_def subscription_error_def)

lemma failed_aborted [simp]: "failed operation_aborted"
  by (simp add: failed_def operation_aborted_def)

lemma connection_error_eq [simp]: "(connection_error a = connection_error b) = (a = b)"
  by (cases a; cases b) (simp_all add: connection_error_def)

lemma communication_error_eq [simp]: "(communication_error a = communication_error b) = (a = b)"
  by (cases a; cases b) (simp_all add: communication_error_def)

lemma stream_error_eq [simp]: "(stream_error a = stream_error b) = (a = b)"
  by (cases a; cases b) (simp_all add: stream_error_def)

lemma subscription_error_eq [simp]: "(subscription_error a = subscription_error b) = (a = b)"
  by (cases a; cases b) (simp_all add: subscription_error_def)

lemma error_kinds_distinct [simp]:
  "connection_error a \<noteq> communication_error b" "connection_error a \<noteq> stream_error c"
  "connection_error a \<noteq> subscription_error d" "communication_error b \<noteq> connection_error a"
  "communication_error b \<noteq> stream_error c" "communication_error b \<noteq> subscription_error d"
  "stream_error c \<noteq> connection_error a" "stream_error c \<noteq> communication_error b"
  "stream_error c \<noteq> subscription_error d" "subscription_error d \<noteq> connection_error a"
  "subscription_error d \<noteq> communication_error b" "subscription_error d \<noteq> stream_error c"
  by (simp_all add: connection_error_def communication_error_def stream_error_def subscription_error_def)

lemma not_aborted [simp]:
  "connection_error a \<noteq> operation_aborted" "communication_error b \<noteq> operation_aborted"
  "stream_error c \<noteq> operation_aborted" "subscription_error d \<noteq> operation_aborted"
  by (simp_all add: connection_error_def communication_error_def stream_error_def
      subscription_error_def operation_aborted_def)

lemma message_connection_known: "ec_message p (connection_error e) \<noteq> ''unknown error''"
  by (cases e) (simp_all add: connection_error_def connection_category_message_def)

lemma message_communication_known: "ec_message p (communication_error e) \<noteq> ''unknown error''"
  by (cases e) (simp_all add: communication_error_def communication_category_message_def)

lemma message_stream_known: "ec_message p (stream_error e) \<noteq> ''unknown error''"
  by (cases e) (simp_all add: stream_error_def stream_category_message_def)

lemma message_subscription_known: "ec_message p (subscription_error e) \<noteq> ''unknown error''"
  by (cases e) (simp_all add: subscription_error_def subscription_category_message_def)

lemma make_error_code_inject: "(make_error_code a = make_error_code b) = (a = b)"
  by (cases a; cases b) simp_all

lemma make_error_code_failed: "failed (make_error_code e)"
  by (cases e) simp_all

lemma make_error_code_message: "ec_message p (make_error_code e) \<noteq> ''unknown error''"
  by (cases e) (simp_all add: message_connection_known message_communication_known
      message_stream_known message_subscription_known)

end
