(* ===== verification/Request_Response.thy ===== *)
theory Request_Response
  imports Es_Settings Es_Error
begin

text \<open>
  What every operation of the client has in common: a request frame built from the serialized
  request and the default credentials of the connection, and a package handler that is called
  with the response or with an error and in turn completes the user's handler.

  A package handler is a function of the error code and the view it is called with.  Its result is
  \<open>Not_called\<close> when the code returns without calling the user's handler, and \<open>Called ec r\<close> when it
  calls it with the code \<open>ec\<close> and the result \<open>r\<close>; around that, \<open>None\<close> is undefined behaviour.
\<close>

section \<open>Requests\<close>

definition request_package :: "tcp_command \<Rightarrow> user_credentials \<Rightarrow> guid \<Rightarrow> bytes \<Rightarrow> tcp_package option" where
  "request_package command creds corr_id serialized =
    (if credentials_null creds
     then unauthenticated_package command flags_none corr_id serialized
     else authenticated_package command flags_authenticated corr_id (username creds) (password creds) serialized)"

lemma request_package_view:
  assumes "is_named c" and "is_guid g" and "length (username creds) < 256" and "length (password creds) < 256"
    and "24 + length (username creds) + length (password creds) + length msg < 2 ^ 32"
  shows "\<exists>p v. request_package c creds g msg = Some p \<and> is_valid p = Some True \<and> to_view p = Some v \<and>
    view_is_valid v \<and> view_command v = Some c \<and> view_correlation_id v = Some g \<and> view_message v = Some msg \<and>
    view_is_authenticated v = Some (\<not> credentials_null creds) \<and>
    (\<not> credentials_null creds \<longrightarrow> view_login v = Some (to_bytes (username creds)) \<and>
       view_password v = Some (to_bytes (password creds)))"
proof (cases "credentials_null creds")
  case True
  have "and flags_none flags_authenticated = 0"
    by (simp add: flags_none_def)
  from unauthenticated_package_view [OF assms(1) this assms(2), of msg] show ?thesis
    using True assms(5) by (auto simp: request_package_def)
next
  case False
  from authenticated_package_view [OF assms] show ?thesis
    using False by (auto simp: request_package_def)
qed

section \<open>Package handlers\<close>

datatype 'r completion = Not_called | Called error_code 'r

text \<open>\<open>if (!ec && view.command() != expected) ec = unexpected_response;\<close>  The view is only looked at
  when there is no error.\<close>

definition check_command :: "tcp_command \<Rightarrow> error_code \<Rightarrow> tcp_package_view \<Rightarrow> error_code option" where
  "check_command expected ec v =
    (if failed ec then Some ec
     else do { c \<leftarrow> view_command v;
               Some (if c \<noteq> expected then communication_error Unexpected_Response else ec) })"

lemma check_command_failed [simp]: "failed ec \<Longrightarrow> check_command expected ec v = Some ec"
  by (simp add: check_command_def)

lemma check_command_ok [simp]:
  "view_command v = Some expected \<Longrightarrow> check_command expected ec v = Some ec"
  by (simp add: check_command_def)

lemma check_command_unexpected [simp]:
  "\<not> failed ec \<Longrightarrow> view_command v = Some c \<Longrightarrow> c \<noteq> expected \<Longrightarrow>
   check_command expected ec v = Some (communication_error Unexpected_Response)"
  by (simp add: check_command_def)

text \<open>The same check against the command that answers a request in the given direction.\<close>

definition check_direction ::
    "tcp_command \<Rightarrow> tcp_command \<Rightarrow> read_direction \<Rightarrow> error_code \<Rightarrow> tcp_package_view \<Rightarrow> error_code option" where
  "check_direction forward_completed backward_completed direction ec v =
    (if failed ec then Some ec
     else do {
       c \<leftarrow> view_command v;
       let ec = (if direction = Forward \<and> c \<noteq> forward_completed then communication_error Unexpected_Response else ec);
       Some (if direction = Backward \<and> c \<noteq> backward_completed then communication_error Unexpected_Response else ec) })"

lemma check_direction_eq:
  "check_direction f b d ec v = check_command (if d = Forward then f else b) ec v"
  by (cases d) (auto simp: check_direction_def check_command_def split: Option.bind_splits)

text \<open>
  The contract of a package handler: it forwards an error it is called with, reports an unexpected
  command, and otherwise decides on the message of the frame alone.
\<close>

locale response_handler =
  fixes handle :: "error_code \<Rightarrow> tcp_package_view \<Rightarrow> 'r completion option"
    and expected :: tcp_command
    and no_result :: 'r
    and reply :: "error_code \<Rightarrow> bytes \<Rightarrow> 'r completion option"
  assumes forwards_error: "failed ec \<Longrightarrow> handle ec v = Some (Called ec no_result)"
    and rejects_command: "\<not> failed ec \<Longrightarrow> view_command v = Some c \<Longrightarrow> c \<noteq> expected \<Longrightarrow>
        handle ec v = Some (Called (communication_error Unexpected_Response) no_result)"
    and replies: "\<not> failed ec \<Longrightarrow> view_command v = Some expected \<Longrightarrow> view_message v = Some m \<Longrightarrow>
        handle ec v = reply ec m"
begin

lemma timeout_completes:
  "handle (connection_error Operation_Timeout) null_view = Some (Called (connection_error Operation_Timeout) no_result)"
  by (rule forwards_error) simp

text \<open>On a valid frame the handler is undefined only where interpreting the message is.\<close>

lemma defined_on_valid_view:
  assumes "frame_ok m n" and "n < 2 ^ 32" and "\<not> failed ec" and "\<And>b. reply ec b \<noteq> None"
  shows "handle ec (frame_view m n) \<noteq> None"
proof (cases "command_of (m ! 4) = expected")
  case True
  then show ?thesis
    using replies [of ec "frame_view m n"] assms frame_view_command [OF assms(1)]
      frame_view_message [OF assms(1,2)] by simp
next
  case False
  then show ?thesis
    using rejects_command [of ec "frame_view m n"] assms(3) frame_view_command [OF assms(1)] by simp
qed

end

text \<open>Every handler of the code is this check followed by the interpretation of the message.\<close>

definition handle_response ::
    "'r \<Rightarrow> (error_code \<Rightarrow> bytes \<Rightarrow> 'r completion option) \<Rightarrow> error_code option \<Rightarrow> tcp_package_view \<Rightarrow> 'r completion option" where
  "handle_response no_result reply checked v = do {
     ec \<leftarrow> checked;
     if failed ec then Some (Called ec no_result) else do { m \<leftarrow> view_message v; reply ec m } }"

lemma response_handler_intro:
  assumes "\<And>ec v. handle ec v = handle_response no_result reply (check_command expected ec v) v"
  shows "response_handler handle expected no_result reply"
  by unfold_locales (simp_all add: assms handle_response_def check_command_def)

section \<open>Properties\<close>

text \<open>What reaches the server for a request.  Whatever the operation, the frame built for it is
  valid and carries its command, its correlation id and exactly the serialized request; it is
  authenticated if and only if default credentials are configured, and then with them.  The
  credentials must fit their length bytes and the frame its length prefix.\<close>

theorem request_frame:
  assumes "is_named c" and "is_guid g" and "length (username creds) < 256" and "length (password creds) < 256"
    and "24 + length (username creds) + length (password creds) + length msg < 2 ^ 32"
  shows "\<exists>p v. request_package c creds g msg = Some p \<and> is_valid p = Some True \<and> to_view p = Some v \<and>
    view_is_valid v \<and> view_command v = Some c \<and> view_correlation_id v = Some g \<and> view_message v = Some msg \<and>
    view_is_authenticated v = Some (\<not> credentials_null creds) \<and>
    (\<not> credentials_null creds \<longrightarrow> view_login v = Some (to_bytes (username creds)) \<and>
       view_password v = Some (to_bytes (password creds)))"
  by (rule request_package_view [OF assms])

theorem request_frame_witness:
  "\<exists>p v. request_package Ping_Command (mk_credentials ''admin'' ''pw'') (replicate 16 7) [1, 2] = Some p \<and>
     to_view p = Some v \<and> view_login v = Some (to_bytes ''admin'') \<and> view_message v = Some [1, 2]"
  using request_frame [of Ping_Command "replicate 16 7" "mk_credentials ''admin'' ''pw''" "[1, 2]"]
  by (force simp: is_named_def is_guid_def mk_credentials_def credentials_null_def)

end
