(* ===== verification/Write_Operations.thy ===== *)
theory Write_Operations
  imports Request_Response
begin

text \<open>
  The operations that write: \<open>append_to_stream.hpp\<close>, \<open>conditional_append_to_stream.hpp\<close>,
  \<open>set_stream_metadata.hpp\<close>, \<open>delete_stream.hpp\<close>, \<open>start_transaction.hpp\<close>, \<open>transactional_write.hpp\<close>,
  \<open>commit_transaction.hpp\<close>, and the transaction object of \<open>transaction.hpp\<close>.

  Each operation has a request (the frame it sends, from the serializer of its message, the
  connection's credentials and \<open>require_master\<close> setting, and a fresh correlation id) and a response (the
  package handler it registers).  A position is built from the prepare and the commit position in
  the order in which the code passes them.
\<close>

section \<open>New events\<close>

text \<open>The loop body that fills one \<open>NewEvent\<close> from an event whose id is a \<open>guid_type\<close>.\<close>

definition new_event_of :: "event_data \<Rightarrow> new_event" where
  "new_event_of e = \<lparr>ne_event_id = from_bytes (ed_event_id e), ne_event_type = ed_type e,
     ne_data_content_type = (if ed_is_json e then 1 else 0), ne_metadata_content_type = 0,
     ne_data = ed_content e, ne_metadata = ed_metadata e\<rparr>"

definition optional_position :: "int option \<Rightarrow> int" where
  "optional_position p = (case p of None \<Rightarrow> - 1 | Some x \<Rightarrow> x)"

section \<open>async_append_to_stream\<close>

definition append_request ::
  "(write_events \<Rightarrow> string) \<Rightarrow> user_credentials \<Rightarrow> bool \<Rightarrow> guid \<Rightarrow> string \<Rightarrow> event_data list \<Rightarrow> int \<Rightarrow> tcp_package option"
where
  "append_request serialize creds require_master corr_id stream events expected_version =
    (let request = \<lparr>we_event_stream_id = stream, we_expected_version = expected_version,
           we_events = map new_event_of events, we_require_master = require_master\<rparr>
     in request_package Write_Events_Command creds corr_id (to_bytes (serialize request)))"

text \<open>The \<open>switch\<close> on the result: the new error code, or \<open>None\<close> where the branch returns.\<close>

fun append_switch :: "stream_errors \<Rightarrow> operation_result \<Rightarrow> error_code \<Rightarrow> error_code option" where
  "append_switch wrong_version OR_Success ec = Some ec"
| "append_switch wrong_version OR_PrepareTimeout ec = None"
| "append_switch wrong_version OR_ForwardTimeout ec = None"
| "append_switch wrong_version OR_CommitTimeout ec = None"
| "append_switch wrong_version OR_WrongExpectedVersion ec = Some (stream_error wrong_version)"
| "append_switch wrong_version OR_StreamDeleted ec = Some (stream_error Stream_Deleted)"
| "append_switch wrong_version OR_InvalidTransaction ec = Some (stream_error Invalid_Transaction)"
| "append_switch wrong_version OR_AccessDenied ec = Some (stream_error Stream_Access_Denied)"
| "append_switch wrong_version (OR_Other r) ec = Some (communication_error Unexpected_Response)"

definition append_reply ::
  "stream_errors \<Rightarrow> (bytes \<Rightarrow> write_events_completed) \<Rightarrow> error_code \<Rightarrow> bytes \<Rightarrow> write_result option completion option"
where
  "append_reply wrong_version parse ec m =
    (let response = parse m in
     case append_switch wrong_version (wec_result response) ec of
       None \<Rightarrow> Some Not_called
     | Some ec \<Rightarrow> Some (if \<not> failed ec
         then (let prepare_position = optional_position (wec_prepare_position response);
                   commit_position = optional_position (wec_commit_position response)
               in Called ec (Some \<lparr>next_expected_version = wec_last_event_number response,
                                   wr_log_position = Position prepare_position commit_position\<rparr>))
         else Called ec None))"

definition append_response ::
  "(bytes \<Rightarrow> write_events_completed) \<Rightarrow> error_code \<Rightarrow> tcp_package_view \<Rightarrow> write_result option completion option"
where
  "append_response parse ec v = handle_response None (append_reply Wrong_Expected_Version parse)
     (check_command Write_Events_Completed_Command ec v) v"

interpretation append_op: response_handler "append_response parse" Write_Events_Completed_Command None
    "append_reply Wrong_Expected_Version parse" for parse
  by (rule response_handler_intro) (simp add: append_response_def)

section \<open>async_conditional_append_to_stream\<close>

text \<open>The request is built like that of \<open>async_append_to_stream\<close>; in the response a wrong expected
  version is a version mismatch.\<close>

definition conditional_append_request ::
  "(write_events \<Rightarrow> string) \<Rightarrow> user_credentials \<Rightarrow> bool \<Rightarrow> guid \<Rightarrow> string \<Rightarrow> event_data list \<Rightarrow> int \<Rightarrow> tcp_package option"
where
  "conditional_append_request serialize creds require_master corr_id stream events expected_version =
    (let request = \<lparr>we_event_stream_id = stream, we_expected_version = expected_version,
           we_events = map new_event_of events, we_require_master = require_master\<rparr>
     in request_package Write_Events_Command creds corr_id (to_bytes (serialize request)))"

definition conditional_append_response ::
  "(bytes \<Rightarrow> write_events_completed) \<Rightarrow> error_code \<Rightarrow> tcp_package_view \<Rightarrow> write_result option completion option"
where
  "conditional_append_response parse ec v = handle_response None (append_reply Version_Mismatch parse)
     (check_command Write_Events_Completed_Command ec v) v"

interpretation conditional_append_op: response_handler "conditional_append_response parse"
    Write_Events_Completed_Command None "append_reply Version_Mismatch parse" for parse
  by (rule response_handler_intro) (simp add: conditional_append_response_def)

section \<open>async_set_stream_metadata\<close>

definition set_stream_metadata_request ::
  "(write_events \<Rightarrow> string) \<Rightarrow> user_credentials \<Rightarrow> bool \<Rightarrow> guid \<Rightarrow> guid \<Rightarrow> string \<Rightarrow> int \<Rightarrow> string \<Rightarrow> tcp_package option"
where
  "set_stream_metadata_request serialize creds require_master corr_id new_id stream expected_metastream_version new_metadata =
     append_request serialize creds require_master corr_id (meta_stream_of stream)
       [\<lparr>ed_event_id = new_id, ed_type = event_type_stream_metadata, ed_is_json = True,
         ed_content = new_metadata, ed_metadata = None\<rparr>] expected_metastream_version"

section \<open>async_delete_stream\<close>

definition delete_stream_request ::
  "(delete_stream_msg \<Rightarrow> string) \<Rightarrow> user_credentials \<Rightarrow> bool \<Rightarrow> guid \<Rightarrow> string \<Rightarrow> int \<Rightarrow> bool \<Rightarrow> tcp_package option"
where
  "delete_stream_request serialize creds require_master corr_id stream expected_version hard_delete =
    (let request = \<lparr>ds_event_stream_id = stream, ds_expected_version = expected_version,
           ds_require_master = require_master, ds_hard_delete = hard_delete\<rparr>
     in request_package Delete_Stream_Command creds corr_id (to_bytes (serialize request)))"

text \<open>The \<open>switch\<close> of \<open>async_delete_stream\<close> and \<open>async_start_transaction\<close>: the timeouts \<open>break\<close>.\<close>

fun delete_switch :: "operation_result \<Rightarrow> error_code \<Rightarrow> error_code" where
  "delete_switch OR_Success ec = ec"
| "delete_switch OR_PrepareTimeout ec = ec"
| "delete_switch OR_CommitTimeout ec = ec"
| "delete_switch OR_ForwardTimeout ec = ec"
| "delete_switch OR_WrongExpectedVersion ec = stream_error Wrong_Expected_Version"
| "delete_switch OR_StreamDeleted ec = stream_error Stream_Deleted"
| "delete_switch OR_InvalidTransaction ec = stream_error Invalid_Transaction"
| "delete_switch OR_AccessDenied ec = stream_error Stream_Access_Denied"
| "delete_switch (OR_Other r) ec = communication_error Unexpected_Response"

definition delete_reply ::
  "(bytes \<Rightarrow> delete_stream_completed) \<Rightarrow> error_code \<Rightarrow> bytes \<Rightarrow> delete_stream_result option completion option"
where
  "delete_reply parse ec m =
    (let response = parse m; ec = delete_switch (dsc_result response) ec in
     Some (if \<not> failed ec
       then (let prepare_position = optional_position (dsc_prepare_position response);
                 commit_position = optional_position (dsc_commit_position response)
             in Called ec (Some \<lparr>ds_log_position = Position prepare_position commit_position\<rparr>))
       else Called ec None))"

definition delete_stream_response ::
  "(bytes \<Rightarrow> delete_stream_completed) \<Rightarrow> error_code \<Rightarrow> tcp_package_view \<Rightarrow> delete_stream_result option completion option"
where
  "delete_stream_response parse ec v = handle_response None (delete_reply parse)
     (check_command Delete_Stream_Completed_Command ec v) v"

interpretation delete_op: response_handler "delete_stream_response parse" Delete_Stream_Completed_Command
    None "delete_reply parse" for parse
  by (rule response_handler_intro) (simp add: delete_stream_response_def)

section \<open>The transaction object\<close>

text \<open>The connection it holds is the one whose requests are built here.\<close>

record transaction =
  transaction_id :: int
  is_rolled_back :: bool
  is_committed :: bool

definition mk_transaction :: "int \<Rightarrow> transaction" where
  "mk_transaction t = \<lparr>transaction_id = t, is_rolled_back = False, is_committed = False\<rparr>"

text \<open>What a call on the transaction does: it posts the user's handler with an error, starts the
  operation on the connection, or returns a code.\<close>

datatype 'e tx_effect =
  Post_Error error_code | Commit_Operation int | Write_Operation int "'e list" | Returned error_code

text \<open>The two assignments before \<open>if (ec)\<close>.\<close>

definition tx_error :: "transaction \<Rightarrow> error_code" where
  "tx_error t =
    (let ec = success;
         ec = (if is_rolled_back t then stream_error Transaction_Rolled_Back else ec)
     in if is_committed t then stream_error Transaction_Committed else ec)"

definition tx_async_commit :: "transaction \<Rightarrow> 'e tx_effect \<times> transaction" where
  "tx_async_commit t =
    (let ec = tx_error t in
     if failed ec then (Post_Error ec, t)
     else (let t = t\<lparr>is_committed := True\<rparr> in (Commit_Operation (transaction_id t), t)))"

definition tx_async_write :: "'e list \<Rightarrow> transaction \<Rightarrow> 'e tx_effect \<times> transaction" where
  "tx_async_write events t =
    (let ec = tx_error t in
     if failed ec then (Post_Error ec, t)
     else (Write_Operation (transaction_id t) events, t))"

definition tx_rollback :: "transaction \<Rightarrow> 'e tx_effect \<times> transaction" where
  "tx_rollback t =
    (if is_committed t then (Returned (stream_error Transaction_Committed), t)
     else (Returned success, t\<lparr>is_rolled_back := True\<rparr>))"

datatype 'e tx_call = Commit | Write "'e list" | Rollback

fun tx_step :: "'e tx_call \<Rightarrow> transaction \<Rightarrow> 'e tx_effect \<times> transaction" where
  "tx_step Commit t = tx_async_commit t"
| "tx_step (Write es) t = tx_async_write es t"
| "tx_step Rollback t = tx_rollback t"

fun tx_run :: "'e tx_call list \<Rightarrow> transaction \<Rightarrow> 'e tx_effect list" where
  "tx_run [] t = []"
| "tx_run (c # cs) t = fst (tx_step c t) # tx_run cs (snd (tx_step c t))"

section \<open>async_start_transaction, async_transactional_write, async_commit_transaction\<close>

definition start_transaction_request ::
  "(transaction_start \<Rightarrow> string) \<Rightarrow> user_credentials \<Rightarrow> bool \<Rightarrow> guid \<Rightarrow> string \<Rightarrow> int \<Rightarrow> tcp_package option"
where
  "start_transaction_request serialize creds require_master corr_id stream expected_version =
    (let request = \<lparr>ts_event_stream_id = stream, ts_expected_version = expected_version,
           ts_require_master = require_master\<rparr>
     in request_package Transaction_Start_Command creds corr_id (to_bytes (serialize request)))"

definition start_reply ::
  "(bytes \<Rightarrow> transaction_start_completed) \<Rightarrow> error_code \<Rightarrow> bytes \<Rightarrow> transaction option completion option"
where
  "start_reply parse ec m =
    (let response = parse m; ec = delete_switch (tsc_result response) ec in
     Some (if \<not> failed ec then Called ec (Some (mk_transaction (tsc_transaction_id response)))
           else Called ec None))"

definition start_transaction_response ::
  "(bytes \<Rightarrow> transaction_start_completed) \<Rightarrow> error_code \<Rightarrow> tcp_package_view \<Rightarrow> transaction option completion option"
where
  "start_transaction_response parse ec v = handle_response None (start_reply parse)
     (check_command Transaction_Start_Completed_Command ec v) v"

interpretation start_op: response_handler "start_transaction_response parse"
    Transaction_Start_Completed_Command None "start_reply parse" for parse
  by (rule response_handler_intro) (simp add: start_transaction_response_def)

definition transactional_write_request ::
  "(transaction_write \<Rightarrow> string) \<Rightarrow> user_credentials \<Rightarrow> bool \<Rightarrow> guid \<Rightarrow> int \<Rightarrow> event_data list \<Rightarrow> tcp_package option"
where
  "transactional_write_request serialize creds require_master corr_id t events =
    (let request = \<lparr>tw_transaction_id = t, tw_events = map new_event_of events,
           tw_require_master = require_master\<rparr>
     in request_package Transaction_Write_Command creds corr_id (to_bytes (serialize request)))"

fun transactional_write_switch :: "operation_result \<Rightarrow> error_code \<Rightarrow> error_code" where
  "transactional_write_switch OR_Success ec = ec"
| "transactional_write_switch OR_PrepareTimeout ec = ec"
| "transactional_write_switch OR_CommitTimeout ec = ec"
| "transactional_write_switch OR_ForwardTimeout ec = ec"
| "transactional_write_switch OR_AccessDenied ec = stream_error Stream_Access_Denied"
| "transactional_write_switch _ ec = communication_error Unexpected_Response"

text \<open>The handler takes the code only.\<close>

definition transactional_write_reply ::
  "(bytes \<Rightarrow> transaction_write_completed) \<Rightarrow> error_code \<Rightarrow> bytes \<Rightarrow> unit completion option"
where
  "transactional_write_reply parse ec m =
     Some (Called (transactional_write_switch (twc_result (parse m)) ec) ())"

definition transactional_write_response ::
  "(bytes \<Rightarrow> transaction_write_completed) \<Rightarrow> error_code \<Rightarrow> tcp_package_view \<Rightarrow> unit completion option"
where
  "transactional_write_response parse ec v = handle_response () (transactional_write_reply parse)
     (check_command Transaction_Write_Completed_Command ec v) v"

interpretation transactional_write_op: response_handler "transactional_write_response parse"
    Transaction_Write_Completed_Command "()" "transactional_write_reply parse" for parse
  by (rule response_handler_intro) (simp add: transactional_write_response_def)

definition commit_transaction_request ::
  "(transaction_commit \<Rightarrow> string) \<Rightarrow> user_credentials \<Rightarrow> bool \<Rightarrow> guid \<Rightarrow> int \<Rightarrow> tcp_package option"
where
  "commit_transaction_request serialize creds require_master corr_id t =
    (let request = \<lparr>tc_transaction_id = t, tc_require_master = require_master\<rparr>
     in request_package Transaction_Commit_Command creds corr_id (to_bytes (serialize request)))"

definition commit_reply ::
  "(bytes \<Rightarrow> transaction_commit_completed) \<Rightarrow> error_code \<Rightarrow> bytes \<Rightarrow> write_result option completion option"
where
  "commit_reply parse ec m =
    (let response = parse m in
     case append_switch Wrong_Expected_Version (tcc_result response) ec of
       None \<Rightarrow> Some Not_called
     | Some ec \<Rightarrow> Some (if \<not> failed ec
         then (let prepare_position = optional_position (tcc_prepare_position response);
                   commit_position = optional_position (tcc_commit_position response)
               in Called ec (Some \<lparr>next_expected_version = tcc_last_event_number response,
                                   wr_log_position = Position prepare_position commit_position\<rparr>))
         else Called ec None))"

definition commit_transaction_response ::
  "(bytes \<Rightarrow> transaction_commit_completed) \<Rightarrow> error_code \<Rightarrow> tcp_package_view \<Rightarrow> write_result option completion option"
where
  "commit_transaction_response parse ec v = handle_response None (commit_reply parse)
     (check_command Transaction_Commit_Completed_Command ec v) v"

interpretation commit_op: response_handler "commit_transaction_response parse"
    Transaction_Commit_Completed_Command None "commit_reply parse" for parse
  by (rule response_handler_intro) (simp add: commit_transaction_response_def)

section \<open>Lemmas\<close>

lemma delete_switch_failed_iff:
  "\<not> failed ec \<Longrightarrow> failed (delete_switch r ec) \<longleftrightarrow>
     r \<notin> {OR_Success, OR_PrepareTimeout, OR_CommitTimeout, OR_ForwardTimeout}"
  by (cases r) auto

lemma append_switch_None_iff:
  "append_switch w r ec = None \<longleftrightarrow> r \<in> {OR_PrepareTimeout, OR_CommitTimeout, OR_ForwardTimeout}"
  by (cases r) auto

lemma append_switch_Some:
  "append_switch w r ec = Some ec' \<Longrightarrow> \<not> failed ec \<Longrightarrow> (if r = OR_Success then ec' = ec else failed ec')"
  by (cases r) auto

text \<open>The lifetime of a transaction object.\<close>

lemma tx_run_committed:
  "is_committed t \<Longrightarrow> set (tx_run cs t) \<subseteq>
     {Post_Error (stream_error Transaction_Committed), Returned (stream_error Transaction_Committed)}"
proof (induction cs)
  case (Cons c cs)
  then have "snd (tx_step c t) = t" "fst (tx_step c t) \<in>
      {Post_Error (stream_error Transaction_Committed), Returned (stream_error Transaction_Committed)}"
    by (cases c; simp add: tx_async_commit_def tx_async_write_def tx_rollback_def tx_error_def)+
  with Cons show ?case
    by auto
qed simp

lemma tx_run_rolled_back:
  "is_rolled_back t \<Longrightarrow> \<not> is_committed t \<Longrightarrow> set (tx_run cs t) \<subseteq>
     {Post_Error (stream_error Transaction_Rolled_Back), Returned success}"
proof (induction cs)
  case (Cons c cs)
  then have "snd (tx_step c t) = t" "fst (tx_step c t) \<in>
      {Post_Error (stream_error Transaction_Rolled_Back), Returned success}"
    by (cases c; simp add: tx_async_commit_def tx_async_write_def tx_rollback_def tx_error_def)+
  with Cons show ?case
    by auto
qed simp

lemma tx_step_effects:
  assumes "tx_step c t = (e, t')"
  shows "e = Commit_Operation u \<Longrightarrow> is_committed t' \<and> u = transaction_id t"
    and "e = Returned success \<Longrightarrow> is_rolled_back t' \<and> \<not> is_committed t'"
    and "e = Write_Operation u es \<Longrightarrow> u = transaction_id t"
    and "transaction_id t' = transaction_id t"
proof -
  have ne: "stream_error Transaction_Committed \<noteq> success"
    by (metis failed_stream not_failed_success)
  show "e = Commit_Operation u \<Longrightarrow> is_committed t' \<and> u = transaction_id t"
    "e = Returned success \<Longrightarrow> is_rolled_back t' \<and> \<not> is_committed t'"
    "e = Write_Operation u es \<Longrightarrow> u = transaction_id t"
    "transaction_id t' = transaction_id t"
    using assms ne
    by (cases c; force simp: tx_async_commit_def tx_async_write_def tx_rollback_def Let_def split: if_splits)+
qed

lemma tx_run_split:
  "tx_run cs t = xs @ e # ys \<Longrightarrow>
     \<exists>c t1 t2 cs2. tx_step c t1 = (e, t2) \<and> ys = tx_run cs2 t2 \<and> transaction_id t1 = transaction_id t"
proof (induction cs arbitrary: t xs)
  case (Cons c cs)
  obtain e1 t1 where s: "tx_step c t = (e1, t1)"
    by fastforce
  then have run: "tx_run (c # cs) t = e1 # tx_run cs t1" and id: "transaction_id t1 = transaction_id t"
    by (auto dest: tx_step_effects(4))
  show ?case
  proof (cases xs)
    case Nil
    with Cons.prems run s show ?thesis
      by auto
  next
    case (Cons x xs')
    with Cons.prems run Cons.IH [of t1 xs'] id show ?thesis
      by auto
  qed
qed simp

section \<open>Properties\<close>

text \<open>A reported success.\<close>

lemma append_success:
  assumes "view_command v = Some Write_Events_Completed_Command" and "view_message v = Some m"
    and "wec_result (parse m) = OR_Success"
  shows "append_response parse success v = Some (Called success (Some \<lparr>next_expected_version = wec_last_event_number (parse m),
    wr_log_position = Position (optional_position (wec_prepare_position (parse m)))
      (optional_position (wec_commit_position (parse m)))\<rparr>))"
  using append_op.replies [OF not_failed_success assms(1,2), of parse] assms(3)
  by (simp add: append_reply_def Let_def)

text \<open>C23: the outcome of an append, when the answer has the right command.  The user's handler gets a
  result exactly when the server reports success, and then the next expected version is the number
  of the last event written; a failure is reported with an error code and no result; and the
  handler is never called at all exactly when the server reports one of its three timeouts.  The
  positions of the result are exchanged: what it shows as the commit position is the prepare position
  of the response.\<close>

theorem append_outcomes:
  assumes "view_command v = Some Write_Events_Completed_Command" and "view_message v = Some m"
    and "parse m = r"
  shows "\<exists>c. append_response parse success v = Some c \<and>
    (c = Not_called \<longleftrightarrow> wec_result r \<in> {OR_PrepareTimeout, OR_CommitTimeout, OR_ForwardTimeout}) \<and>
    (\<forall>ec. c = Called ec None \<longrightarrow> failed ec) \<and>
    (\<forall>ec w. c = Called ec (Some w) \<longleftrightarrow> wec_result r = OR_Success \<and> ec = success \<and>
       next_expected_version w = wec_last_event_number r \<and>
       commit_position (wr_log_position w) = optional_position (wec_prepare_position r) \<and>
       prepare_position (wr_log_position w) = optional_position (wec_commit_position r))"
proof -
  have "append_response parse success v = append_reply Wrong_Expected_Version parse success m"
    using append_op.replies [OF not_failed_success assms(1,2)] .
  moreover have "\<lparr>next_expected_version = a, wr_log_position = Position b c\<rparr> = w \<longleftrightarrow>
      next_expected_version w = a \<and> commit_position (wr_log_position w) = b \<and>
      prepare_position (wr_log_position w) = c" for w :: write_result and a b c
    by (cases w) (auto intro: position.expand)
  ultimately show ?thesis
    using assms(3) by (cases "wec_result r") (auto simp: append_reply_def Let_def)
qed

definition sample_response :: bytes where
  "sample_response = [18, 0, 0, 0, 0x83, 0] @ replicate 16 7"

lemma sample_response_view:
  "view_command (frame_view sample_response 22) = Some Write_Events_Completed_Command"
  "view_message (frame_view sample_response 22) = Some []"
proof -
  have ok: "frame_ok sample_response 22"
    by (simp add: frame_ok_def sample_response_def flags_authenticated_def)
  have "command_of 0x83 = Write_Events_Completed_Command"
    using command_of_code [of Write_Events_Completed_Command] by (simp add: is_named_def)
  then show "view_command (frame_view sample_response 22) = Some Write_Events_Completed_Command"
    using frame_view_command [OF ok] by (simp add: sample_response_def)
  show "view_message (frame_view sample_response 22) = Some []"
    using frame_view_message [OF ok] by (simp add: sample_response_def body_offset_def flags_authenticated_def)
qed

definition sample_written :: "operation_result \<Rightarrow> write_events_completed" where
  "sample_written r = \<lparr>wec_result = r, wec_first_event_number = 3, wec_last_event_number = 4,
     wec_prepare_position = Some 10, wec_commit_position = Some 20\<rparr>"

theorem append_outcomes_witness:
  "\<exists>w. append_response (\<lambda>_. sample_written OR_Success) success (frame_view sample_response 22) =
     Some (Called success (Some w)) \<and> next_expected_version w = 4 \<and> commit_position (wr_log_position w) = 10"
proof -
  from append_outcomes [OF sample_response_view, of "\<lambda>_. sample_written OR_Success", OF refl]
  obtain c where c: "append_response (\<lambda>_. sample_written OR_Success) success (frame_view sample_response 22) = Some c"
      "\<forall>w. c = Called success (Some w) \<longleftrightarrow> next_expected_version w = 4 \<and>
         commit_position (wr_log_position w) = 10 \<and> prepare_position (wr_log_position w) = 20"
    by (auto simp: sample_written_def optional_position_def)
  then show ?thesis
    by (intro exI [of _ "\<lparr>next_expected_version = 4, wr_log_position = Position 10 20\<rparr>"]) simp
qed

definition as_conditional :: "'r completion \<Rightarrow> 'r completion" where
  "as_conditional c = (case c of Not_called \<Rightarrow> Not_called
     | Called ec r \<Rightarrow> Called (if ec = stream_error Wrong_Expected_Version then stream_error Version_Mismatch else ec) r)"

text \<open>C40: a conditional append sends the same frame as an append and completes in the same way, with
  one difference: where the append reports a wrong expected version, it reports a version mismatch.  The expected version is
  taken as the unbounded integer that the caller passes; its parameter is a \<open>long\<close> here, of 32 bits on Windows.\<close>

theorem conditional_append_refines_append:
  assumes "ec \<noteq> stream_error Wrong_Expected_Version"
  shows "conditional_append_request serialize creds rm corr_id stream events ver =
      append_request serialize creds rm corr_id stream events ver \<and>
    conditional_append_response parse ec v = map_option as_conditional (append_response parse ec v)"
proof -
  have "append_reply Version_Mismatch parse e m = map_option as_conditional (append_reply Wrong_Expected_Version parse e m)"
    if "e \<noteq> stream_error Wrong_Expected_Version" for e m
    using that by (cases "wec_result (parse m)") (simp_all add: append_reply_def as_conditional_def Let_def)
  moreover have "e \<noteq> stream_error Wrong_Expected_Version"
    if "check_command Write_Events_Completed_Command ec v = Some e" for e
    using that assms by (auto simp: check_command_def split: if_splits Option.bind_splits)
  ultimately show ?thesis
    by (auto simp: conditional_append_request_def append_request_def conditional_append_response_def
        append_response_def handle_response_def as_conditional_def split: Option.bind_split)
qed

theorem conditional_append_refines_append_witness:
  "conditional_append_response (\<lambda>_. sample_written OR_WrongExpectedVersion) success (frame_view sample_response 22) =
     Some (Called (stream_error Version_Mismatch) None)"
proof -
  have "success \<noteq> stream_error Wrong_Expected_Version"
    by (metis failed_stream not_failed_success)
  from conditional_append_refines_append [OF this, of "\<lambda>_. []" credentials_default True "[]" "[]" "[]" 0]
  show ?thesis
    using append_op.replies [OF not_failed_success sample_response_view]
    by (simp add: append_reply_def sample_written_def as_conditional_def)
qed

text \<open>Three results of the server mean that it timed out.  Deleting a stream, starting a
  transaction and writing to one then report success to the user, with a result; an append and a
  commit report nothing: the user's handler is dropped.\<close>

theorem server_timeouts_are_hidden:
  assumes "r \<in> {OR_PrepareTimeout, OR_CommitTimeout, OR_ForwardTimeout}"
  shows "append_reply w (\<lambda>_. resp\<lparr>wec_result := r\<rparr>) ec m = Some Not_called \<and>
    commit_reply (\<lambda>_. cresp\<lparr>tcc_result := r\<rparr>) ec m = Some Not_called \<and>
    (\<exists>d. delete_reply (\<lambda>_. dresp\<lparr>dsc_result := r\<rparr>) success m = Some (Called success (Some d))) \<and>
    (\<exists>t. start_reply (\<lambda>_. sresp\<lparr>tsc_result := r\<rparr>) success m = Some (Called success (Some t))) \<and>
    transactional_write_reply (\<lambda>_. wresp\<lparr>twc_result := r\<rparr>) success m = Some (Called success ())"
  using assms
  by (auto simp: append_reply_def commit_reply_def delete_reply_def start_reply_def
      transactional_write_reply_def Let_def)

theorem server_timeouts_are_hidden_witness:
  "append_reply Wrong_Expected_Version (\<lambda>_. sample_written OR_CommitTimeout) success [] = Some Not_called"
  using server_timeouts_are_hidden [of OR_CommitTimeout Wrong_Expected_Version "sample_written OR_Success" success "[]"]
  by (simp add: sample_written_def)

text \<open>C24: the lifetime of a transaction object.  Every request it sends carries its id.  After a
  commit request, every later call is refused with \<open>transaction_committed\<close>, so that at most one commit
  and no write after it is sent; after a successful rollback, every commit and write is refused
  with \<open>transaction_rolled_back\<close>, and nothing is sent any more.\<close>

theorem transaction_lifetime:
  assumes "tx_run calls (mk_transaction t) = xs @ e # ys"
  shows "(e = Commit_Operation u \<longrightarrow> u = t \<and> set ys \<subseteq>
      {Post_Error (stream_error Transaction_Committed), Returned (stream_error Transaction_Committed)}) \<and>
    (e = Returned success \<longrightarrow> set ys \<subseteq>
      {Post_Error (stream_error Transaction_Rolled_Back), Returned success}) \<and>
    (e = Write_Operation u es \<longrightarrow> u = t)"
proof -
  obtain c t1 t2 cs2 where s: "tx_step c t1 = (e, t2)" "ys = tx_run cs2 t2" "transaction_id t1 = t"
    using tx_run_split [OF assms] by (auto simp: mk_transaction_def)
  then show ?thesis
    using tx_step_effects [OF s(1)] tx_run_committed [of t2 cs2] tx_run_rolled_back [of t2 cs2] by auto
qed

theorem transaction_lifetime_witness:
  "tx_run [Write [1 :: nat], Commit, Write [2], Rollback] (mk_transaction 5) =
     [Write_Operation 5 [1], Commit_Operation 5, Post_Error (stream_error Transaction_Committed),
      Returned (stream_error Transaction_Committed)] \<and>
   set [Post_Error (stream_error Transaction_Committed) :: nat tx_effect, Returned (stream_error Transaction_Committed)] \<subseteq>
      {Post_Error (stream_error Transaction_Committed), Returned (stream_error Transaction_Committed)}"
proof -
  have run: "tx_run [Write [1 :: nat], Commit, Write [2], Rollback] (mk_transaction 5) =
      [Write_Operation 5 [1]] @ Commit_Operation 5 # [Post_Error (stream_error Transaction_Committed),
       Returned (stream_error Transaction_Committed)]"
    by (simp add: mk_transaction_def tx_async_commit_def tx_async_write_def tx_rollback_def tx_error_def)
  from transaction_lifetime [OF run, of 5 "[]"] run show ?thesis
    by simp
qed

end
