(* ===== verification/Read_Operations.thy ===== *)
theory Read_Operations
  imports Request_Response
begin

text \<open>
  The operations that read: \<open>read_stream_event.hpp\<close>, \<open>read_stream_events.hpp\<close> with its forward and
  backward wrappers, \<open>read_all_events.hpp\<close> with its wrappers, and \<open>get_stream_metadata.hpp\<close>.  The
  requests and responses are \<open>static\<close> objects in the code; a request is cleared and filled and a
  response is parsed over on every call, so that no value survives from one call to the next.
\<close>

section \<open>async_read_stream_event\<close>

definition read_event_request ::
  "(read_event_msg \<Rightarrow> string) \<Rightarrow> user_credentials \<Rightarrow> bool \<Rightarrow> guid \<Rightarrow> string \<Rightarrow> int \<Rightarrow> bool \<Rightarrow> tcp_package option"
where
  "read_event_request serialize creds require_master corr_id stream number resolveLinkTos =
    (let request = \<lparr>rev_event_stream_id = stream, rev_event_number = number,
           rev_resolve_link_tos = resolveLinkTos, rev_require_master = require_master\<rparr>
     in request_package Read_Event_Command creds corr_id (to_bytes (serialize request)))"

text \<open>The \<open>switch\<close>: a status, or the error code that is set instead.\<close>

fun read_event_switch :: "read_event_result \<Rightarrow> error_code + event_read_status" where
  "read_event_switch RE_Success = Inr Read_Success"
| "read_event_switch RE_NotFound = Inr Read_Not_Found"
| "read_event_switch RE_NoStream = Inr Read_No_Stream"
| "read_event_switch RE_StreamDeleted = Inr Read_Stream_Deleted"
| "read_event_switch RE_Error = Inl (communication_error Server_Error)"
| "read_event_switch RE_AccessDenied = Inl (stream_error Stream_Access_Denied)"
| "read_event_switch (RE_Other r) = Inl (communication_error Unexpected_Response)"

definition read_event_reply ::
  "(bytes \<Rightarrow> read_event_completed) \<Rightarrow> string \<Rightarrow> int \<Rightarrow> error_code \<Rightarrow> bytes \<Rightarrow> event_read_result option completion option"
where
  "read_event_reply parse stream number ec m =
    (let response = parse m in
     case read_event_switch (rec_result response) of
       Inl ec \<Rightarrow> Some (Called ec None)
     | Inr status \<Rightarrow> do {
         result \<leftarrow> mk_event_read_result status stream number (rec_event response);
         Some (Called ec (Some result)) })"

definition read_event_response ::
  "(bytes \<Rightarrow> read_event_completed) \<Rightarrow> string \<Rightarrow> int \<Rightarrow> error_code \<Rightarrow> tcp_package_view \<Rightarrow>
     event_read_result option completion option"
where
  "read_event_response parse stream number ec v = handle_response None (read_event_reply parse stream number)
     (check_command Read_Event_Completed_Command ec v) v"

interpretation read_event_op: response_handler "read_event_response parse stream number"
    Read_Event_Completed_Command None "read_event_reply parse stream number" for parse stream number
  by (rule response_handler_intro) (simp add: read_event_response_def)

section \<open>async_read_stream_events\<close>

definition read_stream_events_request ::
  "(read_stream_events_msg \<Rightarrow> string) \<Rightarrow> user_credentials \<Rightarrow> bool \<Rightarrow> guid \<Rightarrow> string \<Rightarrow> read_direction \<Rightarrow> int \<Rightarrow> int \<Rightarrow>
     bool \<Rightarrow> tcp_package option"
where
  "read_stream_events_request serialize creds require_master corr_id stream direction from_number max_count
      resolve_link_tos =
    (let request = \<lparr>rse_event_stream_id = stream, rse_from_event_number = from_number,
           rse_max_count = max_count, rse_resolve_link_tos = resolve_link_tos,
           rse_require_master = require_master\<rparr>;
         command = (if direction = Forward then Read_Stream_Events_Forward_Command
                    else Read_Stream_Events_Backward_Command)
     in request_package command creds corr_id (to_bytes (serialize request)))"

fun read_stream_switch :: "read_stream_result \<Rightarrow> error_code \<Rightarrow> error_code" where
  "read_stream_switch RS_Success ec = ec"
| "read_stream_switch RS_StreamDeleted ec = stream_error Stream_Deleted"
| "read_stream_switch RS_NoStream ec = stream_error Stream_Not_Found"
| "read_stream_switch RS_Error ec = communication_error Server_Error"
| "read_stream_switch RS_AccessDenied ec = stream_error Stream_Access_Denied"
| "read_stream_switch RS_NotModified ec = communication_error Unexpected_Response"
| "read_stream_switch (RS_Other r) ec = communication_error Unexpected_Response"

definition read_stream_events_reply ::
  "(bytes \<Rightarrow> read_stream_events_completed) \<Rightarrow> string \<Rightarrow> int \<Rightarrow> read_direction \<Rightarrow> error_code \<Rightarrow> bytes \<Rightarrow>
     stream_events_slice option completion option"
where
  "read_stream_events_reply parse stream from_number direction ec m =
    (let response = parse m; ec = read_stream_switch (rsc_result response) ec in
     if \<not> failed ec
     then do {
       result \<leftarrow> mk_stream_events_slice stream from_number direction response;
       Some (Called ec (Some result)) }
     else Some (Called ec None))"

definition read_stream_events_response ::
  "(bytes \<Rightarrow> read_stream_events_completed) \<Rightarrow> string \<Rightarrow> int \<Rightarrow> read_direction \<Rightarrow> error_code \<Rightarrow> tcp_package_view \<Rightarrow>
     stream_events_slice option completion option"
where
  "read_stream_events_response parse stream from_number direction ec v =
     handle_response None (read_stream_events_reply parse stream from_number direction)
       (check_direction Read_Stream_Events_Forward_Completed_Command
          Read_Stream_Events_Backward_Completed_Command direction ec v) v"

interpretation read_stream_op: response_handler "read_stream_events_response parse stream from_number direction"
    "if direction = Forward then Read_Stream_Events_Forward_Completed_Command
     else Read_Stream_Events_Backward_Completed_Command"
    None "read_stream_events_reply parse stream from_number direction" for parse stream from_number direction
  by (rule response_handler_intro) (simp only: read_stream_events_response_def check_direction_eq)

definition read_stream_events_forward_request ::
  "(read_stream_events_msg \<Rightarrow> string) \<Rightarrow> user_credentials \<Rightarrow> bool \<Rightarrow> guid \<Rightarrow> string \<Rightarrow> int \<Rightarrow> int \<Rightarrow> bool \<Rightarrow> tcp_package option"
where
  "read_stream_events_forward_request serialize creds require_master corr_id stream from_number max_count resolve_link_tos =
     read_stream_events_request serialize creds require_master corr_id stream Forward from_number max_count resolve_link_tos"

definition read_stream_events_backward_request ::
  "(read_stream_events_msg \<Rightarrow> string) \<Rightarrow> user_credentials \<Rightarrow> bool \<Rightarrow> guid \<Rightarrow> string \<Rightarrow> int \<Rightarrow> int \<Rightarrow> bool \<Rightarrow> tcp_package option"
where
  "read_stream_events_backward_request serialize creds require_master corr_id stream from_number max_count resolve_link_tos =
     read_stream_events_request serialize creds require_master corr_id stream Backward from_number max_count resolve_link_tos"

section \<open>async_read_all_events\<close>

definition read_all_events_request ::
  "(read_all_events_msg \<Rightarrow> string) \<Rightarrow> user_credentials \<Rightarrow> bool \<Rightarrow> guid \<Rightarrow> read_direction \<Rightarrow> position \<Rightarrow> int \<Rightarrow> bool \<Rightarrow>
     tcp_package option"
where
  "read_all_events_request serialize creds require_master corr_id direction from_position max_count resolve_link_tos =
    (let request = \<lparr>rae_commit_position = commit_position from_position,
           rae_prepare_position = prepare_position from_position, rae_max_count = max_count,
           rae_resolve_link_tos = resolve_link_tos, rae_require_master = require_master\<rparr>;
         command = (if direction = Forward then Read_All_Events_Forward_Command
                    else Read_All_Events_Backward_Command)
     in request_package command creds corr_id (to_bytes (serialize request)))"

fun read_all_switch :: "read_all_result \<Rightarrow> error_code \<Rightarrow> error_code" where
  "read_all_switch RA_Success ec = ec"
| "read_all_switch RA_Error ec = communication_error Server_Error"
| "read_all_switch RA_AccessDenied ec = stream_error Stream_Access_Denied"
| "read_all_switch RA_NotModified ec = communication_error Unexpected_Response"
| "read_all_switch (RA_Other r) ec = communication_error Unexpected_Response"

definition read_all_events_reply ::
  "(bytes \<Rightarrow> read_all_events_completed) \<Rightarrow> read_direction \<Rightarrow> error_code \<Rightarrow> bytes \<Rightarrow> all_events_slice option completion option"
where
  "read_all_events_reply parse direction ec m =
    (let response = parse m; ec = read_all_switch (rac_result response) ec in
     if \<not> failed ec
     then do {
       result \<leftarrow> mk_all_events_slice direction response;
       Some (Called ec (Some result)) }
     else Some (Called ec None))"

definition read_all_events_response ::
  "(bytes \<Rightarrow> read_all_events_completed) \<Rightarrow> read_direction \<Rightarrow> error_code \<Rightarrow> tcp_package_view \<Rightarrow>
     all_events_slice option completion option"
where
  "read_all_events_response parse direction ec v =
     handle_response None (read_all_events_reply parse direction)
       (check_direction Read_All_Events_Forward_Completed_Command
          Read_All_Events_Backward_Completed_Command direction ec v) v"

interpretation read_all_op: response_handler "read_all_events_response parse direction"
    "if direction = Forward then Read_All_Events_Forward_Completed_Command
     else Read_All_Events_Backward_Completed_Command"
    None "read_all_events_reply parse direction" for parse direction
  by (rule response_handler_intro) (simp only: read_all_events_response_def check_direction_eq)

definition read_all_events_forward_request ::
  "(read_all_events_msg \<Rightarrow> string) \<Rightarrow> user_credentials \<Rightarrow> bool \<Rightarrow> guid \<Rightarrow> position \<Rightarrow> int \<Rightarrow> bool \<Rightarrow> tcp_package option"
where
  "read_all_events_forward_request serialize creds require_master corr_id from_position max_count resolve_link_tos =
     read_all_events_request serialize creds require_master corr_id Forward from_position max_count resolve_link_tos"

definition read_all_events_backward_request ::
  "(read_all_events_msg \<Rightarrow> string) \<Rightarrow> user_credentials \<Rightarrow> bool \<Rightarrow> guid \<Rightarrow> position \<Rightarrow> int \<Rightarrow> bool \<Rightarrow> tcp_package option"
where
  "read_all_events_backward_request serialize creds require_master corr_id from_position max_count resolve_link_tos =
     read_all_events_request serialize creds require_master corr_id Backward from_position max_count resolve_link_tos"

section \<open>async_get_stream_metadata\<close>

definition get_stream_metadata_request ::
  "(read_event_msg \<Rightarrow> string) \<Rightarrow> user_credentials \<Rightarrow> bool \<Rightarrow> guid \<Rightarrow> string \<Rightarrow> tcp_package option"
where
  "get_stream_metadata_request serialize creds require_master corr_id stream =
     read_event_request serialize creds require_master corr_id (meta_stream_of stream) (- 1) False"

text \<open>\<open>std::numeric_limits<std::int64_t>::max()\<close>.\<close>

definition int64_max :: int where
  "int64_max = 2 ^ 63 - 1"

text \<open>The handler passed to \<open>async_read_stream_event\<close>.  \<open>result.value()\<close> throws without a result.\<close>

definition on_metadata_event ::
  "string \<Rightarrow> error_code \<Rightarrow> event_read_result option \<Rightarrow> exn + stream_metadata_result_raw option completion"
where
  "on_metadata_event stream ec result =
    (if failed ec then Inr (Called ec None)
     else case result of None \<Rightarrow> Inl Bad_Optional_Access
     | Some rr \<Rightarrow>
       (case err_status rr of
          Read_Success \<Rightarrow>
            (case err_event rr of
               None \<Rightarrow> Inr (Called (communication_error Unexpected_Response) None)
             | Some e \<Rightarrow>
                 (case original_event e of
                    None \<Rightarrow> Inr (Called ec (Some \<lparr>md_stream = stream, md_is_stream_deleted = False,
                              md_meta_stream_version = - 1, md_stream_metadata = []\<rparr>))
                  | Some r \<Rightarrow> Inr (Called ec (Some \<lparr>md_stream = stream, md_is_stream_deleted = False,
                              md_meta_stream_version = event_number r, md_stream_metadata = content r\<rparr>))))
        | Read_Not_Found \<Rightarrow> Inr (Called ec (Some \<lparr>md_stream = stream, md_is_stream_deleted = False,
                              md_meta_stream_version = - 1, md_stream_metadata = []\<rparr>))
        | Read_No_Stream \<Rightarrow> Inr (Called ec (Some \<lparr>md_stream = stream, md_is_stream_deleted = False,
                              md_meta_stream_version = - 1, md_stream_metadata = []\<rparr>))
        | Read_Stream_Deleted \<Rightarrow> Inr (Called ec (Some \<lparr>md_stream = stream, md_is_stream_deleted = True,
                              md_meta_stream_version = int64_max, md_stream_metadata = []\<rparr>))))"

text \<open>The package handler of the whole operation: the read's handler, completing into it.\<close>

definition get_stream_metadata_response ::
  "(bytes \<Rightarrow> read_event_completed) \<Rightarrow> string \<Rightarrow> error_code \<Rightarrow> tcp_package_view \<Rightarrow>
     (exn + stream_metadata_result_raw option completion) option"
where
  "get_stream_metadata_response parse stream ec v = do {
     c \<leftarrow> read_event_response parse (meta_stream_of stream) (- 1) ec v;
     Some (case c of Not_called \<Rightarrow> Inr Not_called | Called ec r \<Rightarrow> on_metadata_event stream ec r) }"

section \<open>Lemmas\<close>

lemma read_event_reply_Some:
  "read_event_reply parse stream number ec m = Some c \<Longrightarrow> \<not> failed ec \<Longrightarrow>
     (\<exists>e. failed e \<and> c = Called e None) \<or>
     (\<exists>rr. c = Called ec (Some rr) \<and> (err_event rr \<noteq> None \<longleftrightarrow> err_status rr = Read_Success))"
  by (cases "rec_result (parse m)")
     (auto simp: read_event_reply_def mk_event_read_result_def split: Option.bind_splits)

lemma read_event_response_shape:
  assumes "read_event_response parse stream number ec v = Some c"
  shows "(\<exists>e. failed e \<and> c = Called e None) \<or>
    (\<exists>rr. c = Called ec (Some rr) \<and> \<not> failed ec \<and> (err_event rr \<noteq> None \<longleftrightarrow> err_status rr = Read_Success))"
proof (cases "failed ec")
  case True
  then show ?thesis
    using assms read_event_op.forwards_error [OF True] by auto
next
  case False
  obtain e where e: "check_command Read_Event_Completed_Command ec v = Some e"
    using assms by (auto simp: read_event_response_def handle_response_def split: Option.bind_splits)
  then have "failed e \<or> e = ec"
    using False by (auto simp: check_command_def split: if_splits Option.bind_splits)
  then show ?thesis
    using assms e False read_event_reply_Some [OF _ False]
    by (auto simp: read_event_response_def handle_response_def split: if_splits Option.bind_splits)
qed

section \<open>Properties\<close>

text \<open>Reading the metadata of a stream always completes.  Whenever the package handler is defined,
  no exception is thrown and the user's handler is called exactly once, either with a failure code
  and no result, or with the code it got and a result.  A stream without metadata has version -1 and
  empty metadata, a deleted one the greatest version; only a found event yields its number and
  content.\<close>

theorem get_stream_metadata_completes:
  assumes "get_stream_metadata_response parse stream ec v = Some c"
  shows "(\<exists>e. failed e \<and> c = Inr (Called e None)) \<or>
    (\<exists>r. \<not> failed ec \<and> c = Inr (Called ec (Some r)) \<and> md_stream r = stream \<and>
       (md_is_stream_deleted r \<longrightarrow> md_meta_stream_version r = int64_max \<and> md_stream_metadata r = []))"
proof -
  obtain c' where c': "read_event_response parse (meta_stream_of stream) (- 1) ec v = Some c'"
      "c = (case c' of Not_called \<Rightarrow> Inr Not_called | Called ec r \<Rightarrow> on_metadata_event stream ec r)"
    using assms by (auto simp: get_stream_metadata_response_def split: Option.bind_splits)
  from read_event_response_shape [OF c'(1)] show ?thesis
  proof (elim disjE exE conjE)
    fix e
    assume "failed e" "c' = Called e None"
    then show ?thesis
      using c'(2) by (simp add: on_metadata_event_def)
  next
    fix rr
    assume rr: "c' = Called ec (Some rr)" "\<not> failed ec" "(err_event rr \<noteq> None) = (err_status rr = Read_Success)"
    then show ?thesis
      using c'(2)
      by (cases "err_status rr") (auto simp: on_metadata_event_def split: option.splits)
  qed
qed

definition sample_read_frame :: bytes where
  "sample_read_frame = [18, 0, 0, 0, 0xB1, 0] @ replicate 16 7"

lemma sample_read_view:
  "view_command (frame_view sample_read_frame 22) = Some Read_Event_Completed_Command"
  "view_message (frame_view sample_read_frame 22) = Some []"
proof -
  have ok: "frame_ok sample_read_frame 22"
    by (simp add: frame_ok_def sample_read_frame_def flags_authenticated_def)
  have "command_of 0xB1 = Read_Event_Completed_Command"
    using command_of_code [of Read_Event_Completed_Command] by (simp add: is_named_def)
  then show "view_command (frame_view sample_read_frame 22) = Some Read_Event_Completed_Command"
    using frame_view_command [OF ok] by (simp add: sample_read_frame_def)
  show "view_message (frame_view sample_read_frame 22) = Some []"
    using frame_view_message [OF ok] by (simp add: sample_read_frame_def body_offset_def flags_authenticated_def)
qed

definition sample_deleted :: read_event_completed where
  "sample_deleted = \<lparr>rec_result = RE_StreamDeleted, rec_event = \<lparr>ri_event = None, ri_link = None\<rparr>, rec_error = None\<rparr>"

theorem get_stream_metadata_completes_witness:
  "\<exists>r. get_stream_metadata_response (\<lambda>_. sample_deleted) ''s'' success (frame_view sample_read_frame 22) =
      Some (Inr (Called success (Some r))) \<and> md_meta_stream_version r = int64_max"
proof -
  have "get_stream_metadata_response (\<lambda>_. sample_deleted) ''s'' success (frame_view sample_read_frame 22) =
      Some (Inr (Called success (Some \<lparr>md_stream = ''s'', md_is_stream_deleted = True,
        md_meta_stream_version = int64_max, md_stream_metadata = []\<rparr>)))"
    using read_event_op.replies [OF not_failed_success sample_read_view]
    by (simp add: get_stream_metadata_response_def read_event_reply_def sample_deleted_def
        mk_event_read_result_def on_metadata_event_def)
  with get_stream_metadata_completes [OF this] show ?thesis
    by auto
qed

text \<open>The outcome of reading a slice of a stream.  An answer to the other direction is rejected;
  the slice is handed over exactly when the server reports success, and it is the slice built from
  the response for the requested stream, start and direction; any other result is a failure code,
  and the user's handler is called in every case in which the slice can be built.\<close>

theorem read_stream_events_outcomes:
  assumes "view_command v = Some c" and "view_message v = Some m" and "parse m = r"
    and "completed = (if d = Forward then Read_Stream_Events_Forward_Completed_Command
            else Read_Stream_Events_Backward_Completed_Command)"
  shows "read_stream_events_response parse s n d success v =
    (if c \<noteq> completed then Some (Called (communication_error Unexpected_Response) None)
     else if rsc_result r = RS_Success
       then map_option (\<lambda>sl. Called success (Some sl)) (mk_stream_events_slice s n d r)
     else Some (Called (read_stream_switch (rsc_result r) success) None)) \<and>
    (rsc_result r \<noteq> RS_Success \<longrightarrow> failed (read_stream_switch (rsc_result r) success))"
proof (cases "c = completed")
  case True
  then have "read_stream_events_response parse s n d success v = read_stream_events_reply parse s n d success m"
    using read_stream_op.replies [where stream = s and from_number = n and direction = d and ec = success and v = v and m = m]
      assms by simp
  then show ?thesis
    using True assms(3)
    by (cases "rsc_result r") (auto simp: read_stream_events_reply_def Let_def map_option_case
        split: Option.bind_split)
next
  case False
  then have "read_stream_events_response parse s n d success v =
      Some (Called (communication_error Unexpected_Response) None)"
    using read_stream_op.rejects_command [where stream = s and from_number = n and direction = d and ec = success and v = v]
      assms by simp
  then show ?thesis
    using False by (cases "rsc_result r") auto
qed

theorem read_stream_events_outcomes_witness:
  "read_stream_events_response (\<lambda>_. \<lparr>rsc_events = [], rsc_result = RS_Success, rsc_next_event_number = 0,
      rsc_last_event_number = 0, rsc_is_end_of_stream = True, rsc_last_commit_position = 0, rsc_error = None\<rparr>)
      ''s'' 0 Forward success (frame_view sample_read_frame 22) =
    Some (Called (communication_error Unexpected_Response) None)"
  using read_stream_events_outcomes [OF sample_read_view, where d = Forward] by simp

end
