(* ===== verification/Persistent_Admin.thy ===== *)
theory Persistent_Admin
  imports Request_Response
begin

text \<open>
  Managing persistent subscriptions: \<open>create_persistent_subscription.hpp\<close>,
  \<open>update_persistent_subscription.hpp\<close> and \<open>delete_persistent_subscription.hpp\<close>.  The user's handler takes
  the code and a reason, the empty string when the server gives none or the request failed before
  an answer.
\<close>

section \<open>The requests\<close>

text \<open>The message is filled the same way for creation and update.  Reading \<open>settings.start_from()\<close> is
  undefined while the builder has not set it.\<close>

definition persistent_message ::
  "persistent_subscription_settings \<Rightarrow> string \<Rightarrow> string \<Rightarrow> persistent_subscription_msg option"
where
  "persistent_message settings stream grp = do {
     from \<leftarrow> pss_start_from settings;
     Some \<lparr>ps_subscription_group_name = grp, ps_event_stream_id = stream,
       ps_resolve_link_tos = pss_resolve_link_tos settings, ps_start_from = from,
       ps_message_timeout_milliseconds = int32_of (milliseconds_of_ns (pss_message_timeout settings)),
       ps_record_statistics = pss_extra_statistics settings,
       ps_live_buffer_size = pss_live_buffer_size settings,
       ps_read_batch_size = pss_read_batch_size settings,
       ps_buffer_size = pss_history_buffer_size settings,
       ps_max_retry_count = pss_max_retry_count settings,
       ps_prefer_round_robin = (pss_named_consumer_strategy settings = round_robin),
       ps_checkpoint_after_time = int32_of (milliseconds_of_ns (pss_checkpoint_after settings)),
       ps_checkpoint_max_count = pss_max_checkpoint_count settings,
       ps_checkpoint_min_count = pss_min_checkpoint_count settings,
       ps_subscriber_max_count = pss_max_subscriber_count settings,
       ps_named_consumer_strategy = Some (pss_named_consumer_strategy settings)\<rparr> }"

definition create_persistent_request ::
  "(persistent_subscription_msg \<Rightarrow> string) \<Rightarrow> user_credentials \<Rightarrow> guid \<Rightarrow> string \<Rightarrow> string \<Rightarrow>
     persistent_subscription_settings \<Rightarrow> tcp_package option"
where
  "create_persistent_request serialize creds corr_id stream grp settings = do {
     request \<leftarrow> persistent_message settings stream grp;
     request_package Create_Persistent_Subscription_Command creds corr_id (to_bytes (serialize request)) }"

definition update_persistent_request ::
  "(persistent_subscription_msg \<Rightarrow> string) \<Rightarrow> user_credentials \<Rightarrow> guid \<Rightarrow> string \<Rightarrow> string \<Rightarrow>
     persistent_subscription_settings \<Rightarrow> tcp_package option"
where
  "update_persistent_request serialize creds corr_id stream grp settings = do {
     request \<leftarrow> persistent_message settings stream grp;
     request_package Update_Persistent_Subscription_Command creds corr_id (to_bytes (serialize request)) }"

definition delete_persistent_request ::
  "(delete_persistent_subscription_msg \<Rightarrow> string) \<Rightarrow> user_credentials \<Rightarrow> guid \<Rightarrow> string \<Rightarrow> string \<Rightarrow> tcp_package option"
where
  "delete_persistent_request serialize creds corr_id stream grp =
    (let request = \<lparr>dps_subscription_group_name = grp, dps_event_stream_id = stream\<rparr>
     in request_package Delete_Persistent_Subscription_Command creds corr_id (to_bytes (serialize request)))"

section \<open>The responses\<close>

text \<open>The completion messages have a result and an optional reason.\<close>

record 'result persistent_completed =
  pcm_result :: 'result
  pcm_reason :: "string option"

fun create_switch :: "create_persistent_result \<Rightarrow> error_code \<Rightarrow> error_code" where
  "create_switch CP_Success ec = ec"
| "create_switch CP_Fail ec = subscription_error Persistent_Subscription_Fail"
| "create_switch CP_AccessDenied ec = subscription_error Subscription_Access_Denied"
| "create_switch CP_AlreadyExists ec = subscription_error Persistent_Subscription_Already_Exists"
| "create_switch (CP_Other r) ec = communication_error Unexpected_Response"

fun update_switch :: "update_persistent_result \<Rightarrow> error_code \<Rightarrow> error_code" where
  "update_switch UP_Success ec = ec"
| "update_switch UP_Fail ec = subscription_error Persistent_Subscription_Fail"
| "update_switch UP_AccessDenied ec = subscription_error Subscription_Access_Denied"
| "update_switch UP_DoesNotExist ec = subscription_error Persistent_Subscription_Does_Not_Exist"
| "update_switch (UP_Other r) ec = communication_error Unexpected_Response"

fun delete_persistent_switch :: "delete_persistent_result \<Rightarrow> error_code \<Rightarrow> error_code" where
  "delete_persistent_switch DP_Success ec = ec"
| "delete_persistent_switch DP_Fail ec = subscription_error Persistent_Subscription_Fail"
| "delete_persistent_switch DP_AccessDenied ec = subscription_error Subscription_Access_Denied"
| "delete_persistent_switch DP_DoesNotExist ec = subscription_error Persistent_Subscription_Does_Not_Exist"
| "delete_persistent_switch (DP_Other r) ec = communication_error Unexpected_Response"

text \<open>\<open>handler(ec, response.has_reason() ? response.reason() : "")\<close>.\<close>

definition persistent_reply ::
  "('result \<Rightarrow> error_code \<Rightarrow> error_code) \<Rightarrow> (bytes \<Rightarrow> 'result persistent_completed) \<Rightarrow> error_code \<Rightarrow> bytes \<Rightarrow>
     string completion option"
where
  "persistent_reply switch parse ec m =
    (let response = parse m in
     Some (Called (switch (pcm_result response) ec)
       (case pcm_reason response of None \<Rightarrow> [] | Some reason \<Rightarrow> reason)))"

definition create_persistent_response ::
  "(bytes \<Rightarrow> create_persistent_result persistent_completed) \<Rightarrow> error_code \<Rightarrow> tcp_package_view \<Rightarrow> string completion option"
where
  "create_persistent_response parse ec v = handle_response [] (persistent_reply create_switch parse)
     (check_command Create_Persistent_Subscription_Completed_Command ec v) v"

definition update_persistent_response ::
  "(bytes \<Rightarrow> update_persistent_result persistent_completed) \<Rightarrow> error_code \<Rightarrow> tcp_package_view \<Rightarrow> string completion option"
where
  "update_persistent_response parse ec v = handle_response [] (persistent_reply update_switch parse)
     (check_command Update_Persistent_Subscription_Completed_Command ec v) v"

definition delete_persistent_response ::
  "(bytes \<Rightarrow> delete_persistent_result persistent_completed) \<Rightarrow> error_code \<Rightarrow> tcp_package_view \<Rightarrow> string completion option"
where
  "delete_persistent_response parse ec v = handle_response [] (persistent_reply delete_persistent_switch parse)
     (check_command Delete_Persistent_Subscription_Completed_Command ec v) v"

interpretation create_persistent_op: response_handler "create_persistent_response parse"
    Create_Persistent_Subscription_Completed_Command "[]" "persistent_reply create_switch parse" for parse
  by (rule response_handler_intro) (simp add: create_persistent_response_def)

interpretation update_persistent_op: response_handler "update_persistent_response parse"
    Update_Persistent_Subscription_Completed_Command "[]" "persistent_reply update_switch parse" for parse
  by (rule response_handler_intro) (simp add: update_persistent_response_def)

interpretation delete_persistent_op: response_handler "delete_persistent_response parse"
    Delete_Persistent_Subscription_Completed_Command "[]" "persistent_reply delete_persistent_switch parse" for parse
  by (rule response_handler_intro) (simp add: delete_persistent_response_def)

section \<open>Lemmas\<close>

lemma milliseconds_of_ns_bounds:
  assumes "0 \<le> n"
  shows "milliseconds_of_ns n * 1000000 \<le> n" "n < (milliseconds_of_ns n + 1) * 1000000" "0 \<le> milliseconds_of_ns n"
  using assms by (auto simp: milliseconds_of_ns_def)

lemma persistent_message_defined: "persistent_message s st g \<noteq> None \<longleftrightarrow> pss_start_from s \<noteq> None"
  by (cases "pss_start_from s") (simp_all add: persistent_message_def)

section \<open>Properties\<close>

text \<open>Creating a persistent subscription needs a start position that nothing guarantees.  With the
  settings of a fresh builder, whatever buffer sizes, counts, timeouts and strategy are then set,
  the request reads an indeterminate value; after \<open>start_from\<close>, \<open>start_from_beginning\<close> or
  \<open>start_from_current\<close> it carries that position, 0 or -1.\<close>

theorem persistent_start_position:
  "persistent_message (persistent_settings_default\<lparr>pss_resolve_link_tos := a, pss_extra_statistics := b,
      pss_message_timeout := t, pss_max_retry_count := r, pss_live_buffer_size := l, pss_history_buffer_size := h,
      pss_read_batch_size := k, pss_checkpoint_after := c, pss_min_checkpoint_count := mi,
      pss_max_checkpoint_count := ma, pss_max_subscriber_count := su, pss_named_consumer_strategy := n\<rparr>)
      stream grp = None \<and>
   map_option ps_start_from (persistent_message (start_from p s) stream grp) = Some p \<and>
   map_option ps_start_from (persistent_message (start_from_beginning s) stream grp) = Some 0 \<and>
   map_option ps_start_from (persistent_message (start_from_current s) stream grp) = Some (- 1)"
  by (simp add: persistent_message_def persistent_settings_default_def start_from_def start_from_beginning_def
      start_from_current_def)

text \<open>The message timeout of a persistent subscription.  The duration is rounded down to
  milliseconds and then narrowed to 32 bits without a check: a timeout from 0 to just under 2^31
  milliseconds (24 days) is transmitted as rounded, and the next millisecond on, the server is told a
  negative timeout.\<close>

theorem message_timeout_narrowed:
  assumes "persistent_message s stream grp = Some msg" and "0 \<le> pss_message_timeout s"
  shows "(pss_message_timeout s < 2 ^ 31 * 1000000 \<longrightarrow>
      ps_message_timeout_milliseconds msg = pss_message_timeout s div 1000000 \<and>
      0 \<le> ps_message_timeout_milliseconds msg) \<and>
    (pss_message_timeout s = 2 ^ 31 * 1000000 \<longrightarrow> ps_message_timeout_milliseconds msg = - (2 ^ 31))"
proof -
  have m: "ps_message_timeout_milliseconds msg = int32_of (pss_message_timeout s div 1000000)"
    using assms by (auto simp: persistent_message_def milliseconds_of_ns_def split: Option.bind_splits)
  have "int32_of (2 ^ 31) = - (2 ^ 31)"
    by (simp add: int32_of_def)
  moreover have "int32_of (pss_message_timeout s div 1000000) = pss_message_timeout s div 1000000"
    if "pss_message_timeout s < 2 ^ 31 * 1000000"
    using that assms(2) by (intro int32_of_id) auto
  ultimately show ?thesis
    using m assms(2) by (simp add: pos_imp_zdiv_nonneg_iff)
qed

theorem message_timeout_narrowed_witness:
  "\<exists>msg. persistent_message (with_message_timeout (2 ^ 31 * 1000000) (start_from 0 persistent_settings_default)) [] [] = Some msg \<and>
     ps_message_timeout_milliseconds msg = - (2 ^ 31)"
proof -
  let ?s = "with_message_timeout (2 ^ 31 * 1000000) (start_from 0 persistent_settings_default)"
  obtain msg where m: "persistent_message ?s [] [] = Some msg"
    using persistent_message_defined [of ?s "[]" "[]"]
    by (auto simp: with_message_timeout_def start_from_def)
  from message_timeout_narrowed [OF m] m show ?thesis
    by (simp add: with_message_timeout_def)
qed

text \<open>The outcome of managing a persistent subscription.  For the right answer, the user's handler is
  always called, with a success code exactly when the server reports success and with the server's
  reason.  Creating reports an existing subscription, updating and deleting a missing one.\<close>

theorem persistent_admin_outcomes:
  assumes "view_message v = Some m"
  shows "(view_command v = Some Create_Persistent_Subscription_Completed_Command \<longrightarrow>
      (\<exists>ec. create_persistent_response cparse success v = Some (Called ec (case pcm_reason (cparse m) of None \<Rightarrow> [] | Some r \<Rightarrow> r)) \<and>
        (failed ec \<longleftrightarrow> pcm_result (cparse m) \<noteq> CP_Success) \<and>
        (ec = subscription_error Persistent_Subscription_Already_Exists \<longleftrightarrow> pcm_result (cparse m) = CP_AlreadyExists))) \<and>
    (view_command v = Some Update_Persistent_Subscription_Completed_Command \<longrightarrow>
      (\<exists>ec. update_persistent_response uparse success v = Some (Called ec (case pcm_reason (uparse m) of None \<Rightarrow> [] | Some r \<Rightarrow> r)) \<and>
        (failed ec \<longleftrightarrow> pcm_result (uparse m) \<noteq> UP_Success) \<and>
        (ec = subscription_error Persistent_Subscription_Does_Not_Exist \<longleftrightarrow> pcm_result (uparse m) = UP_DoesNotExist))) \<and>
    (view_command v = Some Delete_Persistent_Subscription_Completed_Command \<longrightarrow>
      (\<exists>ec. delete_persistent_response dparse success v = Some (Called ec (case pcm_reason (dparse m) of None \<Rightarrow> [] | Some r \<Rightarrow> r)) \<and>
        (failed ec \<longleftrightarrow> pcm_result (dparse m) \<noteq> DP_Success) \<and>
        (ec = subscription_error Persistent_Subscription_Does_Not_Exist \<longleftrightarrow> pcm_result (dparse m) = DP_DoesNotExist)))"
proof -
  have s: "success \<noteq> subscription_error e" for e
    by (metis failed_subscription not_failed_success)
  have "(failed (create_switch r success) \<longleftrightarrow> r \<noteq> CP_Success) \<and>
      (create_switch r success = subscription_error Persistent_Subscription_Already_Exists \<longleftrightarrow> r = CP_AlreadyExists)" for r
    using s by (cases r) auto
  moreover have "(failed (update_switch r success) \<longleftrightarrow> r \<noteq> UP_Success) \<and>
      (update_switch r success = subscription_error Persistent_Subscription_Does_Not_Exist \<longleftrightarrow> r = UP_DoesNotExist)" for r
    using s by (cases r) auto
  moreover have "(failed (delete_persistent_switch r success) \<longleftrightarrow> r \<noteq> DP_Success) \<and>
      (delete_persistent_switch r success = subscription_error Persistent_Subscription_Does_Not_Exist \<longleftrightarrow> r = DP_DoesNotExist)" for r
    using s by (cases r) auto
  ultimately show ?thesis
    using create_persistent_op.replies [OF not_failed_success _ assms, of cparse]
      update_persistent_op.replies [OF not_failed_success _ assms, of uparse]
      delete_persistent_op.replies [OF not_failed_success _ assms, of dparse]
    by (auto simp: persistent_reply_def Let_def)
qed

definition sample_created_frame :: bytes where
  "sample_created_frame = [18, 0, 0, 0, 0xC9, 0] @ replicate 16 7"

theorem persistent_admin_outcomes_witness:
  "create_persistent_response (\<lambda>_. \<lparr>pcm_result = CP_AlreadyExists, pcm_reason = Some ''dup''\<rparr>) success
     (frame_view sample_created_frame 22) =
   Some (Called (subscription_error Persistent_Subscription_Already_Exists) ''dup'')"
proof -
  have ok: "frame_ok sample_created_frame 22"
    by (simp add: frame_ok_def sample_created_frame_def flags_authenticated_def)
  have m: "view_message (frame_view sample_created_frame 22) = Some []"
    using frame_view_message [OF ok] by (simp add: sample_created_frame_def body_offset_def flags_authenticated_def)
  have "command_of 0xC9 = Create_Persistent_Subscription_Completed_Command"
    using command_of_code [of Create_Persistent_Subscription_Completed_Command] by (simp add: is_named_def)
  then have "view_command (frame_view sample_created_frame 22) = Some Create_Persistent_Subscription_Completed_Command"
    using frame_view_command [OF ok] by (simp add: sample_created_frame_def)
  with persistent_admin_outcomes [OF m, of "\<lambda>_. \<lparr>pcm_result = CP_AlreadyExists, pcm_reason = Some ''dup''\<rparr>"]
  show ?thesis
    by auto
qed

end
