(* ===== verification/Operations_Map.thy ===== *)
theory Operations_Map
  imports Es_Values Es_Error
begin

text \<open>
  \<open>operations_map.hpp\<close>: the map from correlation ids to type-erased operations through which every
  answer of the server finds the operation that asked for it, and the type-erased operation itself.

  The \<open>std::unordered_map\<close> is a list of pairs with distinct keys; its order is not observable.  The
  interface the connection and the operations rely on is the locale \<open>registry\<close>.
\<close>

section \<open>The interface\<close>

locale registry =
  fixes no_ops :: 'm
    and register :: "'k \<Rightarrow> 'op \<Rightarrow> 'm \<Rightarrow> 'm"
    and contains :: "'k \<Rightarrow> 'm \<Rightarrow> bool"
    and at :: "'k \<Rightarrow> 'm \<Rightarrow> exn + 'op"
    and erase :: "'k \<Rightarrow> 'm \<Rightarrow> 'm"
    and registered :: "'m \<Rightarrow> 'k \<Rightarrow> 'op option"
    and inv :: "'m \<Rightarrow> bool"
  assumes inv_empty: "inv no_ops" and none_registered: "registered no_ops k = None"
    and inv_register: "inv m \<Longrightarrow> inv (register k op m)"
    and register_spec: "inv m \<Longrightarrow> registered (register k op m) =
        (if registered m k = None then (registered m)(k \<mapsto> op) else registered m)"
    and contains_spec: "inv m \<Longrightarrow> contains k m \<longleftrightarrow> registered m k \<noteq> None"
    and at_spec: "inv m \<Longrightarrow> at k m = (case registered m k of None \<Rightarrow> Inl Out_Of_Range | Some op \<Rightarrow> Inr op)"
    and inv_erase: "inv m \<Longrightarrow> inv (erase k m)"
    and erase_spec: "inv m \<Longrightarrow> registered (erase k m) = (registered m)(k := None)"
begin

text \<open>The first registration of a key wins; a second one is ignored until the key is erased.\<close>

lemma register_twice:
  "inv m \<Longrightarrow> registered m k = None \<Longrightarrow> at k (register k op2 (register k op1 m)) = Inr op1"
  by (simp add: at_spec register_spec inv_register)

lemma at_defined_iff: "inv m \<Longrightarrow> (\<exists>op. at k m = Inr op) \<longleftrightarrow> contains k m"
  by (auto simp: at_spec contains_spec split: option.splits)

lemma erase_register: "inv m \<Longrightarrow> registered m k = None \<Longrightarrow> registered (erase k (register k op m)) = registered m"
  by (auto simp: erase_spec register_spec inv_register)

lemma erased_key_throws: "inv m \<Longrightarrow> at k (erase k m) = Inl Out_Of_Range"
  by (simp add: at_spec erase_spec inv_erase)

end

section \<open>operations_map\<close>

type_synonym 'op operations_map = "(guid \<times> 'op) list"

definition om_empty :: "'op operations_map" where
  "om_empty = []"

text \<open>\<open>operations_.emplace\<close> inserts only if there is no element with the key.\<close>

definition register_op :: "guid \<Rightarrow> 'op \<Rightarrow> 'op operations_map \<Rightarrow> 'op operations_map" where
  "register_op g op m = (if \<exists>e \<in> set m. fst e = g then m else (g, op) # m)"

definition om_contains :: "guid \<Rightarrow> 'op operations_map \<Rightarrow> bool" where
  "om_contains key m \<longleftrightarrow> (\<exists>e \<in> set m. fst e = key)"

text \<open>Both overloads of \<open>operator[]\<close> call \<open>at\<close>, which throws without the key.\<close>

fun om_at :: "guid \<Rightarrow> 'op operations_map \<Rightarrow> exn + 'op" where
  "om_at key [] = Inl Out_Of_Range"
| "om_at key ((k, op) # m) = (if k = key then Inr op else om_at key m)"

definition om_erase :: "guid \<Rightarrow> 'op operations_map \<Rightarrow> 'op operations_map" where
  "om_erase key m = filter (\<lambda>e. fst e \<noteq> key) m"

definition om_inv :: "'op operations_map \<Rightarrow> bool" where
  "om_inv m \<longleftrightarrow> distinct (map fst m)"

lemma om_at_map_of: "om_at k m = (case map_of m k of None \<Rightarrow> Inl Out_Of_Range | Some op \<Rightarrow> Inr op)"
  by (induction k m rule: om_at.induct) auto

lemma om_contains_iff: "om_contains k m \<longleftrightarrow> map_of m k \<noteq> None"
  by (force simp: om_contains_def map_of_eq_None_iff)

lemma map_of_om_erase: "map_of (om_erase k m) = (map_of m)(k := None)"
  by (induction m) (auto simp: om_erase_def)

lemma map_of_register_op:
  "map_of (register_op k op m) = (if map_of m k = None then (map_of m)(k \<mapsto> op) else map_of m)"
  using om_contains_iff [of k m] by (auto simp: register_op_def om_contains_def)

lemma om_inv_register: "om_inv m \<Longrightarrow> om_inv (register_op k op m)"
  by (auto simp: om_inv_def register_op_def)

lemma om_inv_erase: "om_inv m \<Longrightarrow> om_inv (om_erase k m)"
  unfolding om_inv_def om_erase_def by (rule distinct_map_filter)

interpretation om: registry om_empty register_op om_contains om_at om_erase map_of om_inv
  by unfold_locales
     (simp_all add: map_of_register_op om_contains_iff om_at_map_of map_of_om_erase om_inv_register
       om_inv_erase, simp_all add: om_inv_def om_empty_def)

section \<open>operation\<close>

text \<open>\<open>op_\<close> owns the handler; a moved-from operation has \<open>nullptr\<close>, through which a call is undefined.\<close>

record 'h operation =
  op_ptr :: "'h option"

definition mk_operation :: "'h \<Rightarrow> 'h operation" where
  "mk_operation token = \<lparr>op_ptr = Some token\<rparr>"

definition move_operation :: "'h operation \<Rightarrow> 'h operation \<times> 'h operation" where
  "move_operation other = (\<lparr>op_ptr = op_ptr other\<rparr>, other\<lparr>op_ptr := None\<rparr>)"

definition invoke_operation ::
  "('h \<Rightarrow> error_code \<Rightarrow> tcp_package_view \<Rightarrow> 'c) \<Rightarrow> 'h operation \<Rightarrow> error_code \<Rightarrow> tcp_package_view \<Rightarrow> 'c option"
where
  "invoke_operation handle op ec package = do { h \<leftarrow> op_ptr op; Some (handle h ec package) }"

section \<open>Properties\<close>

text \<open>The map from correlation ids to operations.  A registered operation is found under its id
  and under no other, until it is erased; registering an id again does not replace the operation that
  waits under it; and looking up an id that is not registered throws \<open>out_of_range\<close>.\<close>

theorem operations_map_spec:
  assumes "om_inv m"
  shows "om_inv (register_op k op m) \<and> om_inv (om_erase k m) \<and>
    om_at k (register_op k op m) = (if om_contains k m then om_at k m else Inr op) \<and>
    (j \<noteq> k \<longrightarrow> om_at j (register_op k op m) = om_at j m \<and> om_at j (om_erase k m) = om_at j m) \<and>
    om_at k (om_erase k m) = Inl Out_Of_Range \<and>
    (om_at k m = Inl Out_Of_Range \<longleftrightarrow> \<not> om_contains k m)"
  using assms
  by (auto simp: om.at_spec om.contains_spec om.register_spec om.erase_spec om.inv_register om.inv_erase
      split: option.splits)

theorem operations_map_spec_witness:
  "om_at (replicate 16 1) (register_op (replicate 16 1) ''b'' [(replicate 16 1, ''a'')]) = Inr ''a'' \<and>
   om_at (replicate 16 1) (om_erase (replicate 16 1) [(replicate 16 1, ''a'')]) = Inl Out_Of_Range"
  using operations_map_spec [of "[(replicate 16 1, ''a'')]" "replicate 16 1" "''b''"]
  by (simp add: om_inv_def om_contains_def)

end
