(* ===== verification/Operation_Timeout.thy ===== *)
theory Operation_Timeout
  imports Operations_Map
begin

text \<open>
  \<open>tcp/operation.hpp\<close>: an operation that waits for an answer or for its deadline, together with the
  part of \<open>basic_tcp_connection::on_package_received\<close> that answers it.

  \<open>initiate\<close> registers a handler that cancels the deadline and calls the user's handler, and starts
  the deadline; \<open>operator()\<close> is the completion handler of the deadline.  The deadline is Asio's
  \<open>steady_timer\<close>: a pending wait completes with success when it expires and with
  \<open>operation_aborted\<close> when it is cancelled, and cancelling has no effect on a wait whose completion is
  already queued.  These are the events of the step relation; any interleaving of them can happen.
\<close>

section \<open>State\<close>

datatype timer = Waiting | Queued error_code | Completed

text \<open>The operations of a connection: the registered handlers (named by their user's handler \<open>'h\<close>), the
  deadline of each operation started so far, the calls made to the users' handlers, and whether an
  exception has left a completion handler.\<close>

record 'h op_state =
  ops :: "'h operations_map"
  deadlines :: "(guid \<times> timer) list"
  calls :: "(guid \<times> 'h \<times> error_code \<times> tcp_package_view) list"
  thrown :: "exn option"

definition op_state_empty :: "'h op_state" where
  "op_state_empty = \<lparr>ops = om_empty, deadlines = [], calls = [], thrown = None\<rparr>"

definition set_deadline :: "guid \<Rightarrow> timer \<Rightarrow> 'h op_state \<Rightarrow> 'h op_state" where
  "set_deadline k t s = s\<lparr>deadlines := (k, t) # filter (\<lambda>e. fst e \<noteq> k) (deadlines s)\<rparr>"

definition deadline :: "'h op_state \<Rightarrow> guid \<Rightarrow> timer option" where
  "deadline s k = map_of (deadlines s) k"

section \<open>Operations of the code\<close>

text \<open>\<open>initiate()\<close>.\<close>

definition op_initiate :: "guid \<Rightarrow> 'h \<Rightarrow> 'h op_state \<Rightarrow> 'h op_state" where
  "op_initiate key h s = set_deadline key Waiting (s\<lparr>ops := register_op key h (ops s)\<rparr>)"

text \<open>\<open>deadline->cancel()\<close>.\<close>

definition deadline_cancel :: "guid \<Rightarrow> 'h op_state \<Rightarrow> 'h op_state" where
  "deadline_cancel key s =
    (if deadline s key = Some Waiting then set_deadline key (Queued operation_aborted) s else s)"

text \<open>The registered lambda.\<close>

definition run_registered :: "guid \<Rightarrow> 'h \<Rightarrow> error_code \<Rightarrow> tcp_package_view \<Rightarrow> 'h op_state \<Rightarrow> 'h op_state" where
  "run_registered key h ec v s =
    (let s = deadline_cancel key s in s\<lparr>calls := calls s @ [(key, h, ec, v)]\<rparr>)"

text \<open>\<open>op_map_[key_](ec, view); op_map_.erase(key_)\<close>; \<open>operator[]\<close> throws without the key.\<close>

definition call_and_erase :: "guid \<Rightarrow> error_code \<Rightarrow> tcp_package_view \<Rightarrow> 'h op_state \<Rightarrow> 'h op_state" where
  "call_and_erase key ec v s =
    (case om_at key (ops s) of
       Inl e \<Rightarrow> s\<lparr>thrown := Some e\<rparr>
     | Inr h \<Rightarrow> (let s = run_registered key h ec v s in s\<lparr>ops := om_erase key (ops s)\<rparr>))"

text \<open>\<open>operator()(ec)\<close>, the completion of the deadline.\<close>

definition op_deadline_completed :: "guid \<Rightarrow> error_code \<Rightarrow> 'h op_state \<Rightarrow> 'h op_state" where
  "op_deadline_completed key ec s =
    (if \<not> failed ec then call_and_erase key (connection_error Operation_Timeout) null_view s
     else if ec = operation_aborted then s
     else if om_contains key (ops s) then call_and_erase key ec null_view s
     else s)"

text \<open>An answer with the operation's correlation id, the first branch of \<open>on_package_received\<close>.\<close>

definition op_response :: "guid \<Rightarrow> error_code \<Rightarrow> tcp_package_view \<Rightarrow> 'h op_state \<Rightarrow> 'h op_state" where
  "op_response key ec v s = (if om_contains key (ops s) then call_and_erase key ec v s else s)"

section \<open>Interleavings\<close>

text \<open>An operation is started once under its fresh key; its deadline expires, or the wait fails; the
  queued completion runs; frames arrive at any time.  Nothing happens after an exception.\<close>

inductive op_step :: "'h op_state \<Rightarrow> 'h op_state \<Rightarrow> bool" where
  initiate: "thrown s = None \<Longrightarrow> deadline s k = None \<Longrightarrow> op_step s (op_initiate k h s)"
| expire: "thrown s = None \<Longrightarrow> deadline s k = Some Waiting \<Longrightarrow> op_step s (set_deadline k (Queued success) s)"
| wait_fails: "thrown s = None \<Longrightarrow> deadline s k = Some Waiting \<Longrightarrow> failed ec \<Longrightarrow> ec \<noteq> operation_aborted \<Longrightarrow>
    op_step s (set_deadline k (Queued ec) s)"
| complete: "thrown s = None \<Longrightarrow> deadline s k = Some (Queued ec) \<Longrightarrow>
    op_step s (op_deadline_completed k ec (set_deadline k Completed s))"
| response: "thrown s = None \<Longrightarrow> op_step s (op_response k ec v s)"

inductive op_reachable :: "'h op_state \<Rightarrow> bool" where
  start: "op_reachable op_state_empty"
| step: "op_reachable s \<Longrightarrow> op_step s s' \<Longrightarrow> op_reachable s'"

inductive_cases op_step_elim: "op_step s s'"

section \<open>Lemmas\<close>

lemma deadline_set [simp]:
  "deadline (set_deadline k t s) j = (if j = k then Some t else deadline s j)"
proof -
  have "map_of (filter (\<lambda>e. fst e \<noteq> k) xs) j = (if j = k then None else map_of xs j)" for xs :: "(guid \<times> timer) list"
    by (induction xs) auto
  then show ?thesis
    by (simp add: deadline_def set_deadline_def)
qed

lemma set_deadline_fields [simp]:
  "ops (set_deadline k t s) = ops s" "calls (set_deadline k t s) = calls s"
  "thrown (set_deadline k t s) = thrown s"
  by (simp_all add: set_deadline_def)

lemma deadline_update [simp]:
  "deadline (s\<lparr>ops := m\<rparr>) k = deadline s k" "deadline (s\<lparr>calls := c\<rparr>) k = deadline s k"
  "deadline (s\<lparr>thrown := e\<rparr>) k = deadline s k"
  by (simp_all add: deadline_def)

text \<open>The calls made to the user's handler of one operation.\<close>

definition calls_of :: "guid \<Rightarrow> 'h op_state \<Rightarrow> nat" where
  "calls_of k s = length (filter (\<lambda>c. fst c = k) (calls s))"

definition waits :: "guid \<Rightarrow> 'h op_state \<Rightarrow> bool" where
  "waits k s \<longleftrightarrow> om_contains k (ops s)"

text \<open>The effect of calling and erasing, as far as the properties need it.\<close>

lemma call_and_erase_hit:
  assumes "om_inv (ops s)" and "waits k s"
  shows "thrown (call_and_erase k ec v s) = thrown s"
    and "calls_of j (call_and_erase k ec v s) = (if j = k then Suc (calls_of k s) else calls_of j s)"
    and "waits j (call_and_erase k ec v s) \<longleftrightarrow> j \<noteq> k \<and> waits j s"
    and "om_inv (ops (call_and_erase k ec v s))"
    and "deadline (call_and_erase k ec v s) j =
      (if j = k \<and> deadline s k = Some Waiting then Some (Queued operation_aborted) else deadline s j)"
proof -
  obtain h where h: "om_at k (ops s) = Inr h"
    using assms by (auto simp: waits_def simp flip: om.at_defined_iff)
  then have s': "call_and_erase k ec v s = (let s = run_registered k h ec v s in s\<lparr>ops := om_erase k (ops s)\<rparr>)"
    by (simp add: call_and_erase_def)
  have ops: "ops (run_registered k h ec v s) = ops s"
    by (simp add: run_registered_def deadline_cancel_def Let_def)
  show "thrown (call_and_erase k ec v s) = thrown s"
    "calls_of j (call_and_erase k ec v s) = (if j = k then Suc (calls_of k s) else calls_of j s)"
    "deadline (call_and_erase k ec v s) j =
      (if j = k \<and> deadline s k = Some Waiting then Some (Queued operation_aborted) else deadline s j)"
    by (auto simp: s' run_registered_def deadline_cancel_def calls_of_def)
  show "waits j (call_and_erase k ec v s) \<longleftrightarrow> j \<noteq> k \<and> waits j s"
    using assms by (auto simp: s' ops waits_def om.contains_spec om.inv_erase om.erase_spec)
  show "om_inv (ops (call_and_erase k ec v s))"
    using assms by (simp add: s' ops om.inv_erase)
qed

lemma call_and_erase_miss:
  assumes "om_inv (ops s)" and "\<not> waits k s"
  shows "call_and_erase k ec v s = s\<lparr>thrown := Some Out_Of_Range\<rparr>"
  using assms by (simp add: call_and_erase_def om.at_spec om.contains_spec waits_def)

text \<open>
  The invariant.  An operation whose deadline is waiting is registered and was never called; one
  whose cancelled wait is queued, or whose wait has completed, is not registered and was called exactly
  once; one whose expiry (or failure) is queued is either still registered and not called, or
  answered; and an operation never started is not registered and was never called.
\<close>

fun op_ok :: "timer option \<Rightarrow> bool \<Rightarrow> nat \<Rightarrow> bool" where
  "op_ok None w n \<longleftrightarrow> \<not> w \<and> n = 0"
| "op_ok (Some Waiting) w n \<longleftrightarrow> w \<and> n = 0"
| "op_ok (Some (Queued ec)) w n \<longleftrightarrow>
     (if ec = operation_aborted then \<not> w \<and> n = 1 else (w \<and> n = 0) \<or> (\<not> w \<and> n = 1))"
| "op_ok (Some Completed) w n \<longleftrightarrow> \<not> w \<and> n = 1"

definition op_inv :: "'h op_state \<Rightarrow> bool" where
  "op_inv s \<longleftrightarrow> om_inv (ops s) \<and> (\<forall>k. op_ok (deadline s k) (waits k s) (calls_of k s))"

lemma op_inv_D: "op_inv s \<Longrightarrow> op_ok (deadline s k) (waits k s) (calls_of k s)"
  by (simp add: op_inv_def)

lemma waits_initiate: "om_inv (ops s) \<Longrightarrow> waits j (op_initiate k h s) \<longleftrightarrow> j = k \<or> waits j s"
  by (auto simp: waits_def op_initiate_def om.contains_spec om.inv_register om.register_spec)

lemma op_inv_initiate:
  assumes "op_inv s" and "deadline s k = None"
  shows "op_inv (op_initiate k h s)"
proof -
  have i: "om_inv (ops s)" and k: "\<not> waits k s" "calls_of k s = 0"
    using assms op_inv_D [OF assms(1), of k] by (simp_all add: op_inv_def)
  have c: "calls_of j (op_initiate k h s) = calls_of j s" for j
    by (simp add: calls_of_def op_initiate_def)
  have d: "deadline (op_initiate k h s) j = (if j = k then Some Waiting else deadline s j)" for j
    by (simp add: op_initiate_def)
  have "om_inv (ops (op_initiate k h s))"
    using i by (simp add: op_initiate_def om.inv_register)
  then show ?thesis
    using op_inv_D [OF assms(1)] k by (simp add: op_inv_def waits_initiate [OF i] c d)
qed

lemma op_inv_call:
  assumes "op_inv s" and "waits k s"
  shows "op_inv (call_and_erase k ec v s)"
proof -
  have i: "om_inv (ops s)"
    using assms by (simp add: op_inv_def)
  note h = call_and_erase_hit [OF i assms(2)]
  have "op_ok (deadline (call_and_erase k ec v s) j) (waits j (call_and_erase k ec v s))
      (calls_of j (call_and_erase k ec v s))" for j
  proof (cases "j = k")
    case True
    then show ?thesis
      using op_inv_D [OF assms(1), of k] assms(2) h
      by (cases "(deadline s k, True, 0 :: nat)" rule: op_ok.cases) (auto split: if_splits)
  next
    case False
    then show ?thesis
      using op_inv_D [OF assms(1), of j] h by simp
  qed
  then show ?thesis
    using h(4) by (simp add: op_inv_def)
qed

lemma op_inv_retime:
  assumes "op_inv s" and "op_ok (Some t) (waits k s) (calls_of k s)"
  shows "op_inv (set_deadline k t s)"
  using assms by (auto simp: op_inv_def waits_def calls_of_def)

text \<open>The completion of a deadline: with the operation still registered it is called, without it the
  completion of a successful wait throws.\<close>

lemma op_inv_thrown [simp]: "op_inv (s\<lparr>thrown := e\<rparr>) = op_inv s"
  by (simp add: op_inv_def waits_def calls_of_def)

lemma op_inv_complete:
  assumes "op_inv s" and "deadline s k = Some (Queued ec)" and "thrown s = None"
  shows "op_inv (op_deadline_completed k ec (set_deadline k Completed s)) \<and>
    thrown (op_deadline_completed k ec (set_deadline k Completed s)) =
      (if \<not> failed ec \<and> \<not> waits k s then Some Out_Of_Range else None)"
proof (cases "waits k s")
  case True
  let ?s = "set_deadline k Completed s"
  have w: "waits k ?s" and i: "om_inv (ops ?s)"
    using True assms by (simp_all add: waits_def op_inv_def)
  have na: "ec \<noteq> operation_aborted"
    using op_inv_D [OF assms(1), of k] assms(2) True by auto
  then have e: "op_deadline_completed k ec ?s = call_and_erase k (if failed ec then ec else connection_error Operation_Timeout) null_view ?s"
    using w by (simp add: op_deadline_completed_def waits_def)
  note h = call_and_erase_hit [OF i w]
  have "calls_of k s = 0"
    using op_inv_D [OF assms(1), of k] assms(2) True na by auto
  then have "op_ok (deadline (call_and_erase k c null_view ?s) j) (waits j (call_and_erase k c null_view ?s))
      (calls_of j (call_and_erase k c null_view ?s))" for j c
    using op_inv_D [OF assms(1), of j] h by (auto simp: waits_def calls_of_def)
  then show ?thesis
    using True assms(3) h e by (simp add: op_inv_def)
next
  case False
  then have "calls_of k s = 1"
    using op_inv_D [OF assms(1), of k] assms(2) by (auto split: if_splits)
  then have "op_inv (set_deadline k Completed s)"
    using False by (intro op_inv_retime [OF assms(1)]) simp
  moreover have "op_deadline_completed k ec (set_deadline k Completed s) =
      (if failed ec then set_deadline k Completed s else (set_deadline k Completed s)\<lparr>thrown := Some Out_Of_Range\<rparr>)"
    using False assms(1)
    by (auto simp: op_deadline_completed_def op_inv_def call_and_erase_miss waits_def)
  ultimately show ?thesis
    using False assms(3) by simp
qed

text \<open>The invariant holds in every reachable state; the only exception is \<open>out_of_range\<close>.\<close>

definition op_safe :: "'h op_state \<Rightarrow> bool" where
  "op_safe s \<longleftrightarrow> op_inv s \<and> (thrown s = None \<or> thrown s = Some Out_Of_Range)"

lemma op_inv_calls: "op_inv s \<Longrightarrow> calls_of k s \<le> 1"
  using op_inv_D [of s k]
  by (cases "(deadline s k, waits k s, calls_of k s)" rule: op_ok.cases) (auto split: if_splits)

lemma op_step_safe:
  assumes "op_step s s'" and "op_safe s"
  shows "op_safe s'"
proof -
  have i: "op_inv s"
    using assms(2) by (simp add: op_safe_def)
  show ?thesis
    using assms(1)
  proof cases
    case (initiate k h)
    then show ?thesis
      using op_inv_initiate [OF i] by (simp add: op_safe_def op_initiate_def)
  next
    case (expire k)
    moreover have "success \<noteq> operation_aborted"
      by (metis failed_aborted not_failed_success)
    ultimately have "op_inv s'"
      using op_inv_D [OF i, of k] by (auto intro!: op_inv_retime [OF i])
    then show ?thesis
      using expire by (simp add: op_safe_def)
  next
    case (wait_fails k ec)
    then have "op_inv s'"
      using op_inv_D [OF i, of k] by (auto intro!: op_inv_retime [OF i])
    then show ?thesis
      using wait_fails by (simp add: op_safe_def)
  next
    case (complete k ec)
    then show ?thesis
      using op_inv_complete [OF i complete(3,2)] by (simp add: op_safe_def)
  next
    case (response k ec v)
    show ?thesis
    proof (cases "waits k s")
      case True
      have "om_inv (ops s)"
        using i by (simp add: op_inv_def)
      then have "thrown s' = None" "s' = call_and_erase k ec v s"
        using response True call_and_erase_hit(1) [of s k ec v] by (simp_all add: op_response_def waits_def)
      then show ?thesis
        using op_inv_call [OF i True] by (simp add: op_safe_def)
    next
      case False
      then show ?thesis
        using response assms(2) by (simp add: op_response_def waits_def)
    qed
  qed
qed

lemma op_reachable_safe: "op_reachable s \<Longrightarrow> op_safe s"
proof (induction rule: op_reachable.induct)
  case start
  show ?case
    by (simp add: op_safe_def op_inv_def op_state_empty_def deadline_def waits_def om_contains_def
        calls_of_def om.inv_empty) (simp add: om_empty_def)
next
  case (step s s')
  then show ?case
    by (simp add: op_step_safe)
qed

text \<open>Every operation completes exactly once.\<close>

lemma reachable_once:
  assumes "op_reachable s"
  shows "calls_of k s \<le> 1" and "thrown s = None \<or> thrown s = Some Out_Of_Range"
    and "deadline s k = None \<Longrightarrow> calls_of k s = 0 \<and> \<not> om_contains k (ops s)"
    and "deadline s k = Some Waiting \<Longrightarrow> calls_of k s = 0 \<and> om_contains k (ops s)"
    and "deadline s k = Some Completed \<Longrightarrow> calls_of k s = 1 \<and> \<not> om_contains k (ops s)"
    and "om_contains k (ops s) \<Longrightarrow> calls_of k s = 0"
proof -
  have i: "op_inv s"
    using op_reachable_safe [OF assms] by (simp add: op_safe_def)
  note ok = op_inv_D [OF i, of k]
  show "calls_of k s \<le> 1"
    by (rule op_inv_calls [OF i])
  show "thrown s = None \<or> thrown s = Some Out_Of_Range"
    using op_reachable_safe [OF assms] by (simp add: op_safe_def)
  show "deadline s k = None \<Longrightarrow> calls_of k s = 0 \<and> \<not> om_contains k (ops s)"
    "deadline s k = Some Waiting \<Longrightarrow> calls_of k s = 0 \<and> om_contains k (ops s)"
    "deadline s k = Some Completed \<Longrightarrow> calls_of k s = 1 \<and> \<not> om_contains k (ops s)"
    using ok by (simp_all add: waits_def)
  show "om_contains k (ops s) \<Longrightarrow> calls_of k s = 0"
    using ok by (cases "(deadline s k, waits k s, calls_of k s)" rule: op_ok.cases)
      (auto simp: waits_def split: if_splits)
qed

text \<open>The race between an answer and an expired deadline: the answer is processed before the queued completion
  of the wait, which then does not find the operation any more.\<close>

lemma race_throws:
  assumes "op_inv s" and "thrown s = None" and "deadline s k = Some Waiting"
    and "s2 = call_and_erase k ec v (set_deadline k (Queued success) s)"
  shows "calls_of k s2 = 1" and "thrown s2 = None" and "deadline s2 k = Some (Queued success)"
    and "thrown (op_deadline_completed k success (set_deadline k Completed s2)) = Some Out_Of_Range"
proof -
  let ?s1 = "set_deadline k (Queued success) s"
  have w: "waits k s" "calls_of k s = 0" and om: "om_inv (ops ?s1)"
    using op_inv_D [OF assms(1), of k] assms(1,3) by (simp_all add: op_inv_def)
  then have w1: "waits k ?s1"
    by (simp add: waits_def)
  note h = call_and_erase_hit [OF om w1, where ec = ec and v = v]
  show "calls_of k s2 = 1"
    using h(2) [of k] w(2) by (simp add: assms(4) calls_of_def)
  show "thrown s2 = None" "deadline s2 k = Some (Queued success)"
    using h assms(2) by (simp_all add: assms(4))
  have "call_and_erase k (connection_error Operation_Timeout) null_view (set_deadline k Completed s2) =
      (set_deadline k Completed s2)\<lparr>thrown := Some Out_Of_Range\<rparr>"
    using h by (intro call_and_erase_miss) (simp_all add: assms(4) waits_def)
  then show "thrown (op_deadline_completed k success (set_deadline k Completed s2)) = Some Out_Of_Range"
    by (simp add: op_deadline_completed_def)
qed

end
