(* ===== verification/Read_Package.thy ===== *)
theory Read_Package
  imports Tcp_Package Es_Error
begin

text \<open>
  \<open>tcp/read.hpp\<close>: how one frame is read from the socket.  \<open>read_tcp_package_op::initiate\<close> empties the
  buffer and reads four bytes; \<open>length_check_handler\<close> checks the length prefix and reads the rest of
  the frame; \<open>read_message_handler\<close> reports the whole frame.  Each is a function of what its completion
  handler is called with, and its result is the list of what it does, in order.

  The buffer is Boost's \<open>dynamic_vector_buffer\<close> and the reads are \<open>boost::asio::async_read\<close>: the second
  half of the theory runs the code against their documented behaviour.
\<close>

section \<open>The handlers\<close>

text \<open>\<open>Token ec n\<close> calls the completion token.\<close>

datatype read_effect = Consume nat | Buffer_Commit nat | Async_Read nat | Token error_code nat

definition read_initiate :: "bool \<Rightarrow> nat \<Rightarrow> read_effect list" where
  "read_initiate expired buffer_size = (if expired then [] else [Consume buffer_size, Async_Read 4])"

text \<open>\<open>memory\<close> is what \<open>buffer_.data()\<close> points to; \<open>length\<close> is a signed \<open>int\<close>.\<close>

definition length_check :: "bool \<Rightarrow> bytes \<Rightarrow> error_code \<Rightarrow> nat \<Rightarrow> read_effect list option" where
  "length_check expired memory ec bytes_read =
    (if expired then Some []
     else if \<not> failed ec then do {
       w \<leftarrow> rd32 memory 0;
       let len = sint w;
       if len < int (kMandatorySize - kCommandOffset) \<or> len > int kMaxPackageSize
       then Some [Token (communication_error Bad_Length_Prefix) bytes_read]
       else Some [Buffer_Commit 4, Async_Read (nat len)] }
     else Some [Token ec bytes_read])"

definition read_message :: "bool \<Rightarrow> error_code \<Rightarrow> nat \<Rightarrow> read_effect list" where
  "read_message expired ec bytes_read =
    (if expired then [Consume 4]
     else (if failed ec then [Consume 4] else [Buffer_Commit bytes_read]) @ [Token ec (bytes_read + 4)])"

section \<open>The buffer and the socket\<close>

text \<open>The readable bytes, then the bytes of the prepared region that a read has filled.  \<open>data()\<close> points
  to the first readable byte and the prepared region follows.\<close>

record read_buffer =
  readable :: bytes
  prepared :: bytes

definition buffer_memory :: "read_buffer \<Rightarrow> bytes" where
  "buffer_memory b = readable b @ prepared b"

text \<open>Boost.Asio: \<open>async_read\<close> completes with success when the buffer is full, and otherwise with an
  error and the number of bytes transferred before it; here the stream ends.\<close>

definition end_of_file :: error_code where
  "end_of_file = Error_Code 2 (Other_Category ''asio.misc'')"

definition socket_read :: "nat \<Rightarrow> bytes \<Rightarrow> error_code \<times> bytes \<times> bytes" where
  "socket_read n stream =
    (if n \<le> length stream then (success, take n stream, drop n stream) else (end_of_file, stream, []))"

fun buffer_effect :: "read_effect \<Rightarrow> read_buffer \<Rightarrow> read_buffer" where
  "buffer_effect (Consume n) b = b\<lparr>readable := drop n (readable b)\<rparr>"
| "buffer_effect (Buffer_Commit n) b = \<lparr>readable = readable b @ take n (prepared b), prepared = drop n (prepared b)\<rparr>"
| "buffer_effect _ b = b"

text \<open>The outcome of one call: what the token is called with, the buffer then, and the unread stream.\<close>

record read_outcome =
  ro_error :: error_code
  ro_size :: nat
  ro_buffer :: read_buffer
  ro_rest :: bytes

definition finish_read :: "read_effect list \<Rightarrow> read_buffer \<Rightarrow> bytes \<Rightarrow> read_outcome option" where
  "finish_read effects b rest =
    (case last effects of
       Token ec n \<Rightarrow> Some \<lparr>ro_error = ec, ro_size = n, ro_buffer = fold buffer_effect effects b, ro_rest = rest\<rparr>
     | _ \<Rightarrow> None)"

text \<open>The chain of the three handlers on a connection that stays alive.\<close>

definition read_package :: "read_buffer \<Rightarrow> bytes \<Rightarrow> read_outcome option" where
  "read_package b stream =
    (let b = fold buffer_effect (read_initiate False (length (readable b))) b in
     case socket_read 4 stream of (ec, got, rest) \<Rightarrow>
       let b = b\<lparr>prepared := got\<rparr> in
       do {
         effects \<leftarrow> length_check False (buffer_memory b) ec (length got);
         case last effects of
           Async_Read n \<Rightarrow>
             (case socket_read n rest of (ec, got, rest) \<Rightarrow>
                let b = (fold buffer_effect effects b)\<lparr>prepared := got\<rparr> in
                finish_read (read_message False ec (length got)) b rest)
         | _ \<Rightarrow> finish_read effects b rest })"

section \<open>Lemmas\<close>

lemma socket_read_all: "length b = n \<Longrightarrow> socket_read n (b @ r) = (success, b, r)"
  by (simp add: socket_read_def)

lemma failed_end_of_file [simp]: "failed end_of_file"
  by (simp add: failed_def end_of_file_def)

lemma socket_read_short: "length s < n \<Longrightarrow> socket_read n s = (end_of_file, s, [])"
  by (simp add: socket_read_def)

lemma sint_small: "n < 2 ^ 31 \<Longrightarrow> sint (word_of_nat n :: uint) = int n"
  by (simp only: signed_of_nat) (simp add: signed_take_bit_int_eq_self)

lemma read_initiate_empties: "fold buffer_effect (read_initiate False (length (readable b))) b = b\<lparr>readable := []\<rparr>"
  by (simp add: read_initiate_def)

lemma length_check_prefix:
  "length_check False (le32 w @ r) success n =
     Some (if sint w < 18 \<or> 64 * 1024 * 1024 < sint w then [Token (communication_error Bad_Length_Prefix) n]
           else [Buffer_Commit 4, Async_Read (nat (sint w))])"
  by (simp add: length_check_def rd32_le32)

text \<open>A frame: a length prefix in range, followed by that many bytes.\<close>

definition is_frame :: "bytes \<Rightarrow> bool" where
  "is_frame f \<longleftrightarrow> (\<exists>body. f = le32 (word_of_nat (length body)) @ body \<and>
     18 \<le> length body \<and> length body \<le> 64 * 1024 * 1024)"

lemma read_package_frame:
  assumes "is_frame f"
  shows "read_package b (f @ rest) = Some \<lparr>ro_error = success, ro_size = length f,
    ro_buffer = \<lparr>readable = f, prepared = []\<rparr>, ro_rest = rest\<rparr>"
proof -
  obtain body where f: "f = le32 (word_of_nat (length body)) @ body"
      and len: "18 \<le> length body" "length body \<le> 64 * 1024 * 1024"
    using assms by (auto simp: is_frame_def)
  let ?w = "word_of_nat (length body) :: uint"
  have s: "sint ?w = int (length body)"
    using len by (intro sint_small) simp
  have r1: "socket_read 4 (f @ rest) = (success, le32 ?w, body @ rest)"
    using socket_read_all [of "le32 ?w" 4 "body @ rest"] by (simp add: f)
  have c: "length_check False (le32 ?w) success (length (le32 ?w)) = Some [Buffer_Commit 4, Async_Read (length body)]"
    using length_check_prefix [of ?w "[]"] len by (simp add: s)
  have r2: "socket_read (length body) (body @ rest) = (success, body, rest)"
    by (simp add: socket_read_all)
  show ?thesis
    unfolding read_package_def read_initiate_empties Let_def r1
    by (simp add: buffer_memory_def c [simplified] r2 read_message_def finish_read_def f)
qed

lemma is_frame_length: "is_frame f \<Longrightarrow> 4 < length f"
  by (auto simp: is_frame_def)

section \<open>Receiving a stream\<close>

text \<open>The receive loop of the connection, as far as framing goes: it reads again after every frame and
  stops at the first error.  Its result is the frames handed over and the error that ended it.\<close>

lemma read_package_shrinks:
  assumes "read_package b stream = Some o'" and "\<not> failed (ro_error o')"
  shows "length (ro_rest o') < length stream"
proof (cases "4 \<le> length stream")
  case True
  then have r1: "socket_read 4 stream = (success, take 4 stream, drop 4 stream)"
    by (simp add: socket_read_def)
  have "length (snd (snd (socket_read n s))) \<le> length s" for n s
    by (simp add: socket_read_def)
  then have "length r \<le> length s" if "socket_read n s = (e, g, r)" for n s e g r
    using that by (metis snd_conv)
  from this [of _ "drop 4 stream"] show ?thesis
    using assms True unfolding read_package_def Let_def r1
    by (auto simp: finish_read_def split: Option.bind_splits read_effect.splits prod.splits)
       fastforce+
next
  case False
  then have "socket_read 4 stream = (end_of_file, stream, [])"
    by (simp add: socket_read_def)
  then show ?thesis
    using assms unfolding read_package_def Let_def
    by (auto simp: length_check_def finish_read_def)
qed

function receive_frames :: "read_buffer \<Rightarrow> bytes \<Rightarrow> (bytes list \<times> error_code) option" where
  "receive_frames b stream =
    (case read_package b stream of
       None \<Rightarrow> None
     | Some r \<Rightarrow>
         if \<not> failed (ro_error r)
         then map_option (\<lambda>(fs, e). (take (ro_size r) (readable (ro_buffer r)) # fs, e))
                (receive_frames (ro_buffer r) (ro_rest r))
         else Some ([], ro_error r))"
  by pat_completeness auto

termination
  by (relation "measure (\<lambda>(_, stream). length stream)") (auto dest: read_package_shrinks)

declare receive_frames.simps [simp del]

lemma receive_frames_append:
  assumes "\<forall>f \<in> set fs. is_frame f"
  shows "\<exists>b'. receive_frames b (concat fs @ rest) =
    map_option (\<lambda>(gs, e). (fs @ gs, e)) (receive_frames b' rest)"
  using assms
proof (induction fs arbitrary: b)
  case Nil
  show ?case
    by (rule exI [of _ b]) (simp add: option.map_ident_strong split: prod.split)
next
  case (Cons f fs)
  then obtain b' where b': "receive_frames \<lparr>readable = f, prepared = []\<rparr> (concat fs @ rest) =
      map_option (\<lambda>(gs, e). (fs @ gs, e)) (receive_frames b' rest)"
    by auto
  have "read_package b (f @ concat fs @ rest) = Some \<lparr>ro_error = success, ro_size = length f,
      ro_buffer = \<lparr>readable = f, prepared = []\<rparr>, ro_rest = concat fs @ rest\<rparr>"
    using Cons.prems by (simp add: read_package_frame)
  then have "receive_frames b (concat (f # fs) @ rest) =
      map_option (\<lambda>(gs, e). (f # gs, e)) (receive_frames \<lparr>readable = f, prepared = []\<rparr> (concat fs @ rest))"
    by (subst receive_frames.simps) simp
  then show ?case
    using b' by (intro exI [of _ b']) (cases "receive_frames b' rest", auto)
qed

lemma receive_frames_short:
  assumes "length rest < 4"
  shows "receive_frames b rest = Some ([], end_of_file)"
  by (subst receive_frames.simps)
     (simp add: read_package_def socket_read_short [OF assms] length_check_def finish_read_def)

lemma bad_prefix_outcome:
  assumes "sint w < 18 \<or> 64 * 1024 * 1024 < sint w"
  shows "\<exists>b'. read_package b (le32 w @ rest) = Some \<lparr>ro_error = communication_error Bad_Length_Prefix,
    ro_size = 4, ro_buffer = b', ro_rest = rest\<rparr>"
proof -
  have r1: "socket_read 4 (le32 w @ rest) = (success, le32 w, rest)"
    by (simp add: socket_read_all)
  have c: "length_check False (le32 w) success (length (le32 w)) =
      Some [Token (communication_error Bad_Length_Prefix) 4]"
    using length_check_prefix [of w "[]"] assms by auto
  show ?thesis
    unfolding read_package_def read_initiate_empties Let_def r1
    by (simp add: buffer_memory_def c [simplified] finish_read_def)
qed

section \<open>Properties\<close>

text \<open>Framing.  However the frames follow each other on the connection, the receive loop hands over
  exactly the frames that were sent, in order and whole, and a trailing fragment shorter than a
  length prefix ends the loop with the socket's error; nothing is lost, merged or split.\<close>

theorem frames_are_received:
  assumes "\<forall>f \<in> set fs. is_frame f" and "length rest < 4"
  shows "receive_frames b (concat fs @ rest) = Some (fs, end_of_file)"
  using receive_frames_append [OF assms(1), of b rest] receive_frames_short [OF assms(2)] by auto

theorem frames_are_received_witness:
  "receive_frames \<lparr>readable = [], prepared = []\<rparr>
     (concat [le32 18 @ replicate 18 7, le32 19 @ replicate 19 8] @ [1]) =
   Some ([le32 18 @ replicate 18 7, le32 19 @ replicate 19 8], end_of_file)"
proof (rule frames_are_received)
  have "is_frame (le32 (word_of_nat (length (replicate n x))) @ replicate n x)"
    if "18 \<le> n" "n \<le> 64 * 1024 * 1024" for n :: nat and x :: byte
    unfolding is_frame_def using that by (intro exI [of _ "replicate n x"]) simp
  from this [of 18 7] this [of 19 8]
  show "\<forall>f \<in> set [le32 18 @ replicate 18 7, le32 19 @ replicate 19 8]. is_frame f"
    by simp
qed simp

text \<open>The length prefix is checked before the frame is read.  Read as a signed integer, a prefix
  below 18 or above 64 MiB ends the loop with \<open>bad_length_prefix\<close>, whatever follows it, and no further
  byte is read; the frames before it have been handed over.\<close>

theorem bad_length_prefix_stops:
  assumes "\<forall>f \<in> set fs. is_frame f" and "sint w < 18 \<or> 64 * 1024 * 1024 < sint w"
  shows "receive_frames b (concat fs @ le32 w @ rest) = Some (fs, communication_error Bad_Length_Prefix)"
proof -
  have "receive_frames b' (le32 w @ rest) = Some ([], communication_error Bad_Length_Prefix)" for b'
    using bad_prefix_outcome [OF assms(2), of b' rest] by (subst receive_frames.simps) auto
  then show ?thesis
    using receive_frames_append [OF assms(1), of b "le32 w @ rest"] by auto
qed

theorem bad_length_prefix_stops_witness:
  "receive_frames \<lparr>readable = [], prepared = []\<rparr> (concat [] @ le32 (- 1) @ [1, 2, 3]) =
     Some ([], communication_error Bad_Length_Prefix)"
  by (rule bad_length_prefix_stops) simp_all

end
