(* ===== verification/Tcp_Connection.thy ===== *)
theory Tcp_Connection
  imports Operations_Map Read_Package Es_Settings "HOL-Library.Multiset"
begin

text \<open>
  \<open>connection/basic_tcp_connection.hpp\<close>: the connection.  It sends packages through a queue with one
  write at a time, dispatches every package it receives to the operation or the subscription that
  waits for its correlation id, and answers heartbeat requests.

  Asio's part is explicit: \<open>post\<close> adds a task to \<open>posted\<close>, which the event loop runs at some later point;
  \<open>async_write\<close> makes a write outstanding (\<open>writing\<close>), which completes later.  The operations that are
  registered are values of the type \<open>'op\<close>; calling one runs code that may use the connection, so a call
  is a parameter, a function of the connection.
\<close>

section \<open>State\<close>

record 'op connection =
  posted :: "tcp_package list"
  message_queue :: "tcp_package list"
  writing :: "bytes option"
  package_no :: uint
  operations_map :: "'op operations_map"
  subscriptions_map :: "'op operations_map"
  socket_open :: bool
  settings :: connection_settings
  connection_name :: string

text \<open>The constructor; \<open>id\<close> is the fresh guid of the name.\<close>

definition mk_connection :: "connection_settings \<Rightarrow> string \<Rightarrow> 'op connection" where
  "mk_connection cs guid_string = \<lparr>posted = [], message_queue = [], writing = None, package_no = 0,
     operations_map = om_empty, subscriptions_map = om_empty, socket_open = False, settings = cs,
     connection_name = ''ES-'' @ guid_string\<rparr>"

definition close_connection :: "('op, 'm) connection_scheme \<Rightarrow> ('op, 'm) connection_scheme" where
  "close_connection c = c\<lparr>socket_open := False\<rparr>"

section \<open>Sending\<close>

text \<open>\<open>async_send(package)\<close> posts the task \<open>enqueue_task\<close>.\<close>

definition async_send :: "tcp_package \<Rightarrow> ('op, 'm) connection_scheme \<Rightarrow> ('op, 'm) connection_scheme" where
  "async_send package c = c\<lparr>posted := posted c @ [package]\<rparr>"

text \<open>The memory handed to \<open>async_write\<close> is \<open>size()\<close> bytes at \<open>data()\<close>.\<close>

definition package_bytes :: "tcp_package \<Rightarrow> bytes option" where
  "package_bytes p = do { b \<leftarrow> data p; rd_range b 0 (size_of p) }"

definition do_async_send :: "('op, 'm) connection_scheme \<Rightarrow> ('op, 'm) connection_scheme option" where
  "do_async_send c =
    (case message_queue c of [] \<Rightarrow> None
     | p # _ \<Rightarrow> do { b \<leftarrow> package_bytes p; Some (c\<lparr>writing := Some b\<rparr>) })"

definition enqueue_task :: "tcp_package \<Rightarrow> ('op, 'm) connection_scheme \<Rightarrow> ('op, 'm) connection_scheme option" where
  "enqueue_task package c =
    (let write_in_progress = message_queue c \<noteq> [];
         c = c\<lparr>message_queue := message_queue c @ [package]\<rparr>
     in if \<not> write_in_progress then do_async_send c else Some c)"

text \<open>The completion handler of the write.\<close>

definition write_completed :: "error_code \<Rightarrow> ('op, 'm) connection_scheme \<Rightarrow> ('op, 'm) connection_scheme option" where
  "write_completed ec c =
    (let c = c\<lparr>writing := None\<rparr> in
     if \<not> failed ec
     then (case message_queue c of [] \<Rightarrow> None
           | _ # q \<Rightarrow> (let c = c\<lparr>message_queue := q\<rparr> in
               if message_queue c \<noteq> [] then do_async_send c else Some c))
     else Some (close_connection c))"

section \<open>Receiving\<close>

definition on_package_received ::
  "('op \<Rightarrow> error_code \<Rightarrow> tcp_package_view \<Rightarrow> ('op, 'm) connection_scheme \<Rightarrow> ('op, 'm) connection_scheme) \<Rightarrow> guid \<Rightarrow>
     error_code \<Rightarrow> tcp_package_view \<Rightarrow> ('op, 'm) connection_scheme \<Rightarrow> ('op, 'm) connection_scheme option"
where
  "on_package_received call new_guid ec v c =
    (let c = c\<lparr>package_no := package_no c + 1\<rparr> in do {
       id_bytes \<leftarrow> view_correlation_id v;
       corr_id \<leftarrow> guid_of id_bytes;
       if om_contains corr_id (operations_map c)
       then (case om_at corr_id (operations_map c) of
           Inl _ \<Rightarrow> None
         | Inr op \<Rightarrow> (let c = call op ec v c in
             Some (c\<lparr>operations_map := om_erase corr_id (operations_map c)\<rparr>)))
       else if om_contains corr_id (subscriptions_map c)
       then (case om_at corr_id (subscriptions_map c) of
           Inl _ \<Rightarrow> None
         | Inr op \<Rightarrow> Some (call op ec v c))
       else do {
         command \<leftarrow> view_command v;
         if command = Heartbeat_Request_Command
         then do { p \<leftarrow> unauthenticated_package Heartbeat_Response_Command flags_none new_guid [];
                   Some (async_send p c) }
         else if command = Heartbeat_Response_Command then Some c
         else if command = Bad_Request_Command then Some c
         else Some c } })"

text \<open>The token of the read operation: the frame is the first \<open>frame_size\<close> bytes of the buffer.  The
  log statement evaluates the command and the message before the dispatch.  The flag says whether the
  connection reads on.\<close>

definition package_read ::
  "('op \<Rightarrow> error_code \<Rightarrow> tcp_package_view \<Rightarrow> ('op, 'm) connection_scheme \<Rightarrow> ('op, 'm) connection_scheme) \<Rightarrow> guid \<Rightarrow>
     error_code \<Rightarrow> bytes \<Rightarrow> nat \<Rightarrow> ('op, 'm) connection_scheme \<Rightarrow> (('op, 'm) connection_scheme \<times> bool) option"
where
  "package_read call new_guid ec buffer frame_size c =
    (if \<not> failed ec
     then do {
       v \<leftarrow> mk_view (Some buffer) (word_of_nat frame_size);
       _ \<leftarrow> view_command v;
       _ \<leftarrow> view_message v;
       c \<leftarrow> on_package_received call new_guid ec v c;
       Some (c, True) }
     else Some (close_connection c, False))"

section \<open>Interleavings of sending\<close>

text \<open>What can happen between the application, the event loop and the socket, with a record of it.
  Every package asked to be sent owns its frame.\<close>

datatype send_event =
  Asked tcp_package | Accepted tcp_package | Finished bytes | Write_Failed error_code

definition owns_frame :: "tcp_package \<Rightarrow> bool" where
  "owns_frame p \<longleftrightarrow> (\<exists>m. p_package p = Some m \<and> length m = p_length p + 4)"

inductive send_run :: "send_event list \<Rightarrow> ('op, 'm) connection_scheme \<Rightarrow> bool" where
  start: "posted c = [] \<Longrightarrow> message_queue c = [] \<Longrightarrow> writing c = None \<Longrightarrow> send_run [] c"
| ask: "send_run evs c \<Longrightarrow> owns_frame p \<Longrightarrow> send_run (evs @ [Asked p]) (async_send p c)"
| task: "send_run evs c \<Longrightarrow> posted c = xs @ p # ys \<Longrightarrow> enqueue_task p (c\<lparr>posted := xs @ ys\<rparr>) = Some c' \<Longrightarrow>
    send_run (evs @ [Accepted p]) c'"
| written: "send_run evs c \<Longrightarrow> writing c = Some b \<Longrightarrow> write_completed success c = Some c' \<Longrightarrow>
    send_run (evs @ [Finished b]) c'"
| write_error: "send_run evs c \<Longrightarrow> writing c = Some b \<Longrightarrow> failed ec \<Longrightarrow> write_completed ec c = Some c' \<Longrightarrow>
    send_run (evs @ [Write_Failed ec]) c'"

fun asked :: "send_event list \<Rightarrow> tcp_package list" where
  "asked [] = []" | "asked (Asked p # es) = p # asked es" | "asked (_ # es) = asked es"

fun accepted :: "send_event list \<Rightarrow> tcp_package list" where
  "accepted [] = []" | "accepted (Accepted p # es) = p # accepted es" | "accepted (_ # es) = accepted es"

fun finished :: "send_event list \<Rightarrow> bytes list" where
  "finished [] = []" | "finished (Finished b # es) = b # finished es" | "finished (_ # es) = finished es"

definition write_failed :: "send_event list \<Rightarrow> bool" where
  "write_failed evs \<longleftrightarrow> (\<exists>ec. Write_Failed ec \<in> set evs)"

section \<open>Lemmas on sending\<close>

lemma events_append [simp]:
  "asked (es @ fs) = asked es @ asked fs" "accepted (es @ fs) = accepted es @ accepted fs"
  "finished (es @ fs) = finished es @ finished fs"
proof -
  show "asked (es @ fs) = asked es @ asked fs"
    by (induction es rule: asked.induct) auto
  show "accepted (es @ fs) = accepted es @ accepted fs"
    by (induction es rule: accepted.induct) auto
  show "finished (es @ fs) = finished es @ finished fs"
    by (induction es rule: finished.induct) auto
qed

lemma write_failed_append [simp]: "write_failed (es @ [e]) \<longleftrightarrow> write_failed es \<or> (\<exists>ec. e = Write_Failed ec)"
  by (auto simp: write_failed_def)

definition frame_of :: "tcp_package \<Rightarrow> bytes" where
  "frame_of p = the (p_package p)"

lemma package_bytes_owned: "owns_frame p \<Longrightarrow> package_bytes p = Some (frame_of p)"
  by (auto simp: owns_frame_def package_bytes_def data_def size_of_def frame_of_def rd_range_def)

text \<open>The queue without a failed write: what was accepted is what is written and what is queued, in
  order, and exactly the front of the queue is being written.\<close>

definition queue_ok :: "send_event list \<Rightarrow> ('op, 'm) connection_scheme \<Rightarrow> bool" where
  "queue_ok evs c \<longleftrightarrow> map frame_of (accepted evs) = finished evs @ map frame_of (message_queue c) \<and>
     writing c = (case message_queue c of [] \<Rightarrow> None | p # _ \<Rightarrow> Some (frame_of p))"

definition queue_inv :: "send_event list \<Rightarrow> ('op, 'm) connection_scheme \<Rightarrow> bool" where
  "queue_inv evs c \<longleftrightarrow> (\<forall>p \<in> set (posted c) \<union> set (message_queue c). owns_frame p) \<and>
     mset (asked evs) = mset (accepted evs) + mset (posted c) \<and>
     (if write_failed evs then message_queue c \<noteq> [] \<and> writing c = None \<and> \<not> socket_open c
      else queue_ok evs c)"

lemma enqueue_task_spec:
  assumes "owns_frame p"
  shows "\<exists>c'. enqueue_task p c = Some c' \<and> message_queue c' = message_queue c @ [p] \<and>
    posted c' = posted c \<and> socket_open c' = socket_open c \<and>
    writing c' = (if message_queue c = [] then Some (frame_of p) else writing c)"
  using assms by (auto simp: enqueue_task_def do_async_send_def package_bytes_owned)

lemma write_completed_spec:
  assumes "message_queue c = p # q" and "\<forall>p \<in> set q. owns_frame p"
  shows "\<exists>c'. write_completed success c = Some c' \<and> message_queue c' = q \<and> posted c' = posted c \<and>
    writing c' = (case q of [] \<Rightarrow> None | p # _ \<Rightarrow> Some (frame_of p))"
  using assms by (cases q) (auto simp: write_completed_def do_async_send_def package_bytes_owned)

lemma write_error_spec:
  "failed ec \<Longrightarrow> \<exists>c'. write_completed ec c = Some c' \<and> message_queue c' = message_queue c \<and>
     posted c' = posted c \<and> writing c' = None \<and> \<not> socket_open c'"
  by (simp add: write_completed_def close_connection_def)

lemma send_run_inv: "send_run evs c \<Longrightarrow> queue_inv evs c"
proof (induction rule: send_run.induct)
  case (start c)
  then show ?case
    by (simp add: queue_inv_def queue_ok_def write_failed_def)
next
  case (ask evs c p)
  then show ?case
    by (auto simp: queue_inv_def queue_ok_def async_send_def)
next
  case (task evs c xs p ys c')
  then have "owns_frame p"
    by (auto simp: queue_inv_def)
  with enqueue_task_spec [OF this, of "c\<lparr>posted := xs @ ys\<rparr>"] task show ?case
    by (auto simp: queue_inv_def queue_ok_def split: list.splits)
next
  case (written evs c b c')
  then obtain p q where q: "message_queue c = p # q" "b = frame_of p" "\<not> write_failed evs"
    by (auto simp: queue_inv_def queue_ok_def split: list.splits if_splits)
  with write_completed_spec [OF q(1)] written show ?case
    by (auto simp: queue_inv_def queue_ok_def)
next
  case (write_error evs c b ec c')
  then have "message_queue c \<noteq> []"
    by (auto simp: queue_inv_def queue_ok_def split: list.splits if_splits)
  with write_error_spec [OF write_error.hyps(3), of c] write_error show ?case
    by (auto simp: queue_inv_def)
qed

text \<open>After a failed write nothing is written any more.\<close>

lemma snoc_eq_append:
  "evs @ [e] = xs @ ys \<Longrightarrow> ys = [] \<or> (\<exists>zs. ys = zs @ [e] \<and> evs = xs @ zs)"
proof (cases ys rule: rev_cases)
  case (snoc zs z)
  assume "evs @ [e] = xs @ ys"
  then have "evs @ [e] = (xs @ zs) @ [z]"
    using snoc by simp
  then show ?thesis
    using snoc by (simp only: append1_eq_conv) simp
qed simp

lemma write_failed_mono: "write_failed xs \<Longrightarrow> write_failed (xs @ ys)"
  by (auto simp: write_failed_def)

lemma send_run_after_failure:
  "send_run evs c \<Longrightarrow> evs = xs @ ys \<Longrightarrow> write_failed xs \<Longrightarrow> finished ys = []"
proof (induction arbitrary: xs ys rule: send_run.induct)
  case (written evs c b c')
  have "\<not> write_failed evs"
    using send_run_inv [OF written.hyps(1)] written.hyps(2) by (auto simp: queue_inv_def)
  then show ?case
    using snoc_eq_append [OF written.prems(1)] write_failed_mono [OF written.prems(2)] by auto
next
  case (ask evs c p)
  then show ?case
    using snoc_eq_append [OF ask.prems(1)] by auto
next
  case (task evs c us p vs c')
  then show ?case
    using snoc_eq_append [OF task.prems(1)] by auto
next
  case (write_error evs c b ec c')
  then show ?case
    using snoc_eq_append [OF write_error.prems(1)] by auto
qed simp

section \<open>Lemmas on receiving\<close>

lemma om_contains_at: "om_contains k m \<Longrightarrow> \<exists>op. om_at k m = Inr op \<and> map_of m k = Some op"
  by (auto simp: om_contains_iff om_at_map_of)

lemma om_not_contains: "\<not> om_contains k m \<longleftrightarrow> map_of m k = None"
  by (simp add: om_contains_iff)

text \<open>Dispatching a valid frame, one lemma per branch.\<close>

lemma frame_id_guid:
  assumes "frame_ok f n"
  shows "view_correlation_id (frame_view f n) = Some (take 16 (drop 6 f))"
    and "guid_of (take 16 (drop 6 f)) = Some (take 16 (drop 6 f))"
proof -
  show "view_correlation_id (frame_view f n) = Some (take 16 (drop 6 f))"
    by (rule frame_view_correlation_id [OF assms])
  show "guid_of (take 16 (drop 6 f)) = Some (take 16 (drop 6 f))"
  proof (rule guid_of_guid)
    have "22 \<le> length f"
      using assms by (auto simp: frame_ok_def)
    then show "is_guid (take 16 (drop 6 f))"
      by (simp add: is_guid_def)
  qed
qed

lemma dispatch_operation:
  assumes "frame_ok f n" and "map_of (operations_map c) (take 16 (drop 6 f)) = Some op"
    and "c1 = call op ec (frame_view f n) (c\<lparr>package_no := package_no c + 1\<rparr>)"
  shows "on_package_received call g ec (frame_view f n) c =
    Some (c1\<lparr>operations_map := om_erase (take 16 (drop 6 f)) (operations_map c1)\<rparr>)"
  using assms by (simp add: on_package_received_def frame_id_guid [OF assms(1)] om_contains_iff om_at_map_of Let_def)

lemma dispatch_subscription:
  assumes "frame_ok f n" and "map_of (operations_map c) (take 16 (drop 6 f)) = None"
    and "map_of (subscriptions_map c) (take 16 (drop 6 f)) = Some op"
  shows "on_package_received call g ec (frame_view f n) c =
    Some (call op ec (frame_view f n) (c\<lparr>package_no := package_no c + 1\<rparr>))"
  using assms by (simp add: on_package_received_def frame_id_guid [OF assms(1)] om_contains_iff om_at_map_of Let_def)

lemma dispatch_other:
  assumes "frame_ok f n" and "map_of (operations_map c) (take 16 (drop 6 f)) = None"
    and "map_of (subscriptions_map c) (take 16 (drop 6 f)) = None" and "is_guid g"
  shows "on_package_received call g ec (frame_view f n) c =
    Some (if command_of (f ! 4) = Heartbeat_Request_Command
      then async_send \<lparr>p_package = Some (unauthenticated_frame Heartbeat_Response_Command flags_none g []),
             p_length = 18\<rparr> (c\<lparr>package_no := package_no c + 1\<rparr>)
      else c\<lparr>package_no := package_no c + 1\<rparr>)"
proof -
  have "and flags_none flags_authenticated = 0"
    by (simp add: flags_none_def)
  from unauthenticated_package_frame [OF this assms(4), of Heartbeat_Response_Command "[]"] assms(1-3) show ?thesis
    by (simp add: on_package_received_def frame_id_guid [OF assms(1)] om_contains_iff Let_def frame_view_command)
qed

lemma dispatch_defined:
  assumes "frame_ok f n" and "is_guid g"
  shows "on_package_received call g ec (frame_view f n) c \<noteq> None"
  using dispatch_operation [OF assms(1), where call = call and ec = ec and c = c and g = g]
    dispatch_subscription [OF assms(1), where call = call and ec = ec and c = c and g = g]
    dispatch_other [OF assms(1) _ _ assms(2), where call = call and ec = ec and c = c]
  by (cases "map_of (operations_map c) (take 16 (drop 6 f))";
      cases "map_of (subscriptions_map c) (take 16 (drop 6 f))") auto

section \<open>Properties\<close>

text \<open>C15: the send queue.  In every interleaving in which no write has failed, the packages are written
  in the order in which their tasks ran, each exactly once and one at a time: the frames of the
  accepted packages are the frames written so far followed by those queued, a write is outstanding
  exactly when the queue is not empty, and it is the write of its front.  No package that was asked to
  be sent is lost or duplicated, and the next event is always defined: every posted task can run, and
  the completion of the outstanding write finds its package.\<close>

theorem send_queue_order:
  assumes "send_run evs c" and "\<not> write_failed evs"
  shows "map frame_of (accepted evs) = finished evs @ map frame_of (message_queue c) \<and>
    writing c = (case message_queue c of [] \<Rightarrow> None | p # _ \<Rightarrow> Some (frame_of p)) \<and>
    mset (asked evs) = mset (accepted evs) + mset (posted c) \<and>
    (\<forall>p \<in> set (posted c). enqueue_task p c \<noteq> None) \<and>
    (writing c \<noteq> None \<longrightarrow> write_completed success c \<noteq> None)"
proof -
  have inv: "queue_inv evs c"
    by (rule send_run_inv [OF assms(1)])
  moreover have "enqueue_task p c \<noteq> None" if "p \<in> set (posted c)" for p
    using enqueue_task_spec [of p c] inv that by (auto simp: queue_inv_def)
  moreover have "write_completed success c \<noteq> None" if "writing c \<noteq> None"
    using inv that assms(2) write_completed_spec [of c]
    by (cases "message_queue c") (auto simp: queue_inv_def queue_ok_def)
  ultimately show ?thesis
    using assms(2) by (auto simp: queue_inv_def queue_ok_def)
qed

definition sample_package :: tcp_package where
  "sample_package = \<lparr>p_package = Some (unauthenticated_frame Ping_Command 0 (replicate 16 7) []), p_length = 18\<rparr>"

lemma sample_package_owns: "owns_frame sample_package"
  by (simp add: owns_frame_def sample_package_def length_unauthenticated_frame is_guid_def)

definition sample_connection :: "nat connection" where
  "sample_connection = mk_connection connection_settings_default ''1''"

lemma sample_send:
  "\<exists>c :: nat connection. send_run [Asked sample_package, Accepted sample_package] c \<and>
     writing c = Some (frame_of sample_package) \<and> message_queue c = [sample_package] \<and> posted c = []"
proof -
  have 0: "send_run [] sample_connection"
    by (rule send_run.start) (simp_all add: sample_connection_def mk_connection_def)
  let ?c = "async_send sample_package sample_connection"
  have 1: "send_run [Asked sample_package] ?c"
    using send_run.ask [OF 0 sample_package_owns] by simp
  have p: "posted ?c = [] @ sample_package # []"
    by (simp add: async_send_def sample_connection_def mk_connection_def)
  obtain c' where c': "enqueue_task sample_package (?c\<lparr>posted := [] @ []\<rparr>) = Some c'"
      "message_queue c' = [sample_package]" "posted c' = []" "writing c' = Some (frame_of sample_package)"
    using enqueue_task_spec [OF sample_package_owns, of "?c\<lparr>posted := []\<rparr>"]
    by (auto simp: async_send_def sample_connection_def mk_connection_def)
  from send_run.task [OF 1 p c'(1)] c' show ?thesis
    by auto
qed

theorem send_queue_order_witness:
  "\<exists>evs c. send_run evs (c :: nat connection) \<and> accepted evs = [sample_package] \<and>
     writing c = Some (frame_of sample_package) \<and> write_completed success c \<noteq> None"
proof -
  obtain c :: "nat connection" where c: "send_run [Asked sample_package, Accepted sample_package] c"
      "writing c = Some (frame_of sample_package)"
    using sample_send by blast
  have "\<not> write_failed [Asked sample_package, Accepted sample_package]"
    by (simp add: write_failed_def)
  from send_queue_order [OF c(1) this] c(2) have "write_completed success c \<noteq> None"
    by auto
  with c show ?thesis
    by (intro exI [of _ "[Asked sample_package, Accepted sample_package]"] exI [of _ c]) simp
qed

text \<open>C32: a failed write ends sending for good.  The connection is closed, but the package whose write
  failed stays at the front of the queue, so that a write looks to be in progress for ever: whatever
  happens afterwards, no frame is written any more, and packages that are asked to be sent pile up in
  the queue with no error reported to anybody.\<close>

theorem write_error_is_final:
  assumes "send_run (evs @ evs') c" and "write_failed evs"
  shows "finished evs' = [] \<and> writing c = None \<and> \<not> socket_open c \<and> message_queue c \<noteq> [] \<and>
    (owns_frame p \<longrightarrow> (\<exists>c'. enqueue_task p c = Some c' \<and> writing c' = None \<and> message_queue c' = message_queue c @ [p]))"
proof -
  have "write_failed (evs @ evs')"
    using assms(2) by (auto simp: write_failed_def)
  then have inv: "message_queue c \<noteq> []" "writing c = None" "\<not> socket_open c"
    using send_run_inv [OF assms(1)] by (simp_all add: queue_inv_def)
  with send_run_after_failure [OF assms(1) refl assms(2)] enqueue_task_spec [of p c] show ?thesis
    by auto
qed

theorem write_error_is_final_witness:
  "\<exists>evs c. send_run evs (c :: nat connection) \<and> write_failed evs \<and> finished evs = [] \<and> message_queue c \<noteq> []"
proof -
  obtain c :: "nat connection" where c: "send_run [Asked sample_package, Accepted sample_package] c"
      "writing c = Some (frame_of sample_package)"
    using sample_send by blast
  obtain c' where c': "write_completed operation_aborted c = Some c'"
    using write_error_spec [of operation_aborted c] by auto
  let ?evs = "[Asked sample_package, Accepted sample_package, Write_Failed operation_aborted]"
  have run: "send_run (?evs @ []) c'"
    using send_run.write_error [OF c failed_aborted c'] by simp
  have "write_failed ?evs"
    by (auto simp: write_failed_def)
  with write_error_is_final [OF run this, of sample_package] run show ?thesis
    by (intro exI [of _ ?evs] exI [of _ c']) simp
qed

text \<open>C14: dispatch.  A valid frame whose correlation id is registered reaches that operation, with no
  error and as it is, and the operation is unregistered afterwards, whatever it did to the
  connection; a subscription is reached in the same way and stays registered unless it unregisters
  itself.  With no one waiting for it, a heartbeat request is answered by exactly one heartbeat
  response, and every other frame changes nothing but the count of packages.\<close>

theorem package_dispatch:
  assumes "frame_ok f n" and "is_guid g"
    and "k = take 16 (drop 6 f)" and "v = frame_view f n" and "c0 = c\<lparr>package_no := package_no c + 1\<rparr>"
  shows "\<exists>c'. on_package_received call g ec v c = Some c' \<and>
    (case (map_of (operations_map c) k, map_of (subscriptions_map c) k) of
       (Some op, _) \<Rightarrow> map_of (operations_map c') = (map_of (operations_map (call op ec v c0)))(k := None) \<and>
          c' = (call op ec v c0)\<lparr>operations_map := operations_map c'\<rparr>
     | (None, Some sub) \<Rightarrow> c' = call sub ec v c0
     | (None, None) \<Rightarrow> c' = (if command_of (f ! 4) = Heartbeat_Request_Command
          then c0\<lparr>posted := posted c @ [\<lparr>p_package = Some (unauthenticated_frame Heartbeat_Response_Command flags_none g []),
                 p_length = 18\<rparr>]\<rparr>
          else c0))"
proof (cases "map_of (operations_map c) k")
  case None
  show ?thesis
  proof (cases "map_of (subscriptions_map c) k")
    case N: None
    with None assms show ?thesis
      using dispatch_other [OF assms(1) _ _ assms(2), where call = call and ec = ec and c = c]
      by (auto simp: async_send_def)
  next
    case (Some sub)
    with None assms show ?thesis
      using dispatch_subscription [OF assms(1), where call = call and ec = ec and c = c] by auto
  qed
next
  case (Some op)
  with assms show ?thesis
    using dispatch_operation [OF assms(1), where call = call and ec = ec and c = c and op = op, OF _ refl]
    by (auto simp: map_of_om_erase)
qed

definition heartbeat_frame :: bytes where
  "heartbeat_frame = unauthenticated_frame Heartbeat_Request_Command 0 (replicate 16 9) []"

lemma heartbeat_frame_ok: "frame_ok heartbeat_frame 22" "heartbeat_frame ! 4 = command_code Heartbeat_Request_Command"
  using unauthenticated_frame_ok [of "replicate 16 9" 0 Heartbeat_Request_Command "[]"]
  by (simp_all add: heartbeat_frame_def is_guid_def)

theorem package_dispatch_witness:
  "\<exists>c'. on_package_received (\<lambda>_ _ _ c. c) (replicate 16 5) success (frame_view heartbeat_frame 22) sample_connection = Some c' \<and>
     length (posted c') = 1"
proof -
  have "is_guid (replicate 16 (5 :: byte))"
    by (simp add: is_guid_def)
  from package_dispatch [OF heartbeat_frame_ok(1) this refl refl refl, of "\<lambda>_ _ _ c. c" success sample_connection]
  show ?thesis
    using command_of_code [of Heartbeat_Request_Command] heartbeat_frame_ok(2)
    by (auto simp: sample_connection_def mk_connection_def om_empty_def is_named_def)
qed

text \<open>C25: which frames from the server are safe to receive.  For a frame that passed the length check,
  receiving it is defined if and only if it is not flagged as authenticated or its login and password
  lie inside it; every other frame makes the client read outside the frame or through a null pointer.\<close>

theorem receive_defined_iff:
  assumes "is_frame f" and "is_guid g"
  shows "package_read call g success f (length f) c \<noteq> None \<longleftrightarrow>
    (f ! 5 = flags_authenticated \<longrightarrow> 23 + login_len f < length f \<and> 24 + login_len f + password_len f \<le> length f)"
proof -
  have len: "22 \<le> length f" "length f < 2 ^ 32"
    using assms(1) by (auto simp: is_frame_def)
  have iff: "frame_ok f (length f) \<longleftrightarrow>
      (f ! 5 = flags_authenticated \<longrightarrow> 23 + login_len f < length f \<and> 24 + login_len f + password_len f \<le> length f)"
    using len by (simp add: frame_ok_def)
  show ?thesis
  proof (cases "frame_ok f (length f)")
    case True
    then have "mk_view (Some f) (word_of_nat (length f)) = Some (frame_view f (length f))"
      using len by (simp add: mk_view_ok)
    with True len iff dispatch_defined [OF True assms(2), of call success c] show ?thesis
      by (auto simp: package_read_def frame_view_command frame_view_message)
  next
    case False
    have "view_command v = None" if "mk_view (Some f) (word_of_nat (length f)) = Some v" for v
      using mk_view_valid_iff [of "length f" f] len False that
      by (auto simp: view_command_def view_is_valid_def)
    then have "package_read call g success f (length f) c = None"
      by (auto simp: package_read_def split: Option.bind_splits)
    with False iff show ?thesis
      by simp
  qed
qed

theorem receive_defined_iff_witness:
  "package_read (\<lambda>_ _ _ c. c) (replicate 16 5) success heartbeat_frame (length heartbeat_frame) sample_connection \<noteq> None"
proof -
  have "length (command_code Heartbeat_Request_Command # 0 # replicate 16 (9 :: byte)) = 18"
    by simp
  then have "is_frame heartbeat_frame"
    unfolding is_frame_def heartbeat_frame_def unauthenticated_frame_def
    by (intro exI [of _ "command_code Heartbeat_Request_Command # 0 # replicate 16 9"]) simp
  moreover have "heartbeat_frame ! 5 \<noteq> flags_authenticated"
    using unauthenticated_frame_ok(3) [of "replicate 16 9" 0 Heartbeat_Request_Command "[]"]
    by (simp add: heartbeat_frame_def is_guid_def flags_authenticated_def)
  ultimately show ?thesis
    by (subst receive_defined_iff) (simp_all add: is_guid_def)
qed

end
