(* ===== verification/Client_Operations.thy ===== *)
theory Client_Operations
  imports Operation_Timeout Tcp_Connection Write_Operations
begin

text \<open>
  The connection together with the operations that wait on it: \<open>async_send(package, handler)\<close> of
  \<open>connection/basic_tcp_connection.hpp\<close>, \<open>tcp/operation.hpp\<close> on the maps of the connection, and the receive
  loop with the handlers that are really registered.  A step of the client is anything the
  application, the event loop, the timers, the socket and the server can do next.

  The client refines the model of \<open>Operation_Timeout\<close>, in which a frame is only its correlation id: every
  step of the client is a step of that model or changes nothing it shows, so that its properties hold for
  the bytes on the socket.
\<close>

section \<open>State\<close>

text \<open>What is registered: the lambda of \<open>operation_op\<close>, which knows its deadline and the user's handler, or the
  lambda of a subscription.\<close>

datatype 'h registered = Op_Handler guid 'h | Sub_Handler 'h

record 'h client = "'h registered connection" +
  cl_deadlines :: "(guid \<times> timer) list"
  cl_calls :: "(guid \<times> 'h \<times> error_code \<times> tcp_package_view) list"
  cl_sub_calls :: "('h \<times> error_code \<times> tcp_package_view) list"
  cl_thrown :: "exn option"

definition mk_client :: "connection_settings \<Rightarrow> string \<Rightarrow> 'h client" where
  "mk_client cs guid_string = connection.extend (mk_connection cs guid_string)
     \<lparr>cl_deadlines = [], cl_calls = [], cl_sub_calls = [], cl_thrown = None\<rparr>"

definition set_timer :: "guid \<Rightarrow> timer \<Rightarrow> ('h, 'm) client_scheme \<Rightarrow> ('h, 'm) client_scheme" where
  "set_timer k t c = c\<lparr>cl_deadlines := (k, t) # filter (\<lambda>e. fst e \<noteq> k) (cl_deadlines c)\<rparr>"

section \<open>Operations of the code\<close>

text \<open>\<open>deadline->cancel()\<close>.\<close>

definition client_cancel :: "guid \<Rightarrow> ('h, 'm) client_scheme \<Rightarrow> ('h, 'm) client_scheme" where
  "client_cancel key c =
    (if map_of (cl_deadlines c) key = Some Waiting then set_timer key (Queued operation_aborted) c else c)"

text \<open>A call of what is registered.\<close>

fun client_call :: "'h registered \<Rightarrow> error_code \<Rightarrow> tcp_package_view \<Rightarrow> ('h, 'm) client_scheme \<Rightarrow> ('h, 'm) client_scheme" where
  "client_call (Op_Handler key h) ec v c =
    (let c = client_cancel key c in c\<lparr>cl_calls := cl_calls c @ [(key, h, ec, v)]\<rparr>)"
| "client_call (Sub_Handler h) ec v c = c\<lparr>cl_sub_calls := cl_sub_calls c @ [(h, ec, v)]\<rparr>"

text \<open>\<open>operation_op::initiate\<close>.\<close>

definition client_initiate :: "guid \<Rightarrow> 'h \<Rightarrow> ('h, 'm) client_scheme \<Rightarrow> ('h, 'm) client_scheme" where
  "client_initiate key h c =
     set_timer key Waiting (c\<lparr>operations_map := register_op key (Op_Handler key h) (operations_map c)\<rparr>)"

text \<open>\<open>async_send(package, handler)\<close>: the key is the correlation id, read through a view of the package.\<close>

definition package_key :: "tcp_package \<Rightarrow> guid option" where
  "package_key package = do { v \<leftarrow> to_view package; i \<leftarrow> view_correlation_id v; guid_of i }"

definition client_send :: "tcp_package \<Rightarrow> 'h \<Rightarrow> ('h, 'm) client_scheme \<Rightarrow> ('h, 'm) client_scheme option" where
  "client_send package h c = do {
     key \<leftarrow> package_key package;
     let c = async_send package c;
     Some (client_initiate key h c) }"

text \<open>\<open>operation_op::operator()\<close>.\<close>

definition client_call_and_erase :: "guid \<Rightarrow> error_code \<Rightarrow> tcp_package_view \<Rightarrow> 'h client \<Rightarrow> 'h client" where
  "client_call_and_erase key ec v c =
    (case om_at key (operations_map c) of
       Inl e \<Rightarrow> c\<lparr>cl_thrown := Some e\<rparr>
     | Inr r \<Rightarrow> (let c = client_call r ec v c in c\<lparr>operations_map := om_erase key (operations_map c)\<rparr>))"

definition client_deadline_completed :: "guid \<Rightarrow> error_code \<Rightarrow> 'h client \<Rightarrow> 'h client" where
  "client_deadline_completed key ec c =
    (if \<not> failed ec then client_call_and_erase key (connection_error Operation_Timeout) null_view c
     else if ec = operation_aborted then c
     else if om_contains key (operations_map c) then client_call_and_erase key ec null_view c
     else c)"

section \<open>Steps\<close>

text \<open>An operation is sent under a fresh correlation id; subscriptions come and go; posted tasks run and writes
  complete; deadlines expire and their completions run; frames arrive, whatever is in them, and the
  socket fails.  After an exception has left a completion handler nothing happens any more.\<close>

inductive client_step :: "'h client \<Rightarrow> 'h client \<Rightarrow> bool" where
  send: "cl_thrown c = None \<Longrightarrow> package_key p = Some key \<Longrightarrow> map_of (cl_deadlines c) key = None \<Longrightarrow>
    client_send p h c = Some c' \<Longrightarrow> client_step c c'"
| subscribe: "cl_thrown c = None \<Longrightarrow>
    client_step c (c\<lparr>subscriptions_map := register_op key (Sub_Handler h) (subscriptions_map c)\<rparr>)"
| unsubscribe: "cl_thrown c = None \<Longrightarrow> client_step c (c\<lparr>subscriptions_map := om_erase key (subscriptions_map c)\<rparr>)"
| notify: "cl_thrown c = None \<Longrightarrow> client_step c (async_send p c)"
| task: "cl_thrown c = None \<Longrightarrow> posted c = xs @ p # ys \<Longrightarrow> enqueue_task p (c\<lparr>posted := xs @ ys\<rparr>) = Some c' \<Longrightarrow>
    client_step c c'"
| written: "cl_thrown c = None \<Longrightarrow> writing c = Some b \<Longrightarrow> write_completed ec c = Some c' \<Longrightarrow> client_step c c'"
| expire: "cl_thrown c = None \<Longrightarrow> map_of (cl_deadlines c) key = Some Waiting \<Longrightarrow>
    client_step c (set_timer key (Queued success) c)"
| wait_fails: "cl_thrown c = None \<Longrightarrow> map_of (cl_deadlines c) key = Some Waiting \<Longrightarrow> failed ec \<Longrightarrow>
    ec \<noteq> operation_aborted \<Longrightarrow> client_step c (set_timer key (Queued ec) c)"
| deadline: "cl_thrown c = None \<Longrightarrow> map_of (cl_deadlines c) key = Some (Queued ec) \<Longrightarrow>
    client_step c (client_deadline_completed key ec (set_timer key Completed c))"
| receive: "cl_thrown c = None \<Longrightarrow> package_read client_call g success f n c = Some (c', reads_on) \<Longrightarrow> client_step c c'"
| receive_error: "cl_thrown c = None \<Longrightarrow> failed ec \<Longrightarrow> package_read client_call g ec f n c = Some (c', reads_on) \<Longrightarrow>
    client_step c c'"

inductive client_reachable :: "'h client \<Rightarrow> bool" where
  start: "client_reachable (mk_client cs guid_string)"
| step: "client_reachable c \<Longrightarrow> client_step c c' \<Longrightarrow> client_reachable c'"

section \<open>The refinement\<close>

fun handler_of :: "'h registered \<Rightarrow> 'h" where
  "handler_of (Op_Handler k h) = h"
| "handler_of (Sub_Handler h) = h"

definition op_view :: "'h client \<Rightarrow> 'h op_state" where
  "op_view c = \<lparr>ops = map (\<lambda>(k, r). (k, handler_of r)) (operations_map c), deadlines = cl_deadlines c,
     calls = cl_calls c, thrown = cl_thrown c\<rparr>"

text \<open>The map of operations holds operations, each with its own key, and that of subscriptions holds
  subscriptions.\<close>

definition keys_ok :: "'h client \<Rightarrow> bool" where
  "keys_ok c \<longleftrightarrow> (\<forall>(k, r) \<in> set (operations_map c). \<exists>h. r = Op_Handler k h) \<and>
     (\<forall>(k, r) \<in> set (subscriptions_map c). \<exists>h. r = Sub_Handler h)"

named_theorems op_view_simps "how the operations of the client look through op_view"

lemma om_at_map: "om_at k (map (\<lambda>(k, r). (k, f r)) m) = map_sum id f (om_at k m)"
  by (induction k m rule: om_at.induct) auto

lemma om_maps [op_view_simps]:
  "om_contains k (map (\<lambda>(k, r). (k, f r)) m) = om_contains k m"
  "om_erase k (map (\<lambda>(k, r). (k, f r)) m) = map (\<lambda>(k, r). (k, f r)) (om_erase k m)"
  "register_op k (f r) (map (\<lambda>(k, r). (k, f r)) m) = map (\<lambda>(k, r). (k, f r)) (register_op k r m)"
proof -
  show c: "om_contains k (map (\<lambda>(k, r). (k, f r)) m) = om_contains k m"
    by (induction m) (auto simp: om_contains_def)
  show "om_erase k (map (\<lambda>(k, r). (k, f r)) m) = map (\<lambda>(k, r). (k, f r)) (om_erase k m)"
    by (induction m) (auto simp: om_erase_def)
  show "register_op k (f r) (map (\<lambda>(k, r). (k, f r)) m) = map (\<lambda>(k, r). (k, f r)) (register_op k r m)"
    using c by (simp add: register_op_def om_contains_def)
qed

lemma op_view_sel [simp]:
  "thrown (op_view c) = cl_thrown c" "calls (op_view c) = cl_calls c"
  "deadline (op_view c) k = map_of (cl_deadlines c) k" "om_contains k (ops (op_view c)) = om_contains k (operations_map c)"
  by (simp_all add: op_view_def deadline_def om_maps)

lemma op_view_set_timer [op_view_simps]: "op_view (set_timer k t c) = set_deadline k t (op_view c)"
  by (simp add: op_view_def set_timer_def set_deadline_def)

lemma op_view_initiate [op_view_simps]: "op_view (client_initiate k h c) = op_initiate k h (op_view c)"
  using om_maps(3) [of k handler_of "Op_Handler k h" "operations_map c"]
  by (simp add: client_initiate_def op_initiate_def op_view_set_timer) (simp add: op_view_def)

lemma op_view_cancel [op_view_simps]: "op_view (client_cancel k c) = deadline_cancel k (op_view c)"
  by (simp add: client_cancel_def deadline_cancel_def op_view_simps)

lemma op_view_call: "op_view (client_call (Op_Handler k h) ec v c) = run_registered k h ec v (op_view c)"
  unfolding client_call.simps run_registered_def Let_def op_view_cancel [symmetric]
  by (simp add: op_view_def)

lemma om_at_set: "om_at k m = Inr r \<Longrightarrow> (k, r) \<in> set m"
  by (induction k m rule: om_at.induct) (auto split: if_splits)

lemma om_at_key: "keys_ok c \<Longrightarrow> om_at k (operations_map c) = Inr r \<Longrightarrow> \<exists>h. r = Op_Handler k h"
  by (fastforce simp: keys_ok_def dest: om_at_set)

lemma om_at_sub: "keys_ok c \<Longrightarrow> om_at k (subscriptions_map c) = Inr r \<Longrightarrow> \<exists>h. r = Sub_Handler h"
  by (fastforce simp: keys_ok_def dest: om_at_set)

lemma op_view_erase: "op_view (c\<lparr>operations_map := om_erase k (operations_map c)\<rparr>) =
  (op_view c)\<lparr>ops := om_erase k (ops (op_view c))\<rparr>"
  by (simp add: op_view_def om_maps)

lemma op_view_call_and_erase:
  assumes "keys_ok c"
  shows "op_view (client_call_and_erase k ec v c) = call_and_erase k ec v (op_view c)"
proof (cases "om_at k (operations_map c)")
  case (Inl e)
  then have "om_at k (ops (op_view c)) = Inl e"
    by (simp add: op_view_def om_at_map)
  with Inl show ?thesis
    by (simp add: client_call_and_erase_def call_and_erase_def) (simp add: op_view_def)
next
  case (Inr r)
  then obtain h where r: "r = Op_Handler k h"
    using om_at_key [OF assms] by blast
  then have "om_at k (ops (op_view c)) = Inr h"
    using Inr by (simp add: op_view_def om_at_map)
  with Inr r show ?thesis
    by (simp add: client_call_and_erase_def call_and_erase_def Let_def op_view_erase op_view_call
        del: client_call.simps)
qed

section \<open>What does not touch the operations\<close>

text \<open>The same operations, deadlines, calls and exception.\<close>

definition same_operations :: "'h client \<Rightarrow> 'h client \<Rightarrow> bool" where
  "same_operations c c' \<longleftrightarrow> operations_map c' = operations_map c \<and> cl_deadlines c' = cl_deadlines c \<and>
     cl_calls c' = cl_calls c \<and> cl_thrown c' = cl_thrown c"

lemma same_operations_view: "same_operations c c' \<Longrightarrow> op_view c' = op_view c"
  by (simp add: same_operations_def op_view_def)

lemma do_async_send_same: "do_async_send c = Some c' \<Longrightarrow> same_operations c c'"
  by (auto simp: do_async_send_def same_operations_def split: list.splits Option.bind_splits)

lemma sending_same:
  "same_operations c (async_send p c)"
  "enqueue_task p (c\<lparr>posted := q\<rparr>) = Some c' \<Longrightarrow> same_operations c c'"
  "write_completed ec c = Some c' \<Longrightarrow> same_operations c c'"
proof -
  show "same_operations c (async_send p c)"
    by (simp add: async_send_def same_operations_def)
  show "enqueue_task p (c\<lparr>posted := q\<rparr>) = Some c' \<Longrightarrow> same_operations c c'"
    by (auto simp: enqueue_task_def same_operations_def Let_def split: if_splits dest!: do_async_send_same)
  show "write_completed ec c = Some c' \<Longrightarrow> same_operations c c'"
    by (auto simp: write_completed_def close_connection_def same_operations_def Let_def
        split: if_splits list.splits dest!: do_async_send_same)
qed

section \<open>Receiving a frame\<close>

text \<open>A view built from a frame has a correlation id of 16 bytes, so that the key is the id itself.\<close>

lemma view_correlation_id_guid:
  assumes "view_correlation_id v = Some i" and "guid_of i = Some k"
  shows "k = i"
  using assms by (auto simp: view_correlation_id_def guid_of_def is_guid_def rd_range_def split: if_splits Option.bind_splits)

text \<open>The dispatch of one frame: the operation with the frame's id is called, with the frame and no error, and
  erased; or nothing the operations know about changes.\<close>

lemma receive_cases:
  assumes "package_read client_call g success f n c = Some (c', reads_on)" and "keys_ok c"
  shows "\<exists>k v. mk_view (Some f) (word_of_nat n) = Some v \<and> view_correlation_id v = Some k \<and> keys_ok c' \<and>
    (if om_contains k (operations_map c)
     then op_view c' = call_and_erase k success v (op_view c) \<and> cl_sub_calls c' = cl_sub_calls c \<and>
       (\<exists>h. om_at k (operations_map c) = Inr (Op_Handler k h) \<and> cl_calls c' = cl_calls c @ [(k, h, success, v)])
     else same_operations c c')"
proof -
  obtain v where v: "on_package_received client_call g success v c = Some c'" "mk_view (Some f) (word_of_nat n) = Some v"
    using assms(1) by (auto simp: package_read_def split: Option.bind_splits)
  then obtain i k where i: "view_correlation_id v = Some i" "guid_of i = Some k"
    by (auto simp: on_package_received_def Let_def split: Option.bind_splits)
  then have k: "k = i"
    by (rule view_correlation_id_guid)
  let ?c = "c\<lparr>package_no := package_no c + 1\<rparr>"
  show ?thesis
  proof (cases "om_contains k (operations_map c)")
    case True
    then obtain r where r: "om_at k (operations_map c) = Inr r"
      using om_contains_at by blast
    then obtain h where h: "r = Op_Handler k h"
      using om_at_key [OF assms(2)] by blast
    have c': "c' = client_call_and_erase k success v ?c"
      using v(1) i True r by (simp add: on_package_received_def client_call_and_erase_def Let_def)
    have "keys_ok ?c" and "op_view ?c = op_view c"
      using assms(2) by (simp_all add: keys_ok_def op_view_def)
    then have "op_view c' = call_and_erase k success v (op_view c)"
      using op_view_call_and_erase [of ?c] c' by simp
    moreover have "keys_ok c'"
      using assms(2) by (auto simp: c' keys_ok_def client_call_and_erase_def r h Let_def om_erase_def
          client_cancel_def set_timer_def)
    moreover have "cl_calls c' = cl_calls c @ [(k, h, success, v)]"
      by (simp add: c' client_call_and_erase_def r h Let_def client_cancel_def set_timer_def)
    moreover have "cl_sub_calls c' = cl_sub_calls c"
      by (simp add: c' client_call_and_erase_def r h Let_def client_cancel_def set_timer_def)
    ultimately show ?thesis
      using True i(1) v(2) k r h by (intro exI [of _ k] exI [of _ v]) simp
  next
    case False
    show ?thesis
    proof (cases "om_contains k (subscriptions_map c)")
      case True
      then obtain r where r: "om_at k (subscriptions_map c) = Inr r"
        using om_contains_at by blast
      then obtain h where h: "r = Sub_Handler h"
        using om_at_sub [OF assms(2)] by blast
      have "c' = client_call r success v ?c"
        using v(1) i True False r by (simp add: on_package_received_def Let_def)
      then have "same_operations c c' \<and> keys_ok c'"
        using h assms(2) by (simp add: same_operations_def keys_ok_def)
      then show ?thesis
        using False i(1) v(2) k by (intro exI [of _ k] exI [of _ v]) simp
    next
      case no_sub: False
      have "c' = ?c \<or> (\<exists>p. c' = async_send p ?c)"
        using v(1) i False no_sub
        by (auto simp: on_package_received_def Let_def split: if_splits Option.bind_splits)
      then have "same_operations c c' \<and> keys_ok c'"
        using assms(2) by (auto simp: same_operations_def keys_ok_def async_send_def)
      then show ?thesis
        using False i(1) v(2) k by (intro exI [of _ k] exI [of _ v]) simp
    qed
  qed
qed

section \<open>Every step refines\<close>

text \<open>Who was called with what: an answer with the operation's own correlation id, or an error without a view.\<close>

definition answers_ok :: "'h client \<Rightarrow> bool" where
  "answers_ok c \<longleftrightarrow> (\<forall>(k, h, ec, v) \<in> set (cl_calls c).
     if failed ec then v = null_view else ec = success \<and> view_correlation_id v = Some k)"

lemma answers_ok_cong: "cl_calls c' = cl_calls c \<Longrightarrow> answers_ok c' = answers_ok c"
  by (simp add: answers_ok_def)

lemma answers_ok_snoc:
  "cl_calls c' = cl_calls c @ [(k, h, ec, v)] \<Longrightarrow> answers_ok c' \<longleftrightarrow> answers_ok c \<and>
     (if failed ec then v = null_view else ec = success \<and> view_correlation_id v = Some k)"
  by (auto simp: answers_ok_def)

lemma same_operations_answers: "same_operations c c' \<Longrightarrow> answers_ok c' = answers_ok c"
  by (rule answers_ok_cong) (simp add: same_operations_def)

lemma sending_keeps:
  assumes "do_async_send c = Some c'"
  shows "operations_map c' = operations_map c \<and> subscriptions_map c' = subscriptions_map c"
  using assms by (auto simp: do_async_send_def split: list.splits Option.bind_splits)

lemma keys_ok_cong:
  "operations_map c' = operations_map c \<Longrightarrow> subscriptions_map c' = subscriptions_map c \<Longrightarrow> keys_ok c' = keys_ok c"
  by (simp add: keys_ok_def)

lemma keys_ok_task: "enqueue_task p (c\<lparr>posted := q\<rparr>) = Some c' \<Longrightarrow> keys_ok c' = keys_ok c"
  by (rule keys_ok_cong) (auto simp: enqueue_task_def Let_def split: if_splits dest!: sending_keeps)

lemma keys_ok_written: "write_completed ec c = Some c' \<Longrightarrow> keys_ok c' = keys_ok c"
  by (rule keys_ok_cong)
     (auto simp: write_completed_def close_connection_def Let_def split: if_splits list.splits dest!: sending_keeps)

lemma keys_ok_initiate: "keys_ok c \<Longrightarrow> keys_ok (client_initiate k h c)"
  by (auto simp: keys_ok_def client_initiate_def set_timer_def register_op_def)

lemma keys_ok_timer [simp]: "keys_ok (set_timer k t c) = keys_ok c"
  by (simp add: keys_ok_def set_timer_def)

lemma answers_ok_timer [simp]: "answers_ok (set_timer k t c) = answers_ok c"
  by (rule answers_ok_cong) (simp add: set_timer_def)

lemma deadline_completed_cases:
  assumes "keys_ok c"
  shows "keys_ok (client_deadline_completed k ec c) \<and>
    op_view (client_deadline_completed k ec c) = op_deadline_completed k ec (op_view c) \<and>
    (cl_calls (client_deadline_completed k ec c) = cl_calls c \<or>
     (\<exists>h e. failed e \<and> cl_calls (client_deadline_completed k ec c) = cl_calls c @ [(k, h, e, null_view)]))"
proof -
  have "keys_ok (client_call_and_erase k e null_view c) \<and> (cl_calls (client_call_and_erase k e null_view c) = cl_calls c \<or>
      (\<exists>h. cl_calls (client_call_and_erase k e null_view c) = cl_calls c @ [(k, h, e, null_view)]))" for e
  proof (cases "om_at k (operations_map c)")
    case (Inl x)
    then show ?thesis
      using assms by (simp add: client_call_and_erase_def keys_ok_def)
  next
    case (Inr r)
    then obtain h where "r = Op_Handler k h"
      using om_at_key [OF assms] by blast
    with Inr assms show ?thesis
      by (auto simp: client_call_and_erase_def keys_ok_def Let_def om_erase_def client_cancel_def set_timer_def)
  qed
  then have called: "keys_ok (client_call_and_erase k e null_view c) \<and> (cl_calls (client_call_and_erase k e null_view c) = cl_calls c \<or>
      (\<exists>h e'. failed e' \<and> cl_calls (client_call_and_erase k e null_view c) = cl_calls c @ [(k, h, e', null_view)]))"
    if "failed e" for e
    using that by blast
  have "op_view (client_deadline_completed k ec c) = op_deadline_completed k ec (op_view c)"
    using op_view_call_and_erase [OF assms]
    by (simp add: client_deadline_completed_def op_deadline_completed_def)
  moreover have "client_deadline_completed k ec c = c \<or>
      (\<exists>e. failed e \<and> client_deadline_completed k ec c = client_call_and_erase k e null_view c)"
  proof (cases "failed ec")
    case True
    then show ?thesis
      by (auto simp: client_deadline_completed_def)
  next
    case False
    then have "client_deadline_completed k ec c = client_call_and_erase k (connection_error Operation_Timeout) null_view c"
      by (simp add: client_deadline_completed_def)
    then show ?thesis
      by (intro disjI2 exI [of _ "connection_error Operation_Timeout"]) simp
  qed
  ultimately show ?thesis
    using assms called by metis
qed

lemma client_step_refines:
  assumes "client_step c c'" and "keys_ok c" and "answers_ok c"
  shows "keys_ok c' \<and> answers_ok c' \<and> (op_view c' = op_view c \<or> op_step (op_view c) (op_view c'))"
  using assms(1)
proof cases
  case (send p key h)
  then have c': "c' = client_initiate key h (async_send p c)"
    by (auto simp: client_send_def)
  have k: "keys_ok (async_send p c)"
    using assms(2) by (simp add: keys_ok_def async_send_def)
  have "op_view c' = op_initiate key h (op_view c)"
    using same_operations_view [OF sending_same(1) [of c p]] by (simp add: c' op_view_initiate)
  moreover have "op_step (op_view c) (op_initiate key h (op_view c))"
    using send by (intro op_step.initiate) simp_all
  moreover have "cl_calls c' = cl_calls c"
    by (simp add: c' client_initiate_def set_timer_def async_send_def)
  ultimately show ?thesis
    using keys_ok_initiate [OF k] assms(3) by (simp add: c' answers_ok_def)
next
  case (subscribe key h)
  then show ?thesis
    using assms(2,3) by (auto simp: op_view_def keys_ok_def answers_ok_def register_op_def)
next
  case (unsubscribe key)
  then show ?thesis
    using assms(2,3) by (auto simp: op_view_def keys_ok_def answers_ok_def om_erase_def)
next
  case (notify p)
  then show ?thesis
    using assms(2,3) by (simp add: op_view_def keys_ok_def answers_ok_def async_send_def)
next
  case (task xs p ys)
  then show ?thesis
    using assms(2,3) sending_same(2) [OF task(3)] keys_ok_task [OF task(3)]
    by (simp add: same_operations_view same_operations_answers)
next
  case (written b ec)
  then show ?thesis
    using assms(2,3) sending_same(3) [OF written(3)] keys_ok_written [OF written(3)]
    by (simp add: same_operations_view same_operations_answers)
next
  case (expire key)
  then have "op_step (op_view c) (set_deadline key (Queued success) (op_view c))"
    by (intro op_step.expire) simp_all
  then show ?thesis
    using expire assms(2,3) by (simp add: op_view_set_timer answers_ok_timer)
next
  case (wait_fails key ec)
  then have "op_step (op_view c) (set_deadline key (Queued ec) (op_view c))"
    by (intro op_step.wait_fails) simp_all
  then show ?thesis
    using wait_fails assms(2,3) by (simp add: op_view_set_timer answers_ok_timer)
next
  case (deadline key ec)
  then have "op_step (op_view c) (op_deadline_completed key ec (set_deadline key Completed (op_view c)))"
    by (intro op_step.complete) simp_all
  moreover have D: "keys_ok c'" "op_view c' = op_deadline_completed key ec (set_deadline key Completed (op_view c))"
      "cl_calls c' = cl_calls (set_timer key Completed c) \<or>
       (\<exists>h e. failed e \<and> cl_calls c' = cl_calls (set_timer key Completed c) @ [(key, h, e, null_view)])"
    using deadline_completed_cases [of "set_timer key Completed c" key ec] assms(2)
    by (simp_all add: deadline(1) op_view_set_timer)
  moreover have "answers_ok c'"
    using D(3) assms(3) answers_ok_cong [of c' "set_timer key Completed c"]
      answers_ok_snoc [of c' "set_timer key Completed c"] by auto
  ultimately show ?thesis
    by simp
next
  case (receive g f n reads_on)
  obtain k v where kv: "view_correlation_id v = Some k" "keys_ok c'"
    "if om_contains k (operations_map c)
     then op_view c' = call_and_erase k success v (op_view c) \<and> cl_sub_calls c' = cl_sub_calls c \<and>
       (\<exists>h. om_at k (operations_map c) = Inr (Op_Handler k h) \<and> cl_calls c' = cl_calls c @ [(k, h, success, v)])
     else same_operations c c'"
    using receive_cases [OF receive(2) assms(2)] by blast
  show ?thesis
  proof (cases "om_contains k (operations_map c)")
    case True
    then have "op_view c' = op_response k success v (op_view c)"
      using kv(3) by (simp add: op_response_def)
    moreover have "op_step (op_view c) (op_response k success v (op_view c))"
      using receive by (intro op_step.response) simp
    ultimately show ?thesis
      using True kv assms(3) by (auto simp: answers_ok_snoc)
  next
    case False
    then show ?thesis
      using kv assms(3) by (simp add: same_operations_view same_operations_answers)
  qed
next
  case (receive_error ec g f n reads_on)
  then have "c' = close_connection c"
    by (simp add: package_read_def)
  then show ?thesis
    using assms(2,3) by (simp add: close_connection_def op_view_def keys_ok_def answers_ok_def)
qed

lemma client_reachable_refines:
  "client_reachable c \<Longrightarrow> keys_ok c \<and> answers_ok c \<and> op_reachable (op_view c)"
proof (induction rule: client_reachable.induct)
  case (start cs guid_string)
  let ?c = "mk_client cs guid_string :: 'a client"
  have "op_view ?c = op_state_empty"
    by (simp add: op_view_def mk_client_def mk_connection_def connection.defs op_state_empty_def om_empty_def)
  then have "op_reachable (op_view ?c)"
    by (simp add: op_reachable.start)
  moreover have "keys_ok ?c" and "answers_ok ?c"
    by (simp_all add: keys_ok_def answers_ok_def mk_client_def mk_connection_def connection.defs om_empty_def)
  ultimately show ?case
    by blast
next
  case (step c c')
  then show ?case
    using client_step_refines [OF step.hyps(2)] by (auto intro: op_reachable.step)
qed

section \<open>The handler that was sent\<close>

text \<open>Once started, an operation is registered with its handler or that handler has been called.\<close>

definition holds_op :: "guid \<Rightarrow> 'h \<Rightarrow> 'h op_state \<Rightarrow> bool" where
  "holds_op k h s \<longleftrightarrow> deadline s k \<noteq> None \<and>
     (om_at k (ops s) = Inr h \<or> (\<exists>e \<in> set (calls s). fst e = k \<and> fst (snd e) = h))"

lemma om_at_update [simp]:
  "om_at k (om_erase j m) = (if j = k then Inl Out_Of_Range else om_at k m)"
  "om_at k (register_op j op m) = (if j = k \<and> \<not> om_contains k m then Inr op else om_at k m)"
  by (auto simp: om_at_map_of map_of_om_erase map_of_register_op om_contains_iff)

lemma deadline_cancel_fields [simp]:
  "ops (deadline_cancel k s) = ops s" "calls (deadline_cancel k s) = calls s"
  "deadline (deadline_cancel k s) j =
     (if j = k \<and> deadline s k = Some Waiting then Some (Queued operation_aborted) else deadline s j)"
  by (auto simp: deadline_cancel_def)

lemma holds_op_call: "holds_op k h s \<Longrightarrow> holds_op k h (call_and_erase j ec v s)"
  by (cases "om_at j (ops s)")
     (auto simp: holds_op_def call_and_erase_def run_registered_def Let_def)

lemma holds_op_timer: "holds_op k h s \<Longrightarrow> holds_op k h (set_deadline j t s)"
  by (auto simp: holds_op_def)

lemma holds_op_step:
  assumes "op_step s s'" and "holds_op k h s"
  shows "holds_op k h s'"
  using assms(1)
proof cases
  case (initiate j h')
  then show ?thesis
    using assms(2) by (auto simp: holds_op_def op_initiate_def)
next
  case (complete j ec)
  then show ?thesis
    using assms(2) by (auto simp: op_deadline_completed_def intro: holds_op_call holds_op_timer)
next
  case (response j ec v)
  then show ?thesis
    using assms(2) by (auto simp: op_response_def intro: holds_op_call)
qed (use assms(2) in \<open>auto intro: holds_op_timer\<close>)

lemma client_reachable_steps: "client_step\<^sup>*\<^sup>* c c' \<Longrightarrow> client_reachable c \<Longrightarrow> client_reachable c'"
  by (induction rule: rtranclp_induct) (auto intro: client_reachable.step)

lemma client_steps_refine:
  assumes "client_step\<^sup>*\<^sup>* c c'" and "client_reachable c" and "holds_op k h (op_view c)"
  shows "client_reachable c' \<and> holds_op k h (op_view c')"
  using assms
proof (induction rule: rtranclp_induct)
  case (step c1 c2)
  then have "client_reachable c1" "holds_op k h (op_view c1)"
    by auto
  then show ?case
    using step.hyps(2) client_step_refines [OF step.hyps(2)] client_reachable_refines
      holds_op_step [of "op_view c1" "op_view c2" k h]
    by (metis client_reachable.step)
qed simp

text \<open>The calls made for one operation.\<close>

definition calls_for :: "guid \<Rightarrow> 'h client \<Rightarrow> (guid \<times> 'h \<times> error_code \<times> tcp_package_view) list" where
  "calls_for k c = filter (\<lambda>e. fst e = k) (cl_calls c)"

lemma calls_for_length: "length (calls_for k c) = calls_of k (op_view c)"
  by (simp add: calls_for_def calls_of_def)

lemma client_send_view:
  assumes "client_send p h c = Some c1"
  obtains k where "package_key p = Some k" and "op_view c1 = op_initiate k h (op_view c)"
proof -
  obtain k where k: "package_key p = Some k" "c1 = client_initiate k h (async_send p c)"
    using assms by (auto simp: client_send_def split: Option.bind_splits)
  have "op_view c1 = op_initiate k h (op_view c)"
    using same_operations_view [OF sending_same(1) [of c p]] by (simp add: k op_view_initiate)
  with k(1) that show thesis
    by blast
qed

text \<open>A frame whose correlation id is that of a registered operation.\<close>

lemma receive_defined:
  assumes "frame_ok f n" and "n < 2 ^ 32" and "is_guid g"
  shows "\<exists>c'. package_read client_call g success f n c = Some (c', True)"
proof -
  have "on_package_received client_call g success (frame_view f n) c \<noteq> None"
    by (rule dispatch_defined [OF assms(1,3)])
  then show ?thesis
    using assms by (auto simp: package_read_def mk_view_ok frame_view_command frame_view_message)
qed

lemma receive_operation:
  assumes "frame_ok f n" and "n < 2 ^ 32" and "is_guid g" and "keys_ok c" and "k = take 16 (drop 6 f)"
    and "om_at k (operations_map c) = Inr (Op_Handler k h)"
  shows "\<exists>c'. package_read client_call g success f n c = Some (c', True) \<and> keys_ok c' \<and>
    op_view c' = call_and_erase k success (frame_view f n) (op_view c) \<and> cl_sub_calls c' = cl_sub_calls c \<and>
    cl_calls c' = cl_calls c @ [(k, h, success, frame_view f n)]"
proof -
  have k: "om_contains k (operations_map c)"
    using assms(6) by (auto simp: om_at_map_of om_contains_iff split: option.splits)
  obtain c' where c': "package_read client_call g success f n c = Some (c', True)"
    using receive_defined [OF assms(1-3)] by blast
  have mk: "mk_view (Some f) (word_of_nat n) = Some (frame_view f n)"
    using mk_view_ok [OF assms(1)] assms(2) by simp
  have id: "view_correlation_id (frame_view f n) = Some k"
    using frame_view_correlation_id [OF assms(1)] by (simp add: assms(5))
  have "keys_ok c' \<and> op_view c' = call_and_erase k success (frame_view f n) (op_view c) \<and>
      cl_sub_calls c' = cl_sub_calls c \<and>
      (\<exists>h. om_at k (operations_map c) = Inr (Op_Handler k h) \<and> cl_calls c' = cl_calls c @ [(k, h, success, frame_view f n)])"
    using receive_cases [OF c' assms(4)] mk id k by (elim exE conjE) simp
  with c' assms(6) show ?thesis
    by (intro exI [of _ c']) simp
qed

lemma client_answers:
  assumes "client_reachable c" and "cl_thrown c = None" and "package_key p = Some k"
    and "map_of (cl_deadlines c) k = None" and "client_send p h c = Some c1" and "client_step\<^sup>*\<^sup>* c1 c2"
  shows "(calls_for k c2 = [] \<or> (\<exists>ec v. calls_for k c2 = [(k, h, ec, v)] \<and>
      (if failed ec then v = null_view else ec = success \<and> view_correlation_id v = Some k))) \<and>
    (map_of (cl_deadlines c2) k = Some Waiting \<longrightarrow> calls_for k c2 = [] \<and>
       om_at k (operations_map c2) = Inr (Op_Handler k h)) \<and>
    (map_of (cl_deadlines c2) k = Some Completed \<longrightarrow> calls_for k c2 \<noteq> [] \<and> \<not> om_contains k (operations_map c2)) \<and>
    (cl_thrown c2 = None \<or> cl_thrown c2 = Some Out_Of_Range)"
proof -
  note R = client_reachable_refines [OF assms(1)]
  have step: "client_step c c1"
    by (rule client_step.send [OF assms(2-5)])
  have v: "op_view c1 = op_initiate k h (op_view c)"
    using client_send_view [OF assms(5)] assms(3) by (metis option.inject)
  have "\<not> om_contains k (ops (op_view c))"
    using reachable_once(3) [of "op_view c" k] R assms(4) by simp
  then have "holds_op k h (op_view c1)"
    by (simp add: v holds_op_def op_initiate_def)
  then have c2: "client_reachable c2" "holds_op k h (op_view c2)"
    using client_steps_refine [OF assms(6) client_reachable.step [OF assms(1) step]] by auto
  note R2 = client_reachable_refines [OF c2(1)]
  note thrown = reachable_once(2) [OF conjunct2 [OF conjunct2 [OF R2]]]
  note once = reachable_once(1,3-6) [OF conjunct2 [OF conjunct2 [OF R2]], where k = k, folded calls_for_length]
  have own: "fst e = k \<and> fst (snd e) = h \<and> (case snd (snd e) of (ec, v) \<Rightarrow>
      if failed ec then v = null_view else ec = success \<and> view_correlation_id v = Some k)"
    if "calls_for k c2 = [e]" for e
  proof -
    have e: "e \<in> set (cl_calls c2)" "fst e = k" and none: "\<not> om_contains k (ops (op_view c2))"
      using that filter_eq_ConsD [of "\<lambda>e. fst e = k" "cl_calls c2" e "[]"] once(5) by (auto simp: calls_for_def)
    then have "\<exists>e' \<in> set (calls_for k c2). fst (snd e') = h"
      using c2(2) om_at_map_of [of k "ops (op_view c2)"]
      by (auto simp: holds_op_def calls_for_def om_contains_iff split: option.splits) blast
    with that e R2 show ?thesis
      by (auto simp: answers_ok_def)
  qed
  have unique: "calls_for k c2 = [] \<or> (\<exists>e. calls_for k c2 = [e])"
    using once(1) by (cases "calls_for k c2") auto
  have registered: "om_at k (operations_map c2) = Inr (Op_Handler k h)" if "calls_for k c2 = []"
  proof -
    have "om_at k (ops (op_view c2)) = Inr h"
      using c2(2) that by (auto simp: holds_op_def calls_for_def filter_empty_conv)
    then obtain r where r: "om_at k (operations_map c2) = Inr r" "handler_of r = h"
      by (cases "om_at k (operations_map c2)") (auto simp: op_view_def om_at_map)
    with om_at_key R2 show ?thesis
      by fastforce
  qed
  have "calls_for k c2 = [] \<or> (\<exists>ec v. calls_for k c2 = [(k, h, ec, v)] \<and>
      (if failed ec then v = null_view else ec = success \<and> view_correlation_id v = Some k))"
  proof (cases "calls_for k c2 = []")
    case False
    then obtain e where e: "calls_for k c2 = [e]"
      using unique by blast
    show ?thesis
      using own [OF e] e by (cases e) auto
  qed simp
  then show ?thesis
    using registered once thrown by auto
qed

text \<open>The key under which a request is registered is the id it was built with.\<close>

lemma request_key:
  assumes "request_package cmd creds k msg = Some p" and "is_named cmd" and "is_guid k"
    and "length (username creds) < 256" and "length (password creds) < 256"
    and "24 + length (username creds) + length (password creds) + length msg < 2 ^ 32"
  shows "package_key p = Some k"
  using request_package_view [OF assms(2-6)] assms(1,3) by (auto simp: package_key_def)

section \<open>Properties\<close>

text \<open>C12: an operation given to \<open>async_send\<close> is answered exactly once, and by its own answer.  Whatever the
  application sends, however posted tasks, timers and the socket interleave, and whatever bytes the
  server sends: the handler passed with the package is called at most once, either with a frame
  that carries the package's correlation id, or with an error and no frame.  It has not been called and is
  registered while its deadline waits, and it has been called exactly once and is no longer registered when
  the deadline's wait has completed.  The package's id is fresh, as those of \<open>guid()\<close> are.  The only exception that can leave a completion handler is
  \<open>out_of_range\<close>.\<close>

theorem operation_answered_once:
  assumes "client_reachable c" and "cl_thrown c = None" and "package_key p = Some k"
    and "map_of (cl_deadlines c) k = None" and "client_send p h c = Some c1" and "client_step\<^sup>*\<^sup>* c1 c2"
  shows "(calls_for k c2 = [] \<or> (\<exists>ec v. calls_for k c2 = [(k, h, ec, v)] \<and>
      (if failed ec then v = null_view else ec = success \<and> view_correlation_id v = Some k))) \<and>
    (map_of (cl_deadlines c2) k = Some Waiting \<longrightarrow> calls_for k c2 = [] \<and>
       om_at k (operations_map c2) = Inr (Op_Handler k h)) \<and>
    (map_of (cl_deadlines c2) k = Some Completed \<longrightarrow> calls_for k c2 \<noteq> [] \<and> \<not> om_contains k (operations_map c2)) \<and>
    (cl_thrown c2 = None \<or> cl_thrown c2 = Some Out_Of_Range)"
  by (rule client_answers [OF assms])

definition sample_client :: "nat client" where
  "sample_client = mk_client connection_settings_default ''1''"

lemma sample_package_key: "package_key sample_package = Some (replicate 16 7)"
proof -
  have g: "is_guid (replicate 16 7)" and n: "is_named Ping_Command"
    by (simp_all add: is_guid_def is_named_def)
  have "request_package Ping_Command credentials_default (replicate 16 7) [] = Some sample_package"
    using unauthenticated_package_frame [OF _ g, of flags_none Ping_Command "[]"]
    by (simp add: request_package_def credentials_default_def credentials_null_def sample_package_def flags_none_def)
  from request_key [OF this n g] show ?thesis
    by (simp add: credentials_default_def)
qed

lemma sample_client_start: "client_reachable sample_client" "cl_thrown sample_client = None"
    "map_of (cl_deadlines sample_client) k = None"
  unfolding sample_client_def by (rule client_reachable.start) (simp_all add: mk_client_def mk_connection_def connection.defs)

definition sample_sent_client :: "nat client" where
  "sample_sent_client = client_initiate (replicate 16 7) 0 (async_send sample_package sample_client)"

lemma sample_sent:
  "client_send sample_package 0 sample_client = Some sample_sent_client"
  "map_of (cl_deadlines sample_sent_client) (replicate 16 7) = Some Waiting"
  "client_reachable sample_sent_client" "cl_thrown sample_sent_client = None"
proof -
  show sent: "client_send sample_package 0 sample_client = Some sample_sent_client"
    by (simp add: client_send_def sample_package_key sample_sent_client_def)
  show "map_of (cl_deadlines sample_sent_client) (replicate 16 7) = Some Waiting"
    by (simp add: sample_sent_client_def client_initiate_def set_timer_def)
  show "cl_thrown sample_sent_client = None"
    using sample_client_start(2)
    by (simp add: sample_sent_client_def client_initiate_def set_timer_def async_send_def)
  show "client_reachable sample_sent_client"
    by (rule client_reachable.step [OF sample_client_start(1)
          client_step.send [OF sample_client_start(2) sample_package_key sample_client_start(3) sent]])
qed

theorem operation_answered_once_witness:
  "calls_for (replicate 16 7) sample_sent_client = [] \<and>
   om_at (replicate 16 7) (operations_map sample_sent_client) = Inr (Op_Handler (replicate 16 7) 0)"
  using operation_answered_once [OF sample_client_start(1,2) sample_package_key sample_client_start(3) sample_sent(1)
      rtranclp.rtrancl_refl] sample_sent(2) by blast

text \<open>C34: the race between an answer and an expired deadline.  From every state in which an operation waits it can
  happen that its deadline expires, a frame with its correlation id is received before the queued completion of
  the wait runs, and the completion then looks the erased operation up: \<open>out_of_range\<close> leaves the
  completion handler, and with it the event loop.  The user's handler has been called, by the frame.\<close>

theorem deadline_race_throws:
  assumes "client_reachable c" and "cl_thrown c = None" and "map_of (cl_deadlines c) k = Some Waiting"
    and "frame_ok f n" and "n < 2 ^ 32" and "take 16 (drop 6 f) = k"
  shows "\<exists>c1 c2 c3. client_step c c1 \<and> client_step c1 c2 \<and> client_step c2 c3 \<and>
    length (calls_for k c2) = 1 \<and> cl_thrown c2 = None \<and> cl_thrown c3 = Some Out_Of_Range"
proof -
  let ?c1 = "set_timer k (Queued success) c"
  have R: "keys_ok c" "op_reachable (op_view c)"
    using client_reachable_refines [OF assms(1)] by simp_all
  then have i: "op_inv (op_view c)" and w: "om_contains k (operations_map c)"
    using op_reachable_safe [OF R(2)] reachable_once(4) [OF R(2), of k] assms(3) by (simp_all add: op_safe_def)
  then obtain h where h: "om_at k (operations_map ?c1) = Inr (Op_Handler k h)"
    using om_contains_at [OF w] om_at_key [OF R(1), of k] by (auto simp: set_timer_def)
  have g: "is_guid (replicate 16 0)"
    by (simp add: is_guid_def)
  obtain c2 where c2: "package_read client_call (replicate 16 0) success f n ?c1 = Some (c2, True)" "keys_ok c2"
      "op_view c2 = call_and_erase k success (frame_view f n) (set_deadline k (Queued success) (op_view c))"
    using receive_operation [OF assms(4,5) g _ assms(6) [symmetric] h] R(1) by (auto simp: op_view_set_timer)
  have race: "calls_of k (op_view c2) = 1" "thrown (op_view c2) = None" "deadline (op_view c2) k = Some (Queued success)"
      "thrown (op_deadline_completed k success (set_deadline k Completed (op_view c2))) = Some Out_Of_Range"
    using race_throws [OF i _ _ c2(3)] assms(2,3) by simp_all
  let ?c3 = "client_deadline_completed k success (set_timer k Completed c2)"
  have "op_view ?c3 = op_deadline_completed k success (set_deadline k Completed (op_view c2))"
    using deadline_completed_cases [of "set_timer k Completed c2" k success] c2(2) by (simp add: op_view_set_timer)
  then have "cl_thrown ?c3 = Some Out_Of_Range"
    using race(4) op_view_sel(1) [of ?c3] by simp
  moreover have "client_step c ?c1"
    by (rule client_step.expire [OF assms(2,3)])
  moreover have "client_step ?c1 c2"
    using client_step.receive [OF _ c2(1)] assms(2) by (simp add: set_timer_def)
  moreover have "client_step c2 ?c3"
    using race(2,3) by (intro client_step.deadline) simp_all
  ultimately show ?thesis
    using race(1,2) by (auto simp: calls_for_length)
qed

definition sample_answer :: bytes where
  "sample_answer = unauthenticated_frame Write_Events_Completed_Command flags_none (replicate 16 7) []"

lemma sample_answer_ok: "frame_ok sample_answer 22" "take 16 (drop 6 sample_answer) = replicate 16 7"
proof -
  have "is_guid (replicate 16 (7 :: byte))" and "and flags_none flags_authenticated = 0"
    by (simp_all add: is_guid_def flags_none_def)
  from unauthenticated_frame_ok [OF this, of Write_Events_Completed_Command "[]"]
  show "frame_ok sample_answer 22" "take 16 (drop 6 sample_answer) = replicate 16 7"
    by (simp_all add: sample_answer_def)
qed

theorem deadline_race_throws_witness:
  "\<exists>c1 c2 c3. client_step sample_sent_client c1 \<and> client_step c1 c2 \<and> client_step c2 c3 \<and>
     cl_thrown c3 = Some Out_Of_Range"
  using deadline_race_throws [OF sample_sent(3,4,2) sample_answer_ok(1) _ sample_answer_ok(2)] by auto

text \<open>C13: an append from end to end.  The frame of the request is handed to the send queue; in
  whatever state the client is in when the answer arrives, as long as the operation still waits, the
  frame the server builds for a successful write reaches exactly the handler that was passed with
  the request, exactly once, and this handler completes the user's with success, the next expected
  version and the positions (exchanged) that the parsed answer holds.\<close>

theorem append_end_to_end:
  assumes "client_reachable c" and "cl_thrown c = None" and "map_of (cl_deadlines c) k = None"
    and "append_request serialize creds rm k stream events ver = Some p"
    and "is_guid k" and "length (username creds) < 256" and "length (password creds) < 256"
    and "24 + length (username creds) + length (password creds) + length (serialize
      \<lparr>we_event_stream_id = stream, we_expected_version = ver, we_events = map new_event_of events,
       we_require_master = rm\<rparr>) < 2 ^ 32"
    and "client_send p h c = Some c1" and "client_step\<^sup>*\<^sup>* c1 c2" and "map_of (cl_deadlines c2) k = Some Waiting"
    and "is_guid g" and "22 + length reply < 2 ^ 32" and "wec_result (parse reply) = OR_Success"
  shows "posted c1 = posted c @ [p] \<and> (\<exists>c3 v w. package_read client_call g success
      (unauthenticated_frame Write_Events_Completed_Command flags_none k reply) (22 + length reply) c2 = Some (c3, True) \<and>
    calls_for k c3 = [(k, h, success, v)] \<and> append_response parse success v = Some (Called success (Some w)) \<and>
    next_expected_version w = wec_last_event_number (parse reply) \<and>
    commit_position (wr_log_position w) = optional_position (wec_prepare_position (parse reply)) \<and>
    prepare_position (wr_log_position w) = optional_position (wec_commit_position (parse reply)))"
proof -
  let ?f = "unauthenticated_frame Write_Events_Completed_Command flags_none k reply" and ?n = "22 + length reply"
  have z: "and flags_none flags_authenticated = 0" and nm: "is_named Write_Events_Command"
      "is_named Write_Events_Completed_Command"
    by (simp_all add: flags_none_def is_named_def)
  note F = unauthenticated_frame_ok [OF assms(5) z, of Write_Events_Completed_Command reply]
  have key: "package_key p = Some k"
    using assms(4-8) nm(1)
    by (intro request_key [of Write_Events_Command creds k _ p]) (auto simp: append_request_def)
  note A = client_answers [OF assms(1,2) key assms(3,9,10)]
  then have w: "calls_for k c2 = []" "om_at k (operations_map c2) = Inr (Op_Handler k h)"
    using assms(11) by blast+
  have "client_reachable c2"
    using client_reachable.step [OF assms(1) client_step.send [OF assms(2) key assms(3,9)]]
    by (rule client_reachable_steps [OF assms(10)])
  then have "keys_ok c2"
    by (simp add: client_reachable_refines)
  obtain c3 where c3: "package_read client_call g success ?f ?n c2 = Some (c3, True)"
      "cl_calls c3 = cl_calls c2 @ [(k, h, success, frame_view ?f ?n)]"
    using receive_operation [OF F(1) assms(13,12) \<open>keys_ok c2\<close> F(4) [symmetric] w(2)] by blast
  have "calls_for k c3 = [(k, h, success, frame_view ?f ?n)]"
    using w(1) by (simp add: calls_for_def c3(2))
  moreover have "view_command (frame_view ?f ?n) = Some Write_Events_Completed_Command"
    using frame_view_command [OF F(1)] F(2) command_of_code [OF nm(2)] by simp
  moreover have "view_message (frame_view ?f ?n) = Some reply"
    using frame_view_message [OF F(1) assms(13)] F(5,6) length_unauthenticated_frame [OF assms(5)] by simp
  moreover have "posted c1 = posted c @ [p]"
    using assms(9) key by (auto simp: client_send_def client_initiate_def set_timer_def async_send_def)
  ultimately show ?thesis
    using c3(1) append_success [of "frame_view ?f ?n" reply parse] assms(14)
    by (intro conjI exI [of _ c3] exI [of _ "frame_view ?f ?n"]) auto
qed

definition sample_append :: tcp_package where
  "sample_append = \<lparr>p_package = Some (unauthenticated_frame Write_Events_Command flags_none (replicate 16 7) []), p_length = 18\<rparr>"

theorem append_end_to_end_witness:
  "\<exists>c1 c3 v w. client_send sample_append 3 sample_client = Some c1 \<and>
     package_read client_call (replicate 16 5) success sample_answer 22 c1 = Some (c3, True) \<and>
     calls_for (replicate 16 7) c3 = [(replicate 16 7, 3, success, v)] \<and>
     append_response (\<lambda>_. sample_written OR_Success) success v = Some (Called success (Some w)) \<and>
     next_expected_version w = 4"
proof -
  have g: "is_guid (replicate 16 (x :: byte))" for x
    by (simp add: is_guid_def)
  have p: "append_request (\<lambda>_. []) credentials_default True (replicate 16 7) ''s'' [] 0 = Some sample_append"
    using unauthenticated_package_frame [OF _ g [of 7], of flags_none Write_Events_Command "[]"]
    by (simp add: append_request_def request_package_def credentials_default_def credentials_null_def
        sample_append_def flags_none_def to_bytes_def)
  have key: "package_key sample_append = Some (replicate 16 7)"
    using p by (intro request_key [of Write_Events_Command credentials_default "replicate 16 7" "[]"])
      (simp_all add: append_request_def is_named_def g credentials_default_def to_bytes_def)
  then obtain c1 where c1: "client_send sample_append 3 sample_client = Some c1"
    by (simp add: client_send_def)
  have "map_of (cl_deadlines c1) (replicate 16 7) = Some Waiting"
    using c1 key by (auto simp: client_send_def client_initiate_def set_timer_def Let_def)
  from append_end_to_end [OF sample_client_start p g _ _ _ c1 rtranclp.rtrancl_refl this g [of 5],
      where parse = "\<lambda>_. sample_written OR_Success" and reply = "[]"] c1
  show ?thesis
    by (simp add: sample_answer_def credentials_default_def sample_written_def) blast
qed

end
