(* ===== verification/Client_Safety.thy ===== *)
theory Client_Safety
  imports Client_Operations
begin

text \<open>
  What a connection can rely on at every moment: a type invariant of the client, kept by every step, under
  which no step is undefined; and the progress of sending, which ends, after a bounded number of tasks
  and completions in any order, with everything written.
\<close>

section \<open>The type invariant\<close>

text \<open>Every package that is posted or queued owns the memory of its frame; a write is outstanding only for the
  front of a queue; the maps have one entry per id; and they hold what their dispatch expects.\<close>

definition packages_ok :: "('op, 'm) connection_scheme \<Rightarrow> bool" where
  "packages_ok c \<longleftrightarrow> (\<forall>p \<in> set (posted c) \<union> set (message_queue c). owns_frame p) \<and>
     (writing c \<noteq> None \<longrightarrow> message_queue c \<noteq> [])"

definition maps_ok :: "('op, 'm) connection_scheme \<Rightarrow> bool" where
  "maps_ok c \<longleftrightarrow> om_inv (operations_map c) \<and> om_inv (subscriptions_map c)"

definition client_typed :: "'h client \<Rightarrow> bool" where
  "client_typed c \<longleftrightarrow> packages_ok c \<and> maps_ok c \<and> keys_ok c"

text \<open>A client whose application hands over packages that own their frames, as the constructors of
  \<open>tcp_package\<close> build them.\<close>

inductive typed_client :: "'h client \<Rightarrow> bool" where
  start: "typed_client (mk_client cs guid_string)"
| step: "typed_client c \<Longrightarrow> client_step c c' \<Longrightarrow>
    (\<forall>p \<in> set (posted c'). p \<in> set (posted c) \<or> owns_frame p) \<Longrightarrow> typed_client c'"

section \<open>Preservation\<close>

definition same_sending :: "('op, 'm) connection_scheme \<Rightarrow> ('op, 'm) connection_scheme \<Rightarrow> bool" where
  "same_sending c c' \<longleftrightarrow> message_queue c' = message_queue c \<and> writing c' = writing c \<and> (maps_ok c \<longrightarrow> maps_ok c')"

lemma same_sending_trans: "same_sending c c' \<Longrightarrow> same_sending c' c'' \<Longrightarrow> same_sending c c''"
  by (simp add: same_sending_def)

lemma packages_ok_same:
  "packages_ok c \<Longrightarrow> same_sending c c' \<Longrightarrow> \<forall>p \<in> set (posted c'). p \<in> set (posted c) \<or> owns_frame p \<Longrightarrow> packages_ok c'"
  by (auto simp: packages_ok_def same_sending_def)

lemma client_operations_same:
  "same_sending c (set_timer k t c)" "same_sending c (client_cancel k c)" "same_sending c (client_call r ec v c)"
  "same_sending c (client_initiate k h c)" "same_sending c (client_call_and_erase k ec v c)"
  "same_sending c (client_deadline_completed k ec c)" "same_sending c (async_send p c)"
proof -
  show timer: "same_sending c (set_timer k t c)" for k t and c :: "'a client"
    by (simp add: same_sending_def set_timer_def maps_ok_def)
  then show cancel: "same_sending c (client_cancel k c)" for k and c :: "'a client"
    by (simp add: client_cancel_def same_sending_def)
  then show call: "same_sending c (client_call r ec v c)" for ec v
    by (cases r) (simp_all add: same_sending_def maps_ok_def Let_def)
  show "same_sending c (client_initiate k h c)"
    by (simp add: client_initiate_def same_sending_def set_timer_def maps_ok_def om_inv_register)
  have "same_sending c (client_call r ec v c)" for r ec v and c :: "'a client"
    using cancel by (cases r) (simp_all add: same_sending_def maps_ok_def Let_def)
  then show erase: "same_sending c (client_call_and_erase k ec v c)" for ec v
    by (auto simp: client_call_and_erase_def same_sending_def maps_ok_def Let_def om_inv_erase split: sum.split)
  then show "same_sending c (client_deadline_completed k ec c)"
    by (simp add: client_deadline_completed_def same_sending_def)
  show "same_sending c (async_send p c)"
    by (simp add: async_send_def same_sending_def maps_ok_def)
qed

lemma receive_same:
  fixes c :: "'h client"
  assumes "package_read client_call g ec f n c = Some (c', reads_on)"
  shows "same_sending c c'"
proof (cases "failed ec")
  case True
  with assms show ?thesis
    by (auto simp: package_read_def close_connection_def same_sending_def maps_ok_def)
next
  case False
  then obtain v where v: "on_package_received client_call g ec v c = Some c'"
    using assms by (auto simp: package_read_def split: Option.bind_splits)
  let ?c = "c\<lparr>package_no := package_no c + 1\<rparr>"
  have one: "same_sending c ?c"
    by (simp add: same_sending_def maps_ok_def)
  consider (called) r k where "c' = (client_call r ec v ?c)\<lparr>operations_map := om_erase k (operations_map (client_call r ec v ?c))\<rparr>"
    | (sub) r where "c' = client_call r ec v ?c" | (other) "c' = ?c" | (reply) p where "c' = async_send p ?c"
    using v by (auto simp: on_package_received_def Let_def split: if_splits sum.splits Option.bind_splits)
  then show ?thesis
  proof cases
    case (called r k)
    have "same_sending c (client_call r ec v ?c)"
      by (rule same_sending_trans [OF one client_operations_same(3)])
    then show ?thesis
      by (simp add: called same_sending_def maps_ok_def om_inv_erase)
  next
    case (sub r)
    show ?thesis
      unfolding sub by (rule same_sending_trans [OF one client_operations_same(3)])
  next
    case (reply p)
    show ?thesis
      unfolding reply by (rule same_sending_trans [OF one client_operations_same(7)])
  qed (simp add: one)
qed

lemma sending_typed:
  assumes "packages_ok c" and "maps_ok c"
  shows "posted c = xs @ p # ys \<Longrightarrow> enqueue_task p (c\<lparr>posted := xs @ ys\<rparr>) = Some c' \<Longrightarrow> packages_ok c' \<and> maps_ok c'"
    and "writing c = Some b \<Longrightarrow> write_completed ec c = Some c' \<Longrightarrow> packages_ok c' \<and> maps_ok c'"
  using assms
  by (auto simp: packages_ok_def maps_ok_def enqueue_task_def write_completed_def close_connection_def do_async_send_def
      Let_def split: if_splits list.splits Option.bind_splits)

lemma client_step_typed:
  assumes "client_step c c'" and "client_typed c" and "keys_ok c'"
    and "\<forall>p \<in> set (posted c'). p \<in> set (posted c) \<or> owns_frame p"
  shows "client_typed c'"
proof -
  have "packages_ok c' \<and> maps_ok c'"
    using assms(1)
  proof cases
    case (task xs p ys)
    with assms(2) sending_typed(1) [of c] show ?thesis
      by (simp add: client_typed_def)
  next
    case (written b ec)
    with assms(2) sending_typed(2) [of c] show ?thesis
      by (simp add: client_typed_def)
  next
    case (send p k h)
    then have "same_sending c c'"
      using same_sending_trans [OF client_operations_same(7) client_operations_same(4)] by (auto simp: client_send_def)
    with packages_ok_same [OF _ this assms(4)] assms(2) show ?thesis
      by (simp add: client_typed_def same_sending_def)
  next
    case (deadline k ec)
    then have "same_sending c c'"
      using same_sending_trans [OF client_operations_same(1) client_operations_same(6)] by simp
    with packages_ok_same [OF _ this assms(4)] assms(2) show ?thesis
      by (simp add: client_typed_def same_sending_def)
  next
    case (receive g f n reads_on)
    with packages_ok_same [OF _ receive_same assms(4)] receive_same [OF receive(2)] assms(2) show ?thesis
      by (auto simp: client_typed_def same_sending_def)
  next
    case (receive_error ec g f n reads_on)
    with packages_ok_same [OF _ receive_same assms(4)] receive_same [OF receive_error(3)] assms(2) show ?thesis
      by (auto simp: client_typed_def same_sending_def)
  qed (use assms(2,4) in \<open>auto simp: client_typed_def packages_ok_def maps_ok_def om_inv_register om_inv_erase async_send_def set_timer_def\<close>)
  with assms(3) show ?thesis
    by (simp add: client_typed_def)
qed

lemma typed_client_reachable: "typed_client c \<Longrightarrow> client_reachable c"
  by (induction rule: typed_client.induct) (auto intro: client_reachable.intros)

lemma typed_client_typed: "typed_client c \<Longrightarrow> client_typed c"
proof (induction rule: typed_client.induct)
  case (start cs guid_string)
  then show ?case
    by (simp add: client_typed_def packages_ok_def maps_ok_def keys_ok_def mk_client_def mk_connection_def
        connection.defs om_empty_def om_inv_def)
next
  case (step c c')
  have "keys_ok c'"
    using client_reachable_refines [OF client_reachable.step [OF typed_client_reachable [OF step.hyps(1)] step.hyps(2)]] by simp
  then show ?case
    by (rule client_step_typed [OF step.hyps(2) step.IH _ step.hyps(3)])
qed

section \<open>Progress of sending\<close>

text \<open>What the event loop and the socket do on their own: run a posted task, complete the write that is out.\<close>

inductive send_work :: "('op, 'm) connection_scheme \<Rightarrow> ('op, 'm) connection_scheme \<Rightarrow> bool" where
  task: "posted c = xs @ p # ys \<Longrightarrow> enqueue_task p (c\<lparr>posted := xs @ ys\<rparr>) = Some c' \<Longrightarrow> send_work c c'"
| written: "writing c = Some b \<Longrightarrow> write_completed success c = Some c' \<Longrightarrow> send_work c c'"

definition work_left :: "('op, 'm) connection_scheme \<Rightarrow> nat" where
  "work_left c = 2 * length (posted c) + length (message_queue c)"

lemma work_queue:
  assumes "send_work c c'" and "queue_inv evs c" and "\<not> write_failed evs"
  shows "Suc (work_left c') = work_left c"
  using assms(1)
proof cases
  case (task xs p ys)
  then have "owns_frame p"
    using assms(2) by (auto simp: queue_inv_def)
  from enqueue_task_spec [OF this, of "c\<lparr>posted := xs @ ys\<rparr>"] task show ?thesis
    by (auto simp: work_left_def)
next
  case (written b)
  then obtain p q where q: "message_queue c = p # q"
    using assms(2,3) by (auto simp: queue_inv_def queue_ok_def split: list.splits)
  then have "\<forall>p \<in> set q. owns_frame p"
    using assms(2) by (simp add: queue_inv_def)
  from write_completed_spec [OF q this] written q show ?thesis
    by (auto simp: work_left_def)
qed

lemma send_work_run:
  assumes "send_run evs c" and "\<not> write_failed evs" and "send_work c c'"
  shows "\<exists>e. send_run (evs @ [e]) c' \<and> \<not> write_failed (evs @ [e]) \<and> asked (evs @ [e]) = asked evs"
  using assms(3)
proof cases
  case (task xs p ys)
  with send_run.task [OF assms(1) task] assms(2) show ?thesis
    by (intro exI [of _ "Accepted p"]) simp
next
  case (written b)
  with send_run.written [OF assms(1) written] assms(2) show ?thesis
    by (intro exI [of _ "Finished b"]) simp
qed

lemma send_works_run:
  assumes "(send_work ^^ n) c c'" and "send_run evs c" and "\<not> write_failed evs"
  shows "\<exists>evs'. send_run (evs @ evs') c' \<and> \<not> write_failed (evs @ evs') \<and> asked (evs @ evs') = asked evs \<and>
    work_left c' + n = work_left c"
  using assms(1)
proof (induction n arbitrary: c')
  case 0
  then show ?case
    using assms(2,3) by (intro exI [of _ "[]"]) simp
next
  case (Suc n)
  then obtain d where d: "(send_work ^^ n) c d" "send_work d c'"
    by auto
  from Suc.IH [OF d(1)] obtain evs' where run: "send_run (evs @ evs') d" "\<not> write_failed (evs @ evs')"
      "asked (evs @ evs') = asked evs" "work_left d + n = work_left c"
    by blast
  from send_work_run [OF run(1,2) d(2)] obtain e where "send_run ((evs @ evs') @ [e]) c'" "\<not> write_failed ((evs @ evs') @ [e])"
      "asked ((evs @ evs') @ [e]) = asked evs"
    using run(3) by auto
  with work_queue [OF d(2) send_run_inv [OF run(1)] run(2)] run(4) show ?case
    by (intro exI [of _ "evs' @ [e]"]) simp
qed

lemma work_ends:
  assumes "send_run evs c" and "\<not> write_failed evs" and "\<And>c'. \<not> send_work c c'"
  shows "posted c = [] \<and> message_queue c = [] \<and> writing c = None"
proof -
  note inv = send_run_inv [OF assms(1)]
  have "posted c = []"
  proof (cases "posted c")
    case (Cons p ps)
    then have "owns_frame p"
      using inv by (simp add: queue_inv_def)
    from enqueue_task_spec [OF this, of "c\<lparr>posted := ps\<rparr>"] Cons show ?thesis
      using assms(3) send_work.task [of c "[]" p ps] by auto
  qed
  moreover have "message_queue c = []"
  proof (cases "message_queue c")
    case (Cons p q)
    then have "writing c = Some (frame_of p)" "\<forall>p \<in> set q. owns_frame p"
      using inv assms(2) by (simp_all add: queue_inv_def queue_ok_def)
    with write_completed_spec [OF Cons] show ?thesis
      using assms(3) send_work.written [of c] by blast
  qed
  ultimately show ?thesis
    using inv assms(2) by (simp add: queue_inv_def queue_ok_def)
qed

section \<open>Properties\<close>

text \<open>C10: the client never gets stuck on its own state.  In every state the client reaches, as long as the
  application hands over packages that own their frames, the maps have one entry per id and hold what the
  dispatch expects, every posted task runs, every completion of the outstanding write runs, with success
  or with an error, and so does the handler of every frame with a valid layout and of every failed read.\<close>

theorem client_type_safe:
  assumes "typed_client c"
  shows "om_inv (operations_map c) \<and> om_inv (subscriptions_map c) \<and> keys_ok c \<and>
    (\<forall>xs p ys. posted c = xs @ p # ys \<longrightarrow> enqueue_task p (c\<lparr>posted := xs @ ys\<rparr>) \<noteq> None) \<and>
    (\<forall>b ec. writing c = Some b \<longrightarrow> write_completed ec c \<noteq> None) \<and>
    (\<forall>f n g. frame_ok f n \<and> n < 2 ^ 32 \<and> is_guid g \<longrightarrow> package_read client_call g success f n c \<noteq> None) \<and>
    (\<forall>ec f n g. failed ec \<longrightarrow> package_read client_call g ec f n c \<noteq> None)"
proof -
  have typed: "packages_ok c" "maps_ok c" "keys_ok c"
    using typed_client_typed [OF assms] by (simp_all add: client_typed_def)
  have "enqueue_task p (c\<lparr>posted := xs @ ys\<rparr>) \<noteq> None" if "posted c = xs @ p # ys" for xs p ys
    using enqueue_task_spec [of p "c\<lparr>posted := xs @ ys\<rparr>"] typed(1) that by (auto simp: packages_ok_def)
  moreover have "write_completed ec c \<noteq> None" if w: "writing c = Some b" for b ec
  proof (cases "failed ec")
    case True
    then show ?thesis
      using write_error_spec [of ec c] by auto
  next
    case False
    obtain p q where q: "message_queue c = p # q" "\<forall>p \<in> set q. owns_frame p"
      using typed(1) w by (cases "message_queue c") (auto simp: packages_ok_def)
    have "write_completed ec c = write_completed success c"
      using False by (simp add: write_completed_def)
    then show ?thesis
      using write_completed_spec [OF q] by auto
  qed
  moreover have "package_read client_call g success f n c \<noteq> None" if "frame_ok f n" "n < 2 ^ 32" "is_guid g" for f n g
    using dispatch_defined [OF that(1,3), of client_call success c] that mk_view_ok [OF that(1)]
    by (auto simp: package_read_def frame_view_command [OF that(1)] frame_view_message [OF that(1,2)])
  moreover have "package_read client_call g ec f n c \<noteq> None" if "failed ec" for ec f n g
    using that by (simp add: package_read_def)
  ultimately show ?thesis
    using typed(2,3) by (simp add: maps_ok_def)
qed

theorem client_type_safe_witness:
  "\<exists>p (c :: unit client). typed_client c \<and> posted c = [p] \<and> enqueue_task p (c\<lparr>posted := []\<rparr>) \<noteq> None \<and>
     package_read client_call (replicate 16 9) success (unauthenticated_frame Heartbeat_Request_Command flags_none (replicate 16 7) []) 22 c \<noteq> None"
proof -
  let ?c = "mk_client connection_settings_default ''c'' :: unit client"
  have z: "and flags_none flags_authenticated = 0" and g: "is_guid (replicate 16 (7 :: byte))" "is_guid (replicate 16 (9 :: byte))"
    by (simp_all add: flags_none_def is_guid_def)
  note F = unauthenticated_frame_ok [OF g(1) z, of Heartbeat_Request_Command "[]"]
  obtain p where p: "unauthenticated_package Heartbeat_Response_Command flags_none (replicate 16 7) [] = Some p"
    "owns_frame p"
    using unauthenticated_package_frame [OF z g(1), of Heartbeat_Response_Command "[]"]
    by (auto simp: owns_frame_def unauthenticated_frame_def le32_def is_guid_def Let_def)
  have posted: "posted ?c = []"
    by (simp add: mk_client_def mk_connection_def connection.defs)
  have "client_step ?c (async_send p ?c)"
    by (rule client_step.notify) (simp add: mk_client_def connection.defs)
  then have t: "typed_client (async_send p ?c)"
    using p(2) by (intro typed_client.step [OF typed_client.start]) (auto simp: async_send_def posted)
  have one: "posted (async_send p ?c) = [] @ p # []"
    by (simp add: async_send_def posted)
  note safe = client_type_safe [OF t]
  have "enqueue_task p ((async_send p ?c)\<lparr>posted := [] @ []\<rparr>) \<noteq> None"
    using safe one by blast
  moreover have "package_read client_call (replicate 16 9) success
      (unauthenticated_frame Heartbeat_Request_Command flags_none (replicate 16 7) []) 22 (async_send p ?c) \<noteq> None"
    using safe F(1) g(2) by simp
  ultimately show ?thesis
    using t one by (intro exI [of _ p] exI [of _ "async_send p ?c"]) simp
qed

text \<open>C19: sending makes progress.  Without a failed write, every order in which the event loop runs posted
  tasks and the socket completes writes ends after exactly two steps for each posted package and
  one for each queued one; and where nothing is left to do, every package that was asked for
  has been written, once.\<close>

theorem sending_drains:
  assumes "send_run evs c" and "\<not> write_failed evs" and "(send_work ^^ n) c c'"
  shows "n \<le> 2 * length (posted c) + length (message_queue c) \<and>
    ((\<forall>c''. \<not> send_work c' c'') \<longleftrightarrow> n = 2 * length (posted c) + length (message_queue c)) \<and>
    ((\<forall>c''. \<not> send_work c' c'') \<longrightarrow> (\<exists>evs'. send_run (evs @ evs') c' \<and>
       mset (finished (evs @ evs')) = mset (map frame_of (asked evs))))"
proof -
  from send_works_run [OF assms(3,1,2)] obtain evs' where run: "send_run (evs @ evs') c'" "\<not> write_failed (evs @ evs')"
      "asked (evs @ evs') = asked evs" "work_left c' + n = work_left c"
    by blast
  note inv = send_run_inv [OF run(1)]
  have "(\<forall>c''. \<not> send_work c' c'') \<longleftrightarrow> work_left c' = 0"
  proof
    assume "\<forall>c''. \<not> send_work c' c''"
    with work_ends [OF run(1,2)] show "work_left c' = 0"
      by (simp add: work_left_def)
  next
    assume "work_left c' = 0"
    with work_queue [OF _ inv run(2)] show "\<forall>c''. \<not> send_work c' c''"
      by force
  qed
  moreover have "mset (finished (evs @ evs')) = mset (map frame_of (asked evs))" if "\<forall>c''. \<not> send_work c' c''"
  proof -
    have "posted c' = []" "message_queue c' = []"
      using work_ends [OF run(1,2)] that by blast+
    then have "finished (evs @ evs') = map frame_of (accepted (evs @ evs'))" "mset (asked evs) = mset (accepted (evs @ evs'))"
      using inv run(2,3) unfolding queue_inv_def queue_ok_def by simp_all
    then show ?thesis
      by (metis mset_map)
  qed
  ultimately show ?thesis
    using run(1,4) by (auto simp: work_left_def)
qed

theorem sending_drains_witness:
  "\<exists>p (c :: unit connection) c'. send_run [Asked p] c \<and> (send_work ^^ 2) c c' \<and>
     (\<exists>evs'. send_run ([Asked p] @ evs') c' \<and> finished ([Asked p] @ evs') = [frame_of p])"
proof -
  let ?p = "\<lparr>p_package = Some [0, 0, 0, 0], p_length = 0\<rparr>"
  let ?c = "async_send ?p (mk_connection connection_settings_default ''c'') :: unit connection"
  have own: "owns_frame ?p"
    by (simp add: owns_frame_def)
  have run: "send_run [Asked ?p] ?c"
    using send_run.ask [OF send_run.start own, of "mk_connection connection_settings_default ''c'' :: unit connection"]
    by (simp add: mk_connection_def)
  have c: "posted ?c = [] @ ?p # []" "message_queue ?c = []"
    by (simp_all add: async_send_def mk_connection_def)
  obtain c1 where c1: "enqueue_task ?p (?c\<lparr>posted := [] @ []\<rparr>) = Some c1" "message_queue c1 = [?p]" "writing c1 = Some (frame_of ?p)"
    using enqueue_task_spec [OF own, of "?c\<lparr>posted := [] @ []\<rparr>"] c(2) by auto
  obtain c2 where c2: "write_completed success c1 = Some c2"
    using write_completed_spec [OF c1(2)] by auto
  have two: "(send_work ^^ 2) ?c c2"
    using send_work.task [OF c(1) c1(1)] send_work.written [OF c1(3) c2] by (auto simp: numeral_2_eq_2)
  have nf: "\<not> write_failed [Asked ?p]"
    by (simp add: write_failed_def)
  from sending_drains [OF run nf two] c obtain evs' where "send_run ([Asked ?p] @ evs') c2"
      "mset (finished ([Asked ?p] @ evs')) = mset (map frame_of (asked [Asked ?p]))"
    by auto
  then have "finished ([Asked ?p] @ evs') = [frame_of ?p]"
    by simp
  with run two \<open>send_run ([Asked ?p] @ evs') c2\<close> show ?thesis
    by blast
qed

end
