(* ===== verification/Heartbeat.thy ===== *)
theory Heartbeat
  imports Tcp_Connection
begin

text \<open>
  \<open>tcp/heartbeat.hpp\<close> with \<open>connection/heartbeat_info.hpp\<close>: the chain of heartbeats of a connection.  Each
  time its timer fires, the operation compares the connection's count of received packages with the
  count it saw last.  If it changed, it waits one more interval; if not, it first asks the server for
  a heartbeat and waits for the timeout, and closes the connection when the count is still the same.

  The operation is alive with the connection (\<open>Some c\<close>) or finds it deallocated (\<open>None\<close>).
\<close>

section \<open>State\<close>

text \<open>The count is stored as \<open>int\<close> and compared with \<open>unsigned int\<close>, so its bits are what matters.\<close>

record heartbeat_info =
  last_package_no :: uint
  timestamp :: int
  is_interval_stage :: bool

text \<open>The timer is started with a duration in milliseconds, or the chain ends.\<close>

datatype heartbeat_next = Wait int | Chain_Ends

definition mk_heartbeat :: "('op, 'm) connection_scheme \<Rightarrow> int \<Rightarrow> heartbeat_info" where
  "mk_heartbeat c elapsed = \<lparr>last_package_no = package_no c, timestamp = elapsed, is_interval_stage = True\<rparr>"

section \<open>Operations\<close>

text \<open>\<open>operator()\<close> with an error.\<close>

definition heartbeat_error :: "error_code \<Rightarrow> ('op, 'm) connection_scheme option \<Rightarrow> ('op, 'm) connection_scheme option" where
  "heartbeat_error ec conn =
    (if ec = operation_aborted then conn
     else if ec = connection_error Connection_Closed then conn
     else (case conn of None \<Rightarrow> None | Some c \<Rightarrow> Some (close_connection c)))"

text \<open>\<open>initiate()\<close>; \<open>None\<close> around the result is undefined behaviour in building the request.\<close>

definition heartbeat_initiate ::
  "guid \<Rightarrow> int \<Rightarrow> heartbeat_info \<Rightarrow> ('op, 'm) connection_scheme option \<Rightarrow>
     (heartbeat_info \<times> ('op, 'm) connection_scheme option \<times> heartbeat_next) option"
where
  "heartbeat_initiate new_guid elapsed info conn =
    (case conn of
       None \<Rightarrow> Some (info, heartbeat_error (connection_error Connection_Closed) conn, Chain_Ends)
     | Some c \<Rightarrow>
         if \<not> socket_open c
         then Some (info, heartbeat_error (connection_error Connection_Closed) conn, Chain_Ends)
         else if last_package_no info \<noteq> package_no c
         then Some (info\<lparr>last_package_no := package_no c, is_interval_stage := True, timestamp := elapsed\<rparr>,
                    conn, Wait (cs_heartbeat_interval (settings c)))
         else if is_interval_stage info
         then do {
           p \<leftarrow> unauthenticated_package Heartbeat_Request_Command flags_none new_guid [];
           Some (info\<lparr>is_interval_stage := False, timestamp := elapsed\<rparr>, Some (async_send p c),
                 Wait (cs_heartbeat_timeout (settings c))) }
         else Some (info, heartbeat_error (connection_error Heartbeat_Timeout) conn, Chain_Ends))"

definition heartbeat_completed ::
  "guid \<Rightarrow> int \<Rightarrow> error_code \<Rightarrow> heartbeat_info \<Rightarrow> ('op, 'm) connection_scheme option \<Rightarrow>
     (heartbeat_info \<times> ('op, 'm) connection_scheme option \<times> heartbeat_next) option"
where
  "heartbeat_completed new_guid elapsed ec info conn =
    (if \<not> failed ec then heartbeat_initiate new_guid elapsed info conn
     else Some (info, heartbeat_error ec conn, Chain_Ends))"

section \<open>The chain\<close>

text \<open>
  One run of the chain on a connection that lives: before each call of \<open>initiate\<close> some packages have
  been received, \<open>d\<close> of them, and nothing else touches the socket.  The run ends with the connection
  closed or with the calls that were considered.  Its trace tells what each call did.
\<close>

datatype beat = Interval | Request | Closed

definition heartbeat_request :: "guid \<Rightarrow> tcp_package option" where
  "heartbeat_request g = unauthenticated_package Heartbeat_Request_Command flags_none g []"

text \<open>A call that waits for the interval posts nothing; one that waits for the timeout has posted exactly the
  request.  Anything else is no beat.\<close>

definition beat_of :: "guid \<Rightarrow> ('op, 'm) connection_scheme \<Rightarrow> ('op, 'm) connection_scheme \<Rightarrow> int \<Rightarrow> beat option" where
  "beat_of g c c' t =
    (if posted c' = posted c then (if t = cs_heartbeat_interval (settings c) then Some Interval else None)
     else do {
       p \<leftarrow> heartbeat_request g;
       if posted c' = posted c @ [p] \<and> t = cs_heartbeat_timeout (settings c) then Some Request else None })"

fun chain :: "guid \<Rightarrow> heartbeat_info \<Rightarrow> ('op, 'm) connection_scheme \<Rightarrow> uint list \<Rightarrow> beat list option" where
  "chain g info c [] = Some []"
| "chain g info c (d # ds) =
    (let c = c\<lparr>package_no := package_no c + d\<rparr> in
     case heartbeat_completed g 0 success info (Some c) of
       Some (info', Some c', Wait t) \<Rightarrow>
         do { b \<leftarrow> beat_of g c c' t; bs \<leftarrow> chain g info' c' ds; Some (b # bs) }
     | Some (_, Some c', Chain_Ends) \<Rightarrow> if socket_open c' then Some [] else Some [Closed]
     | _ \<Rightarrow> None)"

text \<open>What the chain should do, given only the numbers of packages received before each call: \<open>fresh\<close>
  says whether the last call saw packages arrive (or was the first).\<close>

fun chain_spec :: "bool \<Rightarrow> uint list \<Rightarrow> beat list" where
  "chain_spec fresh [] = []"
| "chain_spec fresh (d # ds) =
    (if d \<noteq> 0 then Interval # chain_spec True ds
     else if fresh then Request # chain_spec False ds
     else [Closed])"

section \<open>Lemmas\<close>

lemma heartbeat_request_package:
  assumes "is_guid g"
  shows "\<exists>p. heartbeat_request g = Some p"
proof -
  have "and flags_none flags_authenticated = 0"
    by (simp add: flags_none_def)
  from unauthenticated_package_frame [OF this assms] show ?thesis
    by (simp add: heartbeat_request_def)
qed

lemma heartbeat_timeout_closes:
  "heartbeat_error (connection_error Heartbeat_Timeout) (Some c) = Some (close_connection c)"
  by (simp add: heartbeat_error_def)

text \<open>The three outcomes of a call on an open connection.\<close>

lemma heartbeat_calls:
  assumes "is_guid g" and "socket_open c"
  shows "package_no c \<noteq> last_package_no info \<Longrightarrow> heartbeat_completed g t success info (Some c) =
      Some (info\<lparr>last_package_no := package_no c, is_interval_stage := True, timestamp := t\<rparr>, Some c,
            Wait (cs_heartbeat_interval (settings c)))"
    and "package_no c = last_package_no info \<Longrightarrow> is_interval_stage info \<Longrightarrow>
      \<exists>p. heartbeat_request g = Some p \<and> heartbeat_completed g t success info (Some c) =
        Some (info\<lparr>is_interval_stage := False, timestamp := t\<rparr>, Some (async_send p c),
              Wait (cs_heartbeat_timeout (settings c)))"
    and "package_no c = last_package_no info \<Longrightarrow> \<not> is_interval_stage info \<Longrightarrow>
      heartbeat_completed g t success info (Some c) = Some (info, Some (close_connection c), Chain_Ends)"
  using assms heartbeat_request_package [OF assms(1)]
  by (auto simp: heartbeat_completed_def heartbeat_initiate_def heartbeat_timeout_closes heartbeat_request_def)

lemma chain_eq_spec:
  assumes "is_guid g"
  shows "socket_open c \<Longrightarrow> package_no c = last_package_no info \<Longrightarrow>
    chain g info c ds = Some (chain_spec (is_interval_stage info) ds)"
proof (induction ds arbitrary: info c)
  case (Cons d ds)
  let ?c = "c\<lparr>package_no := package_no c + d\<rparr>"
  have o': "socket_open ?c"
    using Cons.prems by simp
  note h = heartbeat_calls [OF assms o', of info 0]
  show ?case
  proof (cases "d = 0")
    case False
    then have n: "package_no ?c \<noteq> last_package_no info"
      using Cons.prems by simp
    show ?thesis
      using h(1) [OF n] False Cons.IH [of ?c "info\<lparr>last_package_no := package_no ?c, is_interval_stage := True, timestamp := 0\<rparr>"] o'
      by (simp add: Let_def beat_of_def)
  next
    case True
    then have n: "package_no ?c = last_package_no info"
      using Cons.prems by simp
    show ?thesis
    proof (cases "is_interval_stage info")
      case stage: True
      obtain p where p: "heartbeat_request g = Some p" "heartbeat_completed g 0 success info (Some ?c) =
          Some (info\<lparr>is_interval_stage := False, timestamp := 0\<rparr>, Some (async_send p ?c),
                Wait (cs_heartbeat_timeout (settings ?c)))"
        using h(2) [OF n stage] by blast
      have "chain g (info\<lparr>is_interval_stage := False, timestamp := 0\<rparr>) (async_send p ?c) ds = Some (chain_spec False ds)"
        using Cons.IH [of "async_send p ?c" "info\<lparr>is_interval_stage := False, timestamp := 0\<rparr>"] o' n
        by (simp add: async_send_def)
      then show ?thesis
        using p True stage by (simp add: async_send_def beat_of_def)
    next
      case False
      then show ?thesis
        using h(3) [OF n False] True by (simp add: close_connection_def)
    qed
  qed
qed simp

text \<open>Two calls in a row that see no package.\<close>

definition silent_twice :: "uint list \<Rightarrow> bool" where
  "silent_twice ds \<longleftrightarrow> (\<exists>i. Suc i < length ds \<and> ds ! i = 0 \<and> ds ! Suc i = 0)"

lemma silent_twice_Cons:
  "silent_twice (d # ds) \<longleftrightarrow> (d = 0 \<and> ds \<noteq> [] \<and> hd ds = 0) \<or> silent_twice ds"
proof
  assume "silent_twice (d # ds)"
  then obtain i where "Suc i < length (d # ds)" "(d # ds) ! i = 0" "(d # ds) ! Suc i = 0"
    by (auto simp: silent_twice_def)
  then show "(d = 0 \<and> ds \<noteq> [] \<and> hd ds = 0) \<or> silent_twice ds"
    by (cases i) (auto simp: silent_twice_def hd_conv_nth)
next
  assume "(d = 0 \<and> ds \<noteq> [] \<and> hd ds = 0) \<or> silent_twice ds"
  then show "silent_twice (d # ds)"
  proof
    assume "d = 0 \<and> ds \<noteq> [] \<and> hd ds = 0"
    then show ?thesis
      unfolding silent_twice_def by (intro exI [of _ 0]) (auto simp: hd_conv_nth)
  next
    assume "silent_twice ds"
    then obtain i where "Suc i < length ds" "ds ! i = 0" "ds ! Suc i = 0"
      by (auto simp: silent_twice_def)
    then show ?thesis
      unfolding silent_twice_def by (intro exI [of _ "Suc i"]) simp
  qed
qed

lemma chain_spec_closed_iff:
  "Closed \<in> set (chain_spec fresh ds) \<longleftrightarrow> (\<not> fresh \<and> ds \<noteq> [] \<and> hd ds = 0) \<or> silent_twice ds"
  by (induction fresh ds rule: chain_spec.induct) (auto simp: silent_twice_Cons, simp add: silent_twice_def)

lemma chain_spec_order:
  "chain_spec fresh ds = xs @ b # ys \<Longrightarrow>
     (b = Closed \<longrightarrow> ys = [] \<and> (xs = [] \<longrightarrow> \<not> fresh) \<and> (xs \<noteq> [] \<longrightarrow> last xs = Request)) \<and>
     (b = Interval \<longleftrightarrow> ds ! length xs \<noteq> 0)"
proof (induction fresh ds arbitrary: xs rule: chain_spec.induct)
  case (2 fresh d ds)
  then show ?case
    by (cases xs) (auto split: if_splits)
qed simp

section \<open>Properties\<close>

text \<open>C20: when heartbeats close a connection.  Whatever the numbers of packages received between the
  calls, the connection is closed if and only if two calls in a row see no new package; the first of
  the two posts exactly a heartbeat request and waits for the timeout, the second closes the connection, and after it the chain
  ends.  A call that sees new packages posts nothing and waits another interval.  (A count that wraps around to
  the same value is a multiple of 2^32 packages.)\<close>

theorem heartbeat_closes_iff_silent:
  assumes "is_guid g" and "socket_open c"
  shows "\<exists>bs. chain g (mk_heartbeat c t) c ds = Some bs \<and>
    (Closed \<in> set bs \<longleftrightarrow> (\<exists>i. Suc i < length ds \<and> ds ! i = 0 \<and> ds ! Suc i = 0)) \<and>
    (\<forall>xs b ys. bs = xs @ b # ys \<longrightarrow> (b = Closed \<longrightarrow> ys = [] \<and> xs \<noteq> [] \<and> last xs = Request) \<and>
       (b = Interval \<longleftrightarrow> ds ! length xs \<noteq> 0))"
proof -
  have "chain g (mk_heartbeat c t) c ds = Some (chain_spec True ds)"
    using chain_eq_spec [OF assms, of "mk_heartbeat c t" ds] by (simp add: mk_heartbeat_def)
  moreover have "Closed \<in> set (chain_spec True ds) \<longleftrightarrow> (\<exists>i. Suc i < length ds \<and> ds ! i = 0 \<and> ds ! Suc i = 0)"
    by (simp add: chain_spec_closed_iff silent_twice_def)
  moreover have "(b = Closed \<longrightarrow> ys = [] \<and> xs \<noteq> [] \<and> last xs = Request) \<and> (b = Interval \<longleftrightarrow> ds ! length xs \<noteq> 0)"
    if "chain_spec True ds = xs @ b # ys" for xs b ys
    using chain_spec_order [OF that] by auto
  ultimately show ?thesis
    by blast
qed

theorem heartbeat_closes_iff_silent_witness:
  "\<exists>bs. chain (replicate 16 3) (mk_heartbeat (sample_connection\<lparr>socket_open := True\<rparr>) 0)
      (sample_connection\<lparr>socket_open := True\<rparr>) [0, 5, 0, 0] = Some bs \<and> Closed \<in> set bs"
proof -
  have "is_guid (replicate 16 (3 :: byte))"
    by (simp add: is_guid_def)
  moreover have "socket_open (sample_connection\<lparr>socket_open := True\<rparr>)"
    by simp
  ultimately obtain bs where bs: "chain (replicate 16 3) (mk_heartbeat (sample_connection\<lparr>socket_open := True\<rparr>) 0)
      (sample_connection\<lparr>socket_open := True\<rparr>) [0, 5, 0, 0] = Some bs"
      "Closed \<in> set bs \<longleftrightarrow> (\<exists>i. Suc i < length [0, 5, 0, 0 :: uint] \<and> [0, 5, 0, 0 :: uint] ! i = 0 \<and> [0, 5, 0, 0 :: uint] ! Suc i = 0)"
    using heartbeat_closes_iff_silent [of "replicate 16 3" "sample_connection\<lparr>socket_open := True\<rparr>" 0 "[0, 5, 0, 0]"]
    by blast
  have "\<exists>i. Suc i < length [0, 5, 0, 0 :: uint] \<and> [0, 5, 0, 0 :: uint] ! i = 0 \<and> [0, 5, 0, 0 :: uint] ! Suc i = 0"
    by (rule exI [of _ 2]) simp
  with bs show ?thesis
    by blast
qed

text \<open>Heartbeats end with the connection.  When the connection has been deallocated or its socket is
  closed, the next call of the chain sends nothing, closes nothing and starts no timer.\<close>

theorem heartbeat_chain_ends:
  assumes "case conn of None \<Rightarrow> True | Some c \<Rightarrow> \<not> socket_open c"
  shows "heartbeat_completed g t success info conn = Some (info, conn, Chain_Ends)"
  using assms
  by (cases conn) (simp_all add: heartbeat_completed_def heartbeat_initiate_def heartbeat_error_def)

theorem heartbeat_chain_ends_witness:
  "heartbeat_completed [] 0 success (mk_heartbeat sample_connection 0) (Some sample_connection) =
     Some (mk_heartbeat sample_connection 0, Some sample_connection, Chain_Ends)"
  by (rule heartbeat_chain_ends) (simp add: sample_connection_def mk_connection_def)

end
