(* ===== verification/Cluster_Messages.thy ===== *)
theory Cluster_Messages
  imports Es_Values
begin

text \<open>
  \<open>message/cluster_messages.hpp\<close>: what the nodes of a cluster say about themselves when they are asked for
  gossip, and its JSON form.  The JSON library is not part of the repository: writing produces the list of
  members the code writes, and reading goes through the accessors \<open>j.at(key).get<T>()\<close>, a parameter whose
  exceptions are passed on.  The text form of a guid is a parameter as well.
\<close>

section \<open>Node states\<close>

datatype virtual_node_state =
  VS_Initializing | VS_Unknown | VS_Pre_Replica | VS_Catching_Up | VS_Clone | VS_Slave | VS_Pre_Master
| VS_Master | VS_Manager | VS_Shutting_Down | VS_Shutdown | VS_Other int

fun vns_value :: "virtual_node_state \<Rightarrow> int" where
  "vns_value VS_Initializing = 0"
| "vns_value VS_Unknown = 1"
| "vns_value VS_Pre_Replica = 2"
| "vns_value VS_Catching_Up = 3"
| "vns_value VS_Clone = 4"
| "vns_value VS_Slave = 5"
| "vns_value VS_Pre_Master = 6"
| "vns_value VS_Master = 7"
| "vns_value VS_Manager = 8"
| "vns_value VS_Shutting_Down = 9"
| "vns_value VS_Shutdown = 10"
| "vns_value (VS_Other i) = i"

fun vns_to_string :: "virtual_node_state \<Rightarrow> string" where
  "vns_to_string VS_Initializing = ''Initializing''"
| "vns_to_string VS_Unknown = ''Unknown''"
| "vns_to_string VS_Pre_Replica = ''PreReplica''"
| "vns_to_string VS_Catching_Up = ''CatchingUp''"
| "vns_to_string VS_Clone = ''Clone''"
| "vns_to_string VS_Slave = ''Slave''"
| "vns_to_string VS_Pre_Master = ''PreMaster''"
| "vns_to_string VS_Master = ''Master''"
| "vns_to_string VS_Manager = ''Manager''"
| "vns_to_string VS_Shutting_Down = ''ShuttingDown''"
| "vns_to_string VS_Shutdown = ''Shutdown''"
| "vns_to_string (VS_Other i) = []"

definition vns_from_string :: "string \<Rightarrow> virtual_node_state" where
  "vns_from_string str =
    (if str = ''Initializing'' then VS_Initializing
     else if str = ''Unknown'' then VS_Unknown
     else if str = ''PreReplica'' then VS_Pre_Replica
     else if str = ''CatchingUp'' then VS_Catching_Up
     else if str = ''Clone'' then VS_Clone
     else if str = ''Slave'' then VS_Slave
     else if str = ''PreMaster'' then VS_Pre_Master
     else if str = ''Master'' then VS_Master
     else if str = ''Manager'' then VS_Manager
     else if str = ''ShuttingDown'' then VS_Shutting_Down
     else if str = ''Shutdown'' then VS_Shutdown
     else VS_Other (- 1))"

lemma vns_from_to_string:
  "vns_from_string (vns_to_string st) = (case st of VS_Other i \<Rightarrow> VS_Other (- 1) | _ \<Rightarrow> st)"
  by (cases st) (simp_all add: vns_from_string_def)

section \<open>member_info\<close>

record member_info =
  mi_instance_id :: guid
  mi_date_time :: string
  mi_state :: virtual_node_state
  mi_is_alive :: bool
  mi_internal_tcp_ip :: string
  mi_internal_tcp_port :: int
  mi_internal_secure_tcp_port :: int
  mi_external_tcp_ip :: string
  mi_external_tcp_port :: int
  mi_external_secure_tcp_port :: int
  mi_internal_http_ip :: string
  mi_internal_http_port :: int
  mi_external_http_ip :: string
  mi_external_http_port :: int
  mi_last_commit_position :: int
  mi_writer_checkpoint :: int
  mi_chaser_checkpoint :: int
  mi_epoch_position :: int
  mi_epoch_number :: int
  mi_epoch_id :: guid
  mi_node_priority :: int

text \<open>\<open>member_info()\<close> zero-initializes all members.\<close>

definition member_info_null :: member_info where
  "member_info_null = \<lparr>mi_instance_id = replicate 16 0, mi_date_time = [], mi_state = VS_Initializing,
     mi_is_alive = False, mi_internal_tcp_ip = [], mi_internal_tcp_port = 0, mi_internal_secure_tcp_port = 0,
     mi_external_tcp_ip = [], mi_external_tcp_port = 0, mi_external_secure_tcp_port = 0,
     mi_internal_http_ip = [], mi_internal_http_port = 0, mi_external_http_ip = [], mi_external_http_port = 0,
     mi_last_commit_position = 0, mi_writer_checkpoint = 0, mi_chaser_checkpoint = 0, mi_epoch_position = 0,
     mi_epoch_number = 0, mi_epoch_id = replicate 16 0, mi_node_priority = 0\<rparr>"

definition member_info_eq :: "member_info \<Rightarrow> member_info \<Rightarrow> bool" where
  "member_info_eq m other \<longleftrightarrow>
     mi_instance_id m = mi_instance_id other \<and>
     mi_date_time m = mi_date_time other \<and>
     mi_state m = mi_state other \<and>
     mi_is_alive m = mi_is_alive other \<and>
     mi_internal_tcp_ip m = mi_internal_tcp_ip other \<and>
     mi_internal_tcp_port m = mi_internal_tcp_port other \<and>
     mi_internal_secure_tcp_port m = mi_internal_secure_tcp_port other \<and>
     mi_external_tcp_ip m = mi_external_tcp_ip other \<and>
     mi_external_tcp_port m = mi_external_tcp_port other \<and>
     mi_external_secure_tcp_port m = mi_external_secure_tcp_port other \<and>
     mi_internal_http_ip m = mi_internal_http_ip other \<and>
     mi_internal_http_port m = mi_internal_http_port other \<and>
     mi_external_http_ip m = mi_external_http_ip other \<and>
     mi_external_http_port m = mi_external_http_port other \<and>
     mi_last_commit_position m = mi_last_commit_position other \<and>
     mi_writer_checkpoint m = mi_writer_checkpoint other \<and>
     mi_chaser_checkpoint m = mi_chaser_checkpoint other \<and>
     mi_epoch_position m = mi_epoch_position other \<and>
     mi_epoch_number m = mi_epoch_number other \<and>
     mi_epoch_id m = mi_epoch_id other \<and>
     mi_node_priority m = mi_node_priority other"

lemma member_info_eq_iff: "member_info_eq m n \<longleftrightarrow> m = n"
  by (cases m; cases n) (auto simp: member_info_eq_def)

section \<open>JSON\<close>

datatype json_scalar = J_String string | J_Int int | J_Bool bool

definition member_to_json :: "(guid \<Rightarrow> string) \<Rightarrow> member_info \<Rightarrow> (string \<times> json_scalar) list" where
  "member_to_json show_guid m =
    [(''instanceId'', J_String (show_guid (mi_instance_id m))),
     (''timeStamp'', J_String (mi_date_time m)),
     (''state'', J_String (vns_to_string (mi_state m))),
     (''isAlive'', J_Bool (mi_is_alive m)),
     (''internalTcpIp'', J_String (mi_internal_tcp_ip m)),
     (''internalTcpPort'', J_Int (mi_internal_tcp_port m)),
     (''internalSecureTcpPort'', J_Int (mi_internal_secure_tcp_port m)),
     (''externalTcpIp'', J_String (mi_external_tcp_ip m)),
     (''externalTcpPort'', J_Int (mi_external_tcp_port m)),
     (''externalSecureTcpPort'', J_Int (mi_external_secure_tcp_port m)),
     (''internalHttpIp'', J_String (mi_internal_http_ip m)),
     (''internalHttpPort'', J_Int (mi_internal_http_port m)),
     (''externalHttpIp'', J_String (mi_external_http_ip m)),
     (''externalHttpPort'', J_Int (mi_external_http_port m)),
     (''lastCommitPosition'', J_Int (mi_last_commit_position m)),
     (''writerCheckpoint'', J_Int (mi_writer_checkpoint m)),
     (''chaserCheckpoint'', J_Int (mi_chaser_checkpoint m)),
     (''epochPosition'', J_Int (mi_epoch_position m)),
     (''epochNumber'', J_Int (mi_epoch_number m)),
     (''epochId'', J_String (show_guid (mi_epoch_id m))),
     (''nodePriority'', J_Int (mi_node_priority m))]"

text \<open>The accessors of a JSON value; \<open>'e\<close> are the library's exceptions.\<close>

record 'e json_access =
  ja_empty :: bool
  ja_string :: "string \<Rightarrow> 'e + string"
  ja_int :: "string \<Rightarrow> 'e + int"
  ja_bool :: "string \<Rightarrow> 'e + bool"

text \<open>One \<open>get_to\<close>: an exception ends the reading.\<close>

definition read_into :: "'e + 'v \<Rightarrow> ('v \<Rightarrow> 'e + 'm) \<Rightarrow> 'e + 'm" where
  "read_into r k = (case r of Inl e \<Rightarrow> Inl e | Inr v \<Rightarrow> k v)"

text \<open>\<open>from_json\<close>, which fills \<open>m\<close>: an unknown state leaves the rest of it as it was.\<close>

definition member_from_json ::
  "(string \<Rightarrow> 'e + guid) \<Rightarrow> 'e json_access \<Rightarrow> member_info \<Rightarrow> 'e + member_info"
where
  "member_from_json parse_guid j m =
    (if ja_empty j then Inr m
     else read_into (ja_string j ''instanceId'') (\<lambda>i. read_into (parse_guid i) (\<lambda>instance_id.
       let m = m\<lparr>mi_instance_id := instance_id\<rparr> in
       read_into (ja_string j ''epochId'') (\<lambda>eid. read_into (parse_guid eid) (\<lambda>epoch_id.
       let m = m\<lparr>mi_epoch_id := epoch_id\<rparr> in
       read_into (ja_string j ''state'') (\<lambda>st.
       if vns_value (vns_from_string st) = - 1 then Inr m
       else
       let m = m\<lparr>mi_state := vns_from_string st\<rparr> in
       read_into (ja_string j ''timeStamp'') (\<lambda>x. let m = m\<lparr>mi_date_time := x\<rparr> in
       read_into (ja_bool j ''isAlive'') (\<lambda>x. let m = m\<lparr>mi_is_alive := x\<rparr> in
       read_into (ja_string j ''internalTcpIp'') (\<lambda>x. let m = m\<lparr>mi_internal_tcp_ip := x\<rparr> in
       read_into (ja_int j ''internalTcpPort'') (\<lambda>x. let m = m\<lparr>mi_internal_tcp_port := x\<rparr> in
       read_into (ja_int j ''internalSecureTcpPort'') (\<lambda>x. let m = m\<lparr>mi_internal_secure_tcp_port := x\<rparr> in
       read_into (ja_string j ''externalTcpIp'') (\<lambda>x. let m = m\<lparr>mi_external_tcp_ip := x\<rparr> in
       read_into (ja_int j ''externalTcpPort'') (\<lambda>x. let m = m\<lparr>mi_external_tcp_port := x\<rparr> in
       read_into (ja_int j ''externalSecureTcpPort'') (\<lambda>x. let m = m\<lparr>mi_external_secure_tcp_port := x\<rparr> in
       read_into (ja_string j ''internalHttpIp'') (\<lambda>x. let m = m\<lparr>mi_internal_http_ip := x\<rparr> in
       read_into (ja_int j ''internalHttpPort'') (\<lambda>x. let m = m\<lparr>mi_internal_http_port := x\<rparr> in
       read_into (ja_string j ''externalHttpIp'') (\<lambda>x. let m = m\<lparr>mi_external_http_ip := x\<rparr> in
       read_into (ja_int j ''externalHttpPort'') (\<lambda>x. let m = m\<lparr>mi_external_http_port := x\<rparr> in
       read_into (ja_int j ''lastCommitPosition'') (\<lambda>x. let m = m\<lparr>mi_last_commit_position := x\<rparr> in
       read_into (ja_int j ''writerCheckpoint'') (\<lambda>x. let m = m\<lparr>mi_writer_checkpoint := x\<rparr> in
       read_into (ja_int j ''chaserCheckpoint'') (\<lambda>x. let m = m\<lparr>mi_chaser_checkpoint := x\<rparr> in
       read_into (ja_int j ''epochPosition'') (\<lambda>x. let m = m\<lparr>mi_epoch_position := x\<rparr> in
       read_into (ja_int j ''epochNumber'') (\<lambda>x. let m = m\<lparr>mi_epoch_number := x\<rparr> in
       read_into (ja_int j ''nodePriority'') (\<lambda>x. Inr (m\<lparr>mi_node_priority := x\<rparr>)))))))))))))))))))))))))"

section \<open>cluster_info\<close>

record cluster_info =
  ci_members :: "member_info list"

definition cluster_to_json :: "(guid \<Rightarrow> string) \<Rightarrow> cluster_info \<Rightarrow> (string \<times> (string \<times> json_scalar) list list) list" where
  "cluster_to_json show_guid c = [(''members'', map (member_to_json show_guid) (ci_members c))]"

text \<open>The members are read in order into fresh objects.\<close>

fun read_members ::
  "(string \<Rightarrow> 'e + guid) \<Rightarrow> member_info \<Rightarrow> 'e json_access list \<Rightarrow> 'e + member_info list"
where
  "read_members parse_guid fresh [] = Inr []"
| "read_members parse_guid fresh (j # js) =
     read_into (member_from_json parse_guid j fresh) (\<lambda>m.
     read_into (read_members parse_guid fresh js) (\<lambda>ms. Inr (m # ms)))"

definition cluster_from_json ::
  "(string \<Rightarrow> 'e + guid) \<Rightarrow> member_info \<Rightarrow> 'e + 'e json_access list \<Rightarrow> 'e + cluster_info"
where
  "cluster_from_json parse_guid fresh at_members =
     read_into at_members (\<lambda>js. read_into (read_members parse_guid fresh js) (\<lambda>ms. Inr \<lparr>ci_members = ms\<rparr>))"

section \<open>Lemmas\<close>

lemma read_into_simps [simp, outcome_simps]:
  "read_into (Inl e) k = Inl e" "read_into (Inr v) k = k v"
  by (simp_all add: read_into_def)

text \<open>Accessors that give back what was written.\<close>

definition access_of :: "(string \<times> json_scalar) list \<Rightarrow> 'e json_access \<Rightarrow> bool" where
  "access_of obj j \<longleftrightarrow> (ja_empty j \<longleftrightarrow> obj = []) \<and>
     (\<forall>k s. map_of obj k = Some (J_String s) \<longrightarrow> ja_string j k = Inr s) \<and>
     (\<forall>k i. map_of obj k = Some (J_Int i) \<longrightarrow> ja_int j k = Inr i) \<and>
     (\<forall>k b. map_of obj k = Some (J_Bool b) \<longrightarrow> ja_bool j k = Inr b)"

lemma access_string: "access_of obj j \<Longrightarrow> map_of obj k = Some (J_String s) \<Longrightarrow> ja_string j k = Inr s"
  and access_int: "access_of obj j \<Longrightarrow> map_of obj k = Some (J_Int i) \<Longrightarrow> ja_int j k = Inr i"
  and access_bool: "access_of obj j \<Longrightarrow> map_of obj k = Some (J_Bool b) \<Longrightarrow> ja_bool j k = Inr b"
  and access_empty: "access_of obj j \<Longrightarrow> ja_empty j \<longleftrightarrow> obj = []"
  by (simp_all add: access_of_def)

lemma access_member_strings:
  assumes "access_of (member_to_json show_guid m) j"
  shows "\<not> ja_empty j"
    "ja_string j ''instanceId'' = Inr (show_guid (mi_instance_id m))"
    "ja_string j ''epochId'' = Inr (show_guid (mi_epoch_id m))"
    "ja_string j ''state'' = Inr (vns_to_string (mi_state m))"
    "ja_string j ''timeStamp'' = Inr (mi_date_time m)"
    "ja_bool j ''isAlive'' = Inr (mi_is_alive m)"
    "ja_string j ''internalTcpIp'' = Inr (mi_internal_tcp_ip m)"
    "ja_string j ''externalTcpIp'' = Inr (mi_external_tcp_ip m)"
    "ja_string j ''internalHttpIp'' = Inr (mi_internal_http_ip m)"
    "ja_string j ''externalHttpIp'' = Inr (mi_external_http_ip m)"
  by (simp_all add: access_empty [OF assms] access_string [OF assms] access_bool [OF assms] member_to_json_def)

lemma access_member_ints:
  assumes "access_of (member_to_json show_guid m) j"
  shows "ja_int j ''internalTcpPort'' = Inr (mi_internal_tcp_port m)"
    "ja_int j ''internalSecureTcpPort'' = Inr (mi_internal_secure_tcp_port m)"
    "ja_int j ''externalTcpPort'' = Inr (mi_external_tcp_port m)"
    "ja_int j ''externalSecureTcpPort'' = Inr (mi_external_secure_tcp_port m)"
    "ja_int j ''internalHttpPort'' = Inr (mi_internal_http_port m)"
    "ja_int j ''externalHttpPort'' = Inr (mi_external_http_port m)"
    "ja_int j ''lastCommitPosition'' = Inr (mi_last_commit_position m)"
    "ja_int j ''writerCheckpoint'' = Inr (mi_writer_checkpoint m)"
    "ja_int j ''chaserCheckpoint'' = Inr (mi_chaser_checkpoint m)"
    "ja_int j ''epochPosition'' = Inr (mi_epoch_position m)"
    "ja_int j ''epochNumber'' = Inr (mi_epoch_number m)"
    "ja_int j ''nodePriority'' = Inr (mi_node_priority m)"
  by (simp_all add: access_int [OF assms] member_to_json_def)

definition is_named_state :: "virtual_node_state \<Rightarrow> bool" where
  "is_named_state st \<longleftrightarrow> (\<forall>i. st \<noteq> VS_Other i)"

lemma named_state:
  "is_named_state st \<Longrightarrow> vns_from_string (vns_to_string st) = st \<and> vns_value st \<noteq> - 1"
  by (cases st) (auto simp: is_named_state_def vns_from_string_def)

lemma unknown_state:
  assumes "\<forall>v. vns_to_string v \<noteq> st"
  shows "vns_from_string st = VS_Other (- 1)"
proof -
  note ne = assms [THEN spec]
  show ?thesis
    using ne [of VS_Initializing] ne [of VS_Unknown] ne [of VS_Pre_Replica] ne [of VS_Catching_Up] ne [of VS_Clone]
      ne [of VS_Slave] ne [of VS_Pre_Master] ne [of VS_Master] ne [of VS_Manager] ne [of VS_Shutting_Down]
      ne [of VS_Shutdown]
    unfolding vns_to_string.simps vns_from_string_def by presburger
qed

lemma member_round_trip:
  assumes "access_of (member_to_json show_guid m) j" and "\<forall>g. parse_guid (show_guid g) = Inr g"
    and "is_named_state (mi_state m)"
  shows "member_from_json parse_guid j m0 = Inr m"
  using named_state [OF assms(3)]
  by (simp add: member_from_json_def access_member_strings [OF assms(1)] access_member_ints [OF assms(1)] assms(2) Let_def)
section \<open>Properties\<close>

lemma read_members_round_trip:
  assumes "list_all2 (\<lambda>m j. access_of (member_to_json show_guid m) j \<and> is_named_state (mi_state m)) ms js"
    and "\<forall>g. parse_guid (show_guid g) = Inr g"
  shows "read_members parse_guid fresh js = Inr ms"
  using assms(1)
proof (induction rule: list_all2_induct)
  case (Cons m ms j js)
  then show ?case
    using member_round_trip [of show_guid m j parse_guid fresh] assms(2) by simp
qed simp

text \<open>C39: gossip survives JSON.  What a node writes about the members of its cluster, in whatever object it is stored
  as long as the accessors give back what was written, is read back unchanged, whatever the fresh objects hold
  that are read into; and a member whose state has a name the client does not know is read without an error, but
  only its two identifiers are set: whether it is alive, its addresses and its ports stay what the fresh object
  held.\<close>

theorem gossip_round_trip:
  assumes "\<forall>g. parse_guid (show_guid g) = Inr g"
  shows "(list_all2 (\<lambda>m j. access_of (member_to_json show_guid m) j \<and> is_named_state (mi_state m)) (ci_members c) js \<longrightarrow>
      cluster_from_json parse_guid fresh (Inr js) = Inr c) \<and>
    (\<not> ja_empty j \<and> ja_string j ''instanceId'' = Inr (show_guid g) \<and> ja_string j ''epochId'' = Inr (show_guid g') \<and>
       ja_string j ''state'' = Inr st \<and> (\<forall>v. vns_to_string v \<noteq> st) \<longrightarrow>
      member_from_json parse_guid j fresh = Inr (fresh\<lparr>mi_instance_id := g, mi_epoch_id := g'\<rparr>))"
proof (intro conjI impI)
  assume "list_all2 (\<lambda>m j. access_of (member_to_json show_guid m) j \<and> is_named_state (mi_state m)) (ci_members c) js"
  from read_members_round_trip [OF this assms] show "cluster_from_json parse_guid fresh (Inr js) = Inr c"
    by (simp add: cluster_from_json_def)
next
  assume a: "\<not> ja_empty j \<and> ja_string j ''instanceId'' = Inr (show_guid g) \<and> ja_string j ''epochId'' = Inr (show_guid g') \<and>
       ja_string j ''state'' = Inr st \<and> (\<forall>v. vns_to_string v \<noteq> st)"
  then have "vns_from_string st = VS_Other (- 1)"
    by (intro unknown_state) simp
  with a assms show "member_from_json parse_guid j fresh = Inr (fresh\<lparr>mi_instance_id := g, mi_epoch_id := g'\<rparr>)"
    by (simp add: member_from_json_def)
qed

definition access_to :: "(string \<times> json_scalar) list \<Rightarrow> unit json_access" where
  "access_to obj = \<lparr>ja_empty = (obj = []),
     ja_string = (\<lambda>k. case map_of obj k of Some (J_String s) \<Rightarrow> Inr s | _ \<Rightarrow> Inl ()),
     ja_int = (\<lambda>k. case map_of obj k of Some (J_Int i) \<Rightarrow> Inr i | _ \<Rightarrow> Inl ()),
     ja_bool = (\<lambda>k. case map_of obj k of Some (J_Bool b) \<Rightarrow> Inr b | _ \<Rightarrow> Inl ())\<rparr>"

definition sample_member :: "virtual_node_state \<Rightarrow> bool \<Rightarrow> int \<Rightarrow> member_info" where
  "sample_member st alive port = member_info_null\<lparr>mi_state := st, mi_is_alive := alive,
     mi_external_tcp_ip := ''10.0.0.1'', mi_external_tcp_port := port, mi_external_http_ip := ''10.0.0.1''\<rparr>"

theorem gossip_round_trip_witness:
  "cluster_from_json (\<lambda>s. Inr (to_bytes s)) member_info_null
     (Inr [access_to (member_to_json from_bytes (sample_member VS_Master True 1113))]) =
   Inr \<lparr>ci_members = [sample_member VS_Master True 1113]\<rparr>"
proof -
  have "(of_char (char_of (unat b)) :: byte) = b" for b :: byte
  proof -
    have "(of_char (char_of (unat b)) :: byte) = of_nat (of_char (char_of (unat b)))"
      by (simp only: of_nat_of_char)
    also have "(of_char (char_of (unat b)) :: nat) = unat b"
      using unsigned_less [of b, where 'a = nat] by (simp add: of_char_of)
    finally show ?thesis by simp
  qed
  then have "to_bytes (from_bytes g) = g" for g
    by (induction g) (simp_all add: to_bytes_def from_bytes_def)
  then have g: "\<forall>g. (\<lambda>s. Inr (to_bytes s) :: unit + guid) (from_bytes g) = Inr g"
    by simp
  from conjunct1 [OF gossip_round_trip [OF g], of "\<lparr>ci_members = [sample_member VS_Master True 1113]\<rparr>"]
  show ?thesis
    by (auto simp: access_of_def access_to_def sample_member_def is_named_state_def member_to_json_def)
qed

end
