(* ===== verification/Handshake.thy ===== *)
theory Handshake
  imports Heartbeat Request_Response
begin

text \<open>
  Connecting: \<open>tcp/connect.hpp\<close>, \<open>tcp/authenticate.hpp\<close>, \<open>tcp/identify.hpp\<close> and
  \<open>basic_tcp_connection::async_connect\<close>.  Endpoint discovery is followed by the TCP connection; with
  default credentials the client authenticates first, and then, whatever the outcome, identifies itself;
  without them it identifies itself at once.  Each of the two requests has a deadline.

  The handler that \<open>async_connect\<close> wraps around the user's handler travels along: it is moved from one
  operation object to the next.  A registered operation therefore says whether the handler it holds is
  the user's or one that has been moved from.
\<close>

section \<open>State\<close>

record connect_env =
  env_settings :: connection_settings
  env_connection_name :: string
  env_serialize :: "identify_client \<Rightarrow> string"

datatype handshake_op =
  Authenticate_Op (handler_moved: bool)
| Identify_Op (op_authenticated: bool) (handler_moved: bool)

record identify_op =
  io_correlation_id :: guid
  io_reconnections :: nat
  io_authenticated :: bool

text \<open>The registered operations, the packages given to \<open>async_send\<close>, the identification operations whose
  deadlines run, the calls of the user's handler (with the flag of a moved-from handler), and whether
  reading and the heartbeats have been started.\<close>

record handshake =
  hs_ops :: "handshake_op operations_map"
  hs_sent :: "tcp_package list"
  hs_identify :: "identify_op list"
  hs_completions :: "(bool \<times> error_code \<times> connection_result option) list"
  hs_reading :: bool
  hs_heartbeats :: bool

definition handshake_start :: handshake where
  "handshake_start = \<lparr>hs_ops = om_empty, hs_sent = [], hs_identify = [], hs_completions = [],
     hs_reading = False, hs_heartbeats = False\<rparr>"

definition ES_CLIENT_VERSION :: int where "ES_CLIENT_VERSION = 1"

definition null_guid :: guid where
  "null_guid = replicate 16 0"

section \<open>The end of the chain\<close>

text \<open>The lambda of \<open>async_connect\<close>: \<open>identification_package_received_handler\<close>.\<close>

definition connect_completed ::
  "bool \<Rightarrow> error_code \<Rightarrow> tcp_package_view \<Rightarrow> guid \<Rightarrow> handshake \<Rightarrow> handshake option"
where
  "connect_completed moved ec v new_id s =
    (if \<not> failed ec \<or> ec = connection_error Authentication_Failed
     then do {
       c \<leftarrow> view_command v;
       if c \<noteq> Client_Identified_Command then Some s
       else Some (s\<lparr>hs_completions := hs_completions s @ [(moved, ec, Some \<lparr>connection_id = new_id\<rparr>)]\<rparr>) }
     else Some (s\<lparr>hs_completions := hs_completions s @ [(moved, ec, None)]\<rparr>))"

section \<open>identify_op\<close>

definition identify_package :: "connect_env \<Rightarrow> bool \<Rightarrow> guid \<Rightarrow> tcp_package option" where
  "identify_package env authenticated corr_id =
    (let serialized = to_bytes (env_serialize env \<lparr>ic_version = ES_CLIENT_VERSION,
           ic_connection_name = Some (env_connection_name env)\<rparr>);
         creds = cs_default_user_credentials (env_settings env)
     in if authenticated
        then authenticated_package Identify_Client_Command flags_authenticated corr_id (username creds) (password creds) serialized
        else unauthenticated_package Identify_Client_Command flags_none corr_id serialized)"

text \<open>\<open>initiate()\<close>: send, register, start the deadline.  The constructor's new operation and the retry of an
  old one run the same code; the index of the operation among those whose deadline runs is \<open>i\<close>.\<close>

definition identify_initiate :: "connect_env \<Rightarrow> identify_op \<Rightarrow> bool \<Rightarrow> handshake \<Rightarrow> handshake option" where
  "identify_initiate env op moved s = do {
     p \<leftarrow> identify_package env (io_authenticated op) (io_correlation_id op);
     Some (s\<lparr>hs_sent := hs_sent s @ [p],
             hs_ops := register_op (io_correlation_id op) (Identify_Op (io_authenticated op) moved) (hs_ops s)\<rparr>) }"

definition identify_start :: "connect_env \<Rightarrow> bool \<Rightarrow> bool \<Rightarrow> guid \<Rightarrow> handshake \<Rightarrow> handshake option" where
  "identify_start env authenticated moved new_guid s =
    (let op = \<lparr>io_correlation_id = new_guid, io_reconnections = 0, io_authenticated = authenticated\<rparr>
     in identify_initiate env op moved (s\<lparr>hs_identify := hs_identify s @ [op]\<rparr>))"

text \<open>The registered lambda.\<close>

definition identify_answered ::
  "bool \<Rightarrow> bool \<Rightarrow> guid \<Rightarrow> error_code \<Rightarrow> tcp_package_view \<Rightarrow> handshake \<Rightarrow> handshake option"
where
  "identify_answered authenticated moved corr_id ec v s =
    (let ec = (if \<not> authenticated \<and> \<not> failed ec then connection_error Authentication_Failed else ec)
     in if \<not> failed ec \<or> ec = connection_error Authentication_Failed
        then connect_completed moved ec v corr_id s
        else connect_completed moved ec v null_guid s)"

section \<open>authenticate_op and authentication_handler\<close>

text \<open>\<open>authentication_handler::operator()\<close>; afterwards its own handler is moved from.\<close>

definition authentication_answered ::
  "connect_env \<Rightarrow> bool \<Rightarrow> guid \<Rightarrow> error_code \<Rightarrow> tcp_package_view \<Rightarrow> handshake \<Rightarrow> handshake option"
where
  "authentication_answered env moved new_guid ec v s =
    (if failed ec then identify_start env False moved new_guid s
     else do {
       c \<leftarrow> view_command v;
       if c = Authenticated_Command then identify_start env True moved new_guid s
       else if c = Not_Authenticated_Command then identify_start env False moved new_guid s
       else Some s })"

definition authenticate_initiate :: "connect_env \<Rightarrow> guid \<Rightarrow> handshake \<Rightarrow> handshake option" where
  "authenticate_initiate env corr_id s =
    (let creds = cs_default_user_credentials (env_settings env) in do {
       p \<leftarrow> authenticated_package Authenticate_Command flags_authenticated corr_id (username creds) (password creds) [];
       Some (s\<lparr>hs_sent := hs_sent s @ [p], hs_ops := register_op corr_id (Authenticate_Op False) (hs_ops s)\<rparr>) })"

section \<open>Calling a registered operation\<close>

text \<open>A call runs the lambda in its place in the map: an authentication's handler is moved from by it.\<close>

definition mark_moved :: "guid \<Rightarrow> handshake \<Rightarrow> handshake" where
  "mark_moved k s = s\<lparr>hs_ops := map (\<lambda>(j, op). (j, if j = k then Authenticate_Op True else op)) (hs_ops s)\<rparr>"

definition starts_identification :: "error_code \<Rightarrow> tcp_package_view \<Rightarrow> bool" where
  "starts_identification ec v \<longleftrightarrow> failed ec \<or> view_command v = Some Authenticated_Command \<or>
     view_command v = Some Not_Authenticated_Command"

definition call_handshake_op ::
  "connect_env \<Rightarrow> guid \<Rightarrow> handshake_op \<Rightarrow> guid \<Rightarrow> error_code \<Rightarrow> tcp_package_view \<Rightarrow> handshake \<Rightarrow> handshake option"
where
  "call_handshake_op env k op new_guid ec v s =
    (case op of
       Authenticate_Op moved \<Rightarrow> do {
         s \<leftarrow> authentication_answered env moved new_guid ec v s;
         Some (if starts_identification ec v then mark_moved k s else s) }
     | Identify_Op authenticated moved \<Rightarrow> identify_answered authenticated moved k ec v s)"

text \<open>A frame with the correlation id \<open>k\<close>: the first branch of \<open>on_package_received\<close>.  A frame for
  nobody changes nothing here.\<close>

definition handshake_frame ::
  "connect_env \<Rightarrow> guid \<Rightarrow> guid \<Rightarrow> tcp_package_view \<Rightarrow> handshake \<Rightarrow> handshake option"
where
  "handshake_frame env k new_guid v s =
    (case om_at k (hs_ops s) of
       Inl _ \<Rightarrow> Some s
     | Inr op \<Rightarrow> do {
         s \<leftarrow> call_handshake_op env k op new_guid success v s;
         Some (s\<lparr>hs_ops := om_erase k (hs_ops s)\<rparr>) })"

text \<open>\<open>authenticate_op::operator()\<close>, the completion of its deadline: it looks the operation up, calls it and
  does not erase it.\<close>

definition authenticate_deadline ::
  "connect_env \<Rightarrow> guid \<Rightarrow> guid \<Rightarrow> error_code \<Rightarrow> handshake \<Rightarrow> (exn + handshake) option"
where
  "authenticate_deadline env k new_guid ec s =
    (if \<not> failed ec
     then (case om_at k (hs_ops s) of Inl e \<Rightarrow> Some (Inl e)
       | Inr op \<Rightarrow> map_option Inr (call_handshake_op env k op new_guid (connection_error Authentication_Timeout) null_view s))
     else if ec \<noteq> operation_aborted
     then (case om_at k (hs_ops s) of Inl e \<Rightarrow> Some (Inl e)
       | Inr op \<Rightarrow> map_option Inr (call_handshake_op env k op new_guid ec null_view s))
     else Some (Inr s))"

text \<open>\<open>identify_op::operator()\<close> for the \<open>i\<close>-th identification.\<close>

definition identify_deadline ::
  "connect_env \<Rightarrow> nat \<Rightarrow> error_code \<Rightarrow> handshake \<Rightarrow> (exn + handshake) option"
where
  "identify_deadline env i ec s =
    (let op = hs_identify s ! i; k = io_correlation_id op;
         max_reconnections = unat (cs_max_reconnections (env_settings env)) in
     if \<not> failed ec
     then if max_reconnections > 0 \<and> io_reconnections op < max_reconnections
       then (let op = op\<lparr>io_reconnections := io_reconnections op + 1\<rparr>
             in map_option Inr (identify_initiate env op True (s\<lparr>hs_identify := (hs_identify s)[i := op]\<rparr>)))
       else (case om_at k (hs_ops s) of Inl e \<Rightarrow> Some (Inl e)
         | Inr h \<Rightarrow> map_option Inr (call_handshake_op env k h null_guid (connection_error Operation_Timeout) null_view s))
     else if ec \<noteq> operation_aborted
     then (case om_at k (hs_ops s) of Inl e \<Rightarrow> Some (Inl e)
       | Inr h \<Rightarrow> map_option Inr (call_handshake_op env k h null_guid ec null_view s))
     else Some (Inr s))"

section \<open>The beginning of the chain\<close>

text \<open>The first call of \<open>heartbeat_op::initiate\<close>, on a socket that has just been connected: no package has been
  counted since the operation was made, and it is in the interval stage, so that it sends a heartbeat request at
  once (\<open>heartbeat_initiate_fresh\<close>).\<close>

definition heartbeat_start :: "guid \<Rightarrow> handshake \<Rightarrow> handshake option" where
  "heartbeat_start heartbeat_guid s = do {
     p \<leftarrow> heartbeat_request heartbeat_guid;
     Some (s\<lparr>hs_sent := hs_sent s @ [p], hs_heartbeats := True\<rparr>) }"

text \<open>\<open>tcp_connected_handler::operator()\<close>.\<close>

definition tcp_connected :: "connect_env \<Rightarrow> guid \<Rightarrow> guid \<Rightarrow> error_code \<Rightarrow> handshake \<Rightarrow> handshake option" where
  "tcp_connected env new_guid heartbeat_guid ec s =
    (if \<not> failed ec
     then do {
       s \<leftarrow> (if credentials_null (cs_default_user_credentials (env_settings env))
             then identify_start env False False new_guid s
             else authenticate_initiate env new_guid s);
       heartbeat_start heartbeat_guid (s\<lparr>hs_reading := True\<rparr>) }
     else connect_completed False ec null_view null_guid s)"

text \<open>\<open>discover_node_endpoints_handler::operator()\<close>: the endpoint to connect to, or the end.\<close>

definition endpoint_discovered ::
  "error_code \<Rightarrow> endpoint \<Rightarrow> handshake \<Rightarrow> (endpoint option \<times> handshake) option"
where
  "endpoint_discovered ec endpoint s =
    (if \<not> failed ec then Some (Some endpoint, s)
     else map_option (Pair None) (connect_completed False (connection_error Endpoint_Discovery) null_view null_guid s))"

section \<open>Lemmas\<close>

lemma flags_bits: "and flags_none flags_authenticated = 0" "and flags_authenticated flags_authenticated \<noteq> 0"
  by (simp_all add: flags_none_def flags_authenticated_def)

lemma heartbeat_initiate_fresh:
  assumes "socket_open c" and "heartbeat_request g = Some p"
  shows "heartbeat_initiate g t (mk_heartbeat c t0) (Some c) =
    Some ((mk_heartbeat c t0)\<lparr>is_interval_stage := False, timestamp := t\<rparr>, Some (async_send p c),
      Wait (cs_heartbeat_timeout (settings c)))"
  using assms by (simp add: heartbeat_initiate_def mk_heartbeat_def heartbeat_request_def)

lemma heartbeat_start_Some:
  "heartbeat_start g s = Some s' \<longleftrightarrow>
     (\<exists>p. heartbeat_request g = Some p \<and> s' = s\<lparr>hs_sent := hs_sent s @ [p], hs_heartbeats := True\<rparr>)"
  by (auto simp: heartbeat_start_def split: Option.bind_splits)

lemma heartbeat_start_ops:
  "heartbeat_start g s = Some s' \<Longrightarrow> hs_ops s' = hs_ops s \<and> hs_completions s' = hs_completions s \<and>
     hs_identify s' = hs_identify s \<and> hs_reading s' = hs_reading s"
  by (auto simp: heartbeat_start_Some)

lemma identify_package_defined: "is_guid g \<Longrightarrow> \<exists>p. identify_package env a g = Some p"
  by (cases a) (simp_all add: identify_package_def Let_def unauthenticated_package_frame flags_bits(1)
      authenticated_package_frame [OF flags_bits(2)])

lemma identify_initiate_spec:
  assumes "is_guid (io_correlation_id op)"
  shows "\<exists>p. identify_package env (io_authenticated op) (io_correlation_id op) = Some p \<and>
    identify_initiate env op m s = Some (s\<lparr>hs_sent := hs_sent s @ [p],
      hs_ops := register_op (io_correlation_id op) (Identify_Op (io_authenticated op) m) (hs_ops s)\<rparr>)"
  using identify_package_defined [OF assms, of env "io_authenticated op"] by (auto simp: identify_initiate_def)

lemma identify_start_spec:
  assumes "is_guid g" and "map_of (hs_ops s) g = None"
  shows "\<exists>p s'. identify_package env a g = Some p \<and> identify_start env a m g s = Some s' \<and>
    hs_sent s' = hs_sent s @ [p] \<and> hs_completions s' = hs_completions s \<and>
    hs_identify s' = hs_identify s @ [\<lparr>io_correlation_id = g, io_reconnections = 0, io_authenticated = a\<rparr>] \<and>
    map_of (hs_ops s') = (map_of (hs_ops s))(g \<mapsto> Identify_Op a m)"
  using identify_initiate_spec [of "\<lparr>io_correlation_id = g, io_reconnections = 0, io_authenticated = a\<rparr>" env m
      "s\<lparr>hs_identify := hs_identify s @ [\<lparr>io_correlation_id = g, io_reconnections = 0, io_authenticated = a\<rparr>]\<rparr>"] assms
  by (auto simp: identify_start_def map_of_register_op)

lemma authenticate_initiate_spec:
  assumes "is_guid g" and "map_of (hs_ops s) g = None"
  shows "\<exists>p s'. authenticate_initiate env g s = Some s' \<and> hs_sent s' = hs_sent s @ [p] \<and>
    hs_completions s' = hs_completions s \<and> hs_identify s' = hs_identify s \<and>
    map_of (hs_ops s') = (map_of (hs_ops s))(g \<mapsto> Authenticate_Op False)"
  using assms
  by (simp add: authenticate_initiate_def Let_def authenticated_package_frame [OF flags_bits(2)] map_of_register_op)

lemma map_of_mark_moved:
  "map_of (hs_ops (mark_moved k s)) j =
     (if j = k \<and> map_of (hs_ops s) k \<noteq> None then Some (Authenticate_Op True) else map_of (hs_ops s) j)"
proof -
  have "map_of (map (\<lambda>(j, op). (j, if j = k then Authenticate_Op True else op)) m) j =
      (if j = k \<and> map_of m k \<noteq> None then Some (Authenticate_Op True) else map_of m j)" for m
    by (induction m) auto
  then show ?thesis
    by (simp add: mark_moved_def)
qed

lemma mark_moved_fields [simp]:
  "hs_sent (mark_moved k s) = hs_sent s" "hs_completions (mark_moved k s) = hs_completions s"
  "hs_identify (mark_moved k s) = hs_identify s"
  by (simp_all add: mark_moved_def)

text \<open>The answer to an identification.\<close>

lemma identify_frame:
  assumes "map_of (hs_ops s) g = Some (Identify_Op a m)" and "view_command v = Some Client_Identified_Command"
  shows "handshake_frame env g g' v s = Some (s\<lparr>hs_completions := hs_completions s @
      [(m, if a then success else connection_error Authentication_Failed, Some \<lparr>connection_id = g\<rparr>)],
      hs_ops := om_erase g (hs_ops s)\<rparr>)"
  using assms
  by (cases a) (simp_all add: handshake_frame_def om_at_map_of call_handshake_op_def identify_answered_def
      connect_completed_def)

text \<open>The answer to an authentication.\<close>

lemma authenticate_frame:
  assumes "map_of (hs_ops s) g = Some (Authenticate_Op m)" and "view_command v = Some c"
    and "is_guid g'" and "map_of (hs_ops s) g' = None"
  shows "\<exists>s'. handshake_frame env g g' v s = Some s' \<and> hs_completions s' = hs_completions s \<and>
    (if c = Authenticated_Command \<or> c = Not_Authenticated_Command
     then \<exists>p. identify_package env (c = Authenticated_Command) g' = Some p \<and> hs_sent s' = hs_sent s @ [p] \<and>
       map_of (hs_ops s') = (map_of (hs_ops s))(g' \<mapsto> Identify_Op (c = Authenticated_Command) m, g := None)
     else hs_sent s' = hs_sent s \<and> map_of (hs_ops s') = (map_of (hs_ops s))(g := None))"
proof -
  have ne: "g \<noteq> g'"
    using assms by auto
  have at: "om_at g (hs_ops s) = Inr (Authenticate_Op m)"
    using assms by (simp add: om_at_map_of)
  show ?thesis
  proof (cases "c = Authenticated_Command \<or> c = Not_Authenticated_Command")
    case True
    obtain p s' where s': "identify_package env (c = Authenticated_Command) g' = Some p"
        "identify_start env (c = Authenticated_Command) m g' s = Some s'" "hs_sent s' = hs_sent s @ [p]"
        "hs_completions s' = hs_completions s"
        "map_of (hs_ops s') = (map_of (hs_ops s))(g' \<mapsto> Identify_Op (c = Authenticated_Command) m)"
      using identify_start_spec [OF assms(3,4)] by blast
    have "authentication_answered env m g' success v s = Some s'"
      using True s'(2) assms(2) by (auto simp: authentication_answered_def)
    moreover have "starts_identification success v"
      using True assms(2) by (auto simp: starts_identification_def)
    ultimately have "handshake_frame env g g' v s = Some ((mark_moved g s')\<lparr>hs_ops := om_erase g (hs_ops (mark_moved g s'))\<rparr>)"
      by (simp add: handshake_frame_def at call_handshake_op_def)
    then show ?thesis
      using True s' ne by (auto simp: map_of_om_erase map_of_mark_moved fun_eq_iff)
  next
    case False
    then have "handshake_frame env g g' v s = Some (s\<lparr>hs_ops := om_erase g (hs_ops s)\<rparr>)"
      using assms(2) by (simp add: handshake_frame_def at call_handshake_op_def authentication_answered_def
          starts_identification_def)
    then show ?thesis
      using False by (simp add: map_of_om_erase)
  qed
qed

text \<open>The identification deadlines expiring \<open>n\<close> times in a row.\<close>

fun expire_identify :: "connect_env \<Rightarrow> nat \<Rightarrow> nat \<Rightarrow> handshake \<Rightarrow> (exn + handshake) option" where
  "expire_identify env i 0 s = Some (Inr s)"
| "expire_identify env i (Suc n) s = do {
     r \<leftarrow> identify_deadline env i success s;
     case r of Inl e \<Rightarrow> Some (Inl e) | Inr s \<Rightarrow> expire_identify env i n s }"

text \<open>An identification that waits: its \<open>r\<close>-th reconnection, registered under \<open>g\<close>.\<close>

definition identifying :: "nat \<Rightarrow> guid \<Rightarrow> nat \<Rightarrow> bool \<Rightarrow> bool \<Rightarrow> handshake \<Rightarrow> bool" where
  "identifying i g r a m s \<longleftrightarrow> is_guid g \<and> i < length (hs_identify s) \<and>
     hs_identify s ! i = \<lparr>io_correlation_id = g, io_reconnections = r, io_authenticated = a\<rparr> \<and>
     map_of (hs_ops s) g = Some (Identify_Op a m)"

lemma identify_retry:
  assumes "identifying i g r a m s" and "r < unat (cs_max_reconnections (env_settings env))"
  shows "\<exists>p s'. identify_package env a g = Some p \<and> identify_deadline env i success s = Some (Inr s') \<and>
    identifying i g (Suc r) a m s' \<and> hs_sent s' = hs_sent s @ [p] \<and> hs_completions s' = hs_completions s"
  using assms identify_initiate_spec [of "\<lparr>io_correlation_id = g, io_reconnections = Suc r, io_authenticated = a\<rparr>" env True
      "s\<lparr>hs_identify := (hs_identify s)[i := \<lparr>io_correlation_id = g, io_reconnections = Suc r, io_authenticated = a\<rparr>]\<rparr>"]
  by (auto simp: identifying_def identify_deadline_def Let_def map_of_register_op)

lemma expire_identify_retries:
  "identifying i g r a m s \<Longrightarrow> r + n \<le> unat (cs_max_reconnections (env_settings env)) \<Longrightarrow>
     \<exists>p s'. identify_package env a g = Some p \<and> expire_identify env i n s = Some (Inr s') \<and>
       identifying i g (r + n) a m s' \<and> hs_sent s' = hs_sent s @ replicate n p \<and> hs_completions s' = hs_completions s"
proof (induction n arbitrary: r s)
  case 0
  then have "is_guid g"
    by (simp add: identifying_def)
  with 0 identify_package_defined [of g env a] show ?case
    by auto
next
  case (Suc n)
  then obtain p s1 where s1: "identify_package env a g = Some p" "identify_deadline env i success s = Some (Inr s1)"
      "identifying i g (Suc r) a m s1" "hs_sent s1 = hs_sent s @ [p]" "hs_completions s1 = hs_completions s"
    using identify_retry [OF Suc.prems(1), of env] Suc.prems(2) by fastforce
  from Suc.IH [OF s1(3)] Suc.prems(2) s1 show ?case
    by (auto simp: replicate_append_same [symmetric])
qed

lemma identify_gives_up:
  assumes "identifying i g (unat (cs_max_reconnections (env_settings env))) a m s"
  shows "identify_deadline env i success s = Some (Inr (s\<lparr>hs_completions := hs_completions s @
    [(m, connection_error Operation_Timeout, None)]\<rparr>))"
  using assms
  by (simp add: identifying_def identify_deadline_def Let_def om_at_map_of call_handshake_op_def
      identify_answered_def connect_completed_def)

lemma expire_identify_snoc:
  "expire_identify env i n s = Some (Inr s') \<Longrightarrow> expire_identify env i (Suc n) s = identify_deadline env i success s'"
proof (induction n arbitrary: s)
  case 0
  then show ?case
    by (cases "identify_deadline env i success s") (auto split: sum.split)
next
  case (Suc n)
  then obtain s1 where "identify_deadline env i success s = Some (Inr s1)" "expire_identify env i n s1 = Some (Inr s')"
    by (auto split: Option.bind_splits sum.splits)
  with Suc.IH [of s1] show ?case
    by simp
qed

lemma authentication_times_out:
  assumes "map_of (hs_ops s) g = Some (Authenticate_Op m)" and "is_guid g'" and "map_of (hs_ops s) g' = None"
  shows "\<exists>p s'. authenticate_deadline env g g' success s = Some (Inr s') \<and> hs_sent s' = hs_sent s @ [p] \<and>
    identify_package env False g' = Some p \<and> hs_completions s' = hs_completions s \<and>
    map_of (hs_ops s') = (map_of (hs_ops s))(g' \<mapsto> Identify_Op False m, g \<mapsto> Authenticate_Op True)"
proof -
  have ne: "g \<noteq> g'"
    using assms by auto
  obtain p s' where s': "identify_package env False g' = Some p" "identify_start env False m g' s = Some s'"
      "hs_sent s' = hs_sent s @ [p]" "hs_completions s' = hs_completions s"
      "map_of (hs_ops s') = (map_of (hs_ops s))(g' \<mapsto> Identify_Op False m)"
    using identify_start_spec [OF assms(2,3)] by blast
  have "authenticate_deadline env g g' success s = Some (Inr (mark_moved g s'))"
    using assms(1) s'(2) by (simp add: authenticate_deadline_def om_at_map_of call_handshake_op_def
        authentication_answered_def starts_identification_def)
  with s' assms(1) ne show ?thesis
    by (auto simp: map_of_mark_moved fun_eq_iff)
qed

section \<open>Properties\<close>

text \<open>What the user's handler gets from connecting, when every request is answered in time.  Without
  default credentials the client identifies itself at once, and the handler is called exactly once
  with the id of the connection - always with the code \<open>authentication_failed\<close>.  With credentials the
  client authenticates first; the handler is then called exactly once with the id, with success if the
  server authenticated it and \<open>authentication_failed\<close> if it refused; after any other answer to the
  authentication nothing more is sent and the handler is never called.\<close>

theorem connect_outcomes:
  assumes "is_guid hb" and "is_guid g1" and "is_guid g2" and "g1 \<noteq> g2" and "view_command v1 = Some c1"
    and "view_command v2 = Some Client_Identified_Command"
  shows "\<exists>s1. tcp_connected env g1 hb success handshake_start = Some s1 \<and> hs_completions s1 = [] \<and> length (hs_sent s1) = 2 \<and>
    (if credentials_null (cs_default_user_credentials (env_settings env))
     then (\<exists>s2. handshake_frame env g1 g2 v2 s1 = Some s2 \<and>
       hs_completions s2 = [(False, connection_error Authentication_Failed, Some \<lparr>connection_id = g1\<rparr>)])
     else (\<exists>s2 s3. handshake_frame env g1 g2 v1 s1 = Some s2 \<and> handshake_frame env g2 g1 v2 s2 = Some s3 \<and>
       (if c1 = Authenticated_Command \<or> c1 = Not_Authenticated_Command
        then length (hs_sent s2) = 3 \<and> hs_completions s3 =
          [(False, if c1 = Authenticated_Command then success else connection_error Authentication_Failed,
            Some \<lparr>connection_id = g2\<rparr>)]
        else hs_sent s3 = hs_sent s1 \<and> hs_completions s3 = [])))"
proof -
  obtain q where q: "heartbeat_request hb = Some q"
    using heartbeat_request_package [OF assms(1)] by blast
  note assms = assms(2-)
  show ?thesis
  proof (cases "credentials_null (cs_default_user_credentials (env_settings env))")
  case True
  have "map_of (hs_ops handshake_start) g1 = None"
    by (simp add: handshake_start_def om_empty_def)
  from identify_start_spec [OF assms(1) this, of env False False] obtain p s' where
    s': "identify_start env False False g1 handshake_start = Some s'" "hs_sent s' = [p]" "hs_completions s' = []"
      "map_of (hs_ops s') g1 = Some (Identify_Op False False)"
    by (auto simp: handshake_start_def)
  let ?s1 = "s'\<lparr>hs_reading := True, hs_sent := hs_sent s' @ [q], hs_heartbeats := True\<rparr>"
  have "tcp_connected env g1 hb success handshake_start = Some ?s1"
    using True s'(1) q by (simp add: tcp_connected_def heartbeat_start_def)
  moreover have "map_of (hs_ops ?s1) g1 = Some (Identify_Op False False)"
    using s' by simp
  from identify_frame [OF this assms(5), of env g2] have "\<exists>s2. handshake_frame env g1 g2 v2 ?s1 = Some s2 \<and>
      hs_completions s2 = [(False, connection_error Authentication_Failed, Some \<lparr>connection_id = g1\<rparr>)]"
    using s'(3) by simp
  ultimately show ?thesis
    using True s'(2,3) by simp
next
  case False
  have "map_of (hs_ops handshake_start) g1 = None"
    by (simp add: handshake_start_def om_empty_def)
  from authenticate_initiate_spec [OF assms(1) this, of env] obtain p s' where
    s': "authenticate_initiate env g1 handshake_start = Some s'" "hs_sent s' = [p]" "hs_completions s' = []"
      "map_of (hs_ops s') = (map_of (hs_ops handshake_start))(g1 \<mapsto> Authenticate_Op False)"
    by (auto simp: handshake_start_def)
  let ?s1 = "s'\<lparr>hs_reading := True, hs_sent := hs_sent s' @ [q], hs_heartbeats := True\<rparr>"
  have t: "tcp_connected env g1 hb success handshake_start = Some ?s1"
    using False s'(1) q by (simp add: tcp_connected_def heartbeat_start_def)
  have o1: "map_of (hs_ops ?s1) g1 = Some (Authenticate_Op False)" "map_of (hs_ops ?s1) g2 = None"
    using s' assms(3) by (simp_all add: handshake_start_def om_empty_def)
  from authenticate_frame [OF o1(1) assms(4,2) o1(2), of env] obtain s2 where
    s2: "handshake_frame env g1 g2 v1 ?s1 = Some s2" "hs_completions s2 = []"
      "if c1 = Authenticated_Command \<or> c1 = Not_Authenticated_Command
       then \<exists>p. hs_sent s2 = hs_sent ?s1 @ [p] \<and> map_of (hs_ops s2) =
         (map_of (hs_ops ?s1))(g2 \<mapsto> Identify_Op (c1 = Authenticated_Command) False, g1 := None)
       else hs_sent s2 = hs_sent ?s1 \<and> map_of (hs_ops s2) = (map_of (hs_ops ?s1))(g1 := None)"
    using s'(3) by (auto split: if_splits)
  show ?thesis
  proof (cases "c1 = Authenticated_Command \<or> c1 = Not_Authenticated_Command")
    case True
    then have "map_of (hs_ops s2) g2 = Some (Identify_Op (c1 = Authenticated_Command) False)" "length (hs_sent s2) = 3"
      using s2(3) s'(2) assms(3) by auto
    with identify_frame [OF this(1) assms(5), of env g1] s2(1,2) t s'(2,3) False True show ?thesis
      by auto
  next
    case garbage: False
    then have "map_of (hs_ops s2) g2 = None"
      using s2(3) o1(2) by simp
    then have "handshake_frame env g2 g1 v2 s2 = Some s2"
      by (simp add: handshake_frame_def om_at_map_of)
    with s2 t s'(2,3) False garbage show ?thesis
      by auto
  qed
  qed
qed

definition sample_env :: "user_credentials \<Rightarrow> connect_env" where
  "sample_env creds = \<lparr>env_settings = with_default_user_credentials creds (with_max_reconnections 2 connection_settings_default),
     env_connection_name = ''ES-1'', env_serialize = (\<lambda>_. ''x'')\<rparr>"

definition answer :: "tcp_command \<Rightarrow> tcp_package_view" where
  "answer c = frame_view (unauthenticated_frame c flags_none (replicate 16 1) []) 22"

lemma view_answer: "is_named c \<Longrightarrow> view_command (answer c) = Some c"
  using unauthenticated_frame_ok [of "replicate 16 1" flags_none c "[]"]
  by (simp add: answer_def frame_view_command flags_bits is_guid_def)

theorem connect_outcomes_witness:
  "\<exists>s1 s2 s3. tcp_connected (sample_env (mk_credentials ''u'' ''p'')) (replicate 16 1) (replicate 16 4) success handshake_start = Some s1 \<and>
     handshake_frame (sample_env (mk_credentials ''u'' ''p'')) (replicate 16 1) (replicate 16 2) (answer Authenticated_Command) s1 = Some s2 \<and>
     handshake_frame (sample_env (mk_credentials ''u'' ''p'')) (replicate 16 2) (replicate 16 1) (answer Client_Identified_Command) s2 = Some s3 \<and>
     hs_completions s3 = [(False, success, Some \<lparr>connection_id = replicate 16 2\<rparr>)]"
proof -
  have g: "is_guid (replicate 16 (4 :: byte))" "is_guid (replicate 16 (1 :: byte))" "is_guid (replicate 16 (2 :: byte))"
      "replicate 16 (1 :: byte) \<noteq> replicate 16 2"
    by (simp_all add: is_guid_def)
  have n: "is_named Authenticated_Command" "is_named Client_Identified_Command"
    by (simp_all add: is_named_def)
  have "\<not> credentials_null (cs_default_user_credentials (env_settings (sample_env (mk_credentials ''u'' ''p''))))"
    by (simp add: sample_env_def with_default_user_credentials_def credentials_null_def mk_credentials_def)
  with connect_outcomes [OF g view_answer [OF n(1)] view_answer [OF n(2)], of "sample_env (mk_credentials ''u'' ''p'')"]
  show ?thesis
    by (simp only: if_True if_False simp_thms) blast
qed

text \<open>Identification that is not answered.  Each expiry of its deadline sends the request again, up
  to the configured number of reconnections; the next one calls the user's handler with
  \<open>operation_timeout\<close>.  The operation stays registered, though: when the answer comes after all, the
  same handler is called a second time, with the id of the connection.\<close>

theorem identify_timeout:
  assumes "identifying i g 0 a m s" and "view_command v = Some Client_Identified_Command"
    and "n = unat (cs_max_reconnections (env_settings env))"
  shows "\<exists>p s1 s2. identify_package env a g = Some p \<and> expire_identify env i (Suc n) s = Some (Inr s1) \<and>
    hs_sent s1 = hs_sent s @ replicate n p \<and>
    hs_completions s1 = hs_completions s @ [(m, connection_error Operation_Timeout, None)] \<and>
    handshake_frame env g g' v s1 = Some s2 \<and>
    hs_completions s2 = hs_completions s1 @
      [(m, if a then success else connection_error Authentication_Failed, Some \<lparr>connection_id = g\<rparr>)]"
proof -
  obtain p s' where s': "identify_package env a g = Some p" "expire_identify env i n s = Some (Inr s')"
      "identifying i g n a m s'" "hs_sent s' = hs_sent s @ replicate n p" "hs_completions s' = hs_completions s"
    using expire_identify_retries [OF assms(1), of n env] assms(3) by auto
  let ?s1 = "s'\<lparr>hs_completions := hs_completions s' @ [(m, connection_error Operation_Timeout, None)]\<rparr>"
  have "expire_identify env i (Suc n) s = Some (Inr ?s1)"
    using expire_identify_snoc [OF s'(2)] identify_gives_up [of i g env a m s'] s'(3) assms(3) by simp
  moreover have "map_of (hs_ops ?s1) g = Some (Identify_Op a m)"
    using s'(3) by (simp add: identifying_def)
  ultimately show ?thesis
    using identify_frame [of ?s1 g a m v env g'] assms(2) s' by auto
qed

theorem identify_timeout_witness:
  "\<exists>s s1 s2. expire_identify (sample_env credentials_default) 0 (Suc 2) s = Some (Inr s1) \<and>
     handshake_frame (sample_env credentials_default) (replicate 16 1) [] (answer Client_Identified_Command) s1 = Some s2 \<and>
     length (hs_completions s2) = 2"
proof -
  let ?s = "handshake_start\<lparr>hs_ops := [(replicate 16 1, Identify_Op False False)], hs_identify :=
      [\<lparr>io_correlation_id = replicate 16 1, io_reconnections = 0, io_authenticated = False\<rparr>]\<rparr>"
  have s: "identifying 0 (replicate 16 1) 0 False False ?s" "hs_completions ?s = []"
    by (simp_all add: identifying_def is_guid_def handshake_start_def)
  have "is_named Client_Identified_Command"
    by (simp add: is_named_def)
  then have v: "view_command (answer Client_Identified_Command) = Some Client_Identified_Command"
    by (rule view_answer)
  have "2 = unat (cs_max_reconnections (env_settings (sample_env credentials_default)))"
    by (simp add: sample_env_def with_default_user_credentials_def with_max_reconnections_def)
  from identify_timeout [OF s(1) v this, where g' = "[]"] obtain p s1 s2 where
    "expire_identify (sample_env credentials_default) 0 (Suc 2) ?s = Some (Inr s1)"
    "hs_completions s1 = hs_completions ?s @ [(False, connection_error Operation_Timeout, None)]"
    "handshake_frame (sample_env credentials_default) (replicate 16 1) [] (answer Client_Identified_Command) s1 = Some s2"
    "hs_completions s2 = hs_completions s1 @ [(False, if False then success else connection_error Authentication_Failed,
        Some \<lparr>connection_id = replicate 16 1\<rparr>)]"
    by blast
  then show ?thesis
    using s(2) by (intro exI [of _ ?s] exI [of _ s1] exI [of _ s2]) simp
qed

text \<open>Authentication that is answered late.  When its deadline expires the client goes on to
  identify itself without authentication, but the authentication stays registered.  When the server
  then reports success, a second identification is sent, authenticated this time, and the handler it
  will complete is one that has been moved from.\<close>

theorem late_authentication_identifies_twice:
  assumes "map_of (hs_ops s) g = Some (Authenticate_Op False)" and "is_guid g2" and "is_guid g3"
    and "map_of (hs_ops s) g2 = None" and "map_of (hs_ops s) g3 = None" and "g2 \<noteq> g3"
    and "view_command v = Some Authenticated_Command"
  shows "\<exists>p1 p2 s1 s2. authenticate_deadline env g g2 success s = Some (Inr s1) \<and>
    handshake_frame env g g3 v s1 = Some s2 \<and>
    identify_package env False g2 = Some p1 \<and> identify_package env True g3 = Some p2 \<and>
    hs_sent s2 = hs_sent s @ [p1, p2] \<and>
    map_of (hs_ops s2) g2 = Some (Identify_Op False False) \<and> map_of (hs_ops s2) g3 = Some (Identify_Op True True)"
proof -
  obtain p s1 where s1: "authenticate_deadline env g g2 success s = Some (Inr s1)" "hs_sent s1 = hs_sent s @ [p]"
      "identify_package env False g2 = Some p"
      "map_of (hs_ops s1) = (map_of (hs_ops s))(g2 \<mapsto> Identify_Op False False, g \<mapsto> Authenticate_Op True)"
    using authentication_times_out [OF assms(1,2,4)] by blast
  have ne: "g \<noteq> g2" "g \<noteq> g3"
    using assms by auto
  have "map_of (hs_ops s1) g = Some (Authenticate_Op True)" "map_of (hs_ops s1) g3 = None"
    using s1(4) assms(5,6) ne by auto
  from authenticate_frame [OF this(1) assms(7,3) this(2), of env] s1 ne assms(6) show ?thesis
    by auto
qed

theorem late_authentication_identifies_twice_witness:
  "\<exists>s s1 s2. authenticate_deadline (sample_env (mk_credentials ''u'' ''p'')) (replicate 16 1) (replicate 16 2) success s = Some (Inr s1) \<and>
     handshake_frame (sample_env (mk_credentials ''u'' ''p'')) (replicate 16 1) (replicate 16 3) (answer Authenticated_Command) s1 = Some s2 \<and>
     map_of (hs_ops s2) (replicate 16 3) = Some (Identify_Op True True)"
proof -
  let ?s = "handshake_start\<lparr>hs_ops := [(replicate 16 1, Authenticate_Op False)]\<rparr>"
  have s: "map_of (hs_ops ?s) (replicate 16 1) = Some (Authenticate_Op False)"
      "map_of (hs_ops ?s) (replicate 16 2) = None" "map_of (hs_ops ?s) (replicate 16 3) = None"
    by simp_all
  have g: "is_guid (replicate 16 (2 :: byte))" "is_guid (replicate 16 (3 :: byte))" "replicate 16 (2 :: byte) \<noteq> replicate 16 3"
    and n: "is_named Authenticated_Command"
    by (simp_all add: is_guid_def is_named_def)
  from late_authentication_identifies_twice [OF s(1) g(1,2) s(2,3) g(3) view_answer [OF n],
      of "sample_env (mk_credentials ''u'' ''p'')"]
  show ?thesis
    by blast
qed

end
