(* ===== verification/Cluster_Discovery.thy ===== *)
theory Cluster_Discovery
  imports Cluster_Messages Handshake "HOL-Library.Multiset"
begin

text \<open>
  \<open>tcp/cluster_discovery_service.hpp\<close> and \<open>tcp/discovery_service.hpp\<close>: how the endpoint of a node is found, in a
  cluster by asking its nodes for gossip, attempt after attempt, or from a fixed address.

  What the network, the random shuffles and the library algorithms do in one attempt is the record
  \<open>discovery_io\<close>, a parameter: the DNS resolver, the steps of an HTTP exchange, the parsing of an IPv4 address,
  \<open>std::shuffle\<close> with a random generator, \<open>std::sort\<close> (which may order equal elements in any way), and the unspecified
  elements that \<open>std::remove_if\<close> leaves behind the ones it keeps.  \<open>None\<close> is undefined behaviour,
  \<open>Inl\<close> an exception of the library.

  What the connection needs of either service is the locale \<open>node_discovery\<close>: the handler is called exactly once,
  and an error is \<open>endpoint_discovery\<close>.
\<close>

section \<open>The interface\<close>

text \<open>The calls of the handler, one after the other: the endpoints \<open>connect\<close> goes on with.\<close>

fun handle_discovered :: "(error_code \<times> endpoint) list \<Rightarrow> handshake \<Rightarrow> (endpoint list \<times> handshake) option" where
  "handle_discovered [] h = Some ([], h)"
| "handle_discovered ((ec, ep) # calls) h = do {
     (target, h) \<leftarrow> endpoint_discovered ec ep h;
     (targets, h) \<leftarrow> handle_discovered calls h;
     Some ((case target of None \<Rightarrow> [] | Some e \<Rightarrow> [e]) @ targets, h) }"

locale node_discovery =
  fixes discover :: "'s \<Rightarrow> ('e + (error_code \<times> endpoint) list \<times> 's) option"
  assumes calls_once: "discover s = Some (Inr (calls, s')) \<Longrightarrow> length calls = 1"
    and error_code: "discover s = Some (Inr (calls, s')) \<Longrightarrow> (ec, ep) \<in> set calls \<Longrightarrow> failed ec \<Longrightarrow>
      ec = connection_error Endpoint_Discovery"
begin

text \<open>What \<open>connect\<close> does with the call: it goes on with one endpoint, or the user's handler is called once
  with \<open>endpoint_discovery\<close>.\<close>

lemma discovered_cases:
  assumes "discover s = Some (Inr (calls, s'))"
  obtains ec ep where "calls = [(ec, ep)]" "\<not> failed ec"
  | ep where "calls = [(connection_error Endpoint_Discovery, ep)]"
proof -
  obtain ec ep where c: "calls = [(ec, ep)]"
    using calls_once [OF assms] by (cases calls) (auto simp: length_Suc_conv)
  show thesis
  proof (cases "failed ec")
    case True
    then show thesis
      using that(2) c error_code [OF assms, of ec ep] by simp
  next
    case False
    then show thesis
      using that(1) c by simp
  qed
qed

lemma connect_goes_on_or_ends:
  assumes "discover s = Some (Inr (calls, s'))"
  shows "(\<exists>ep. handle_discovered calls h = Some ([ep], h)) \<or>
    handle_discovered calls h = Some ([], h\<lparr>hs_completions := hs_completions h @
       [(False, connection_error Endpoint_Discovery, None)]\<rparr>)"
  using assms
proof (cases rule: discovered_cases)
  case (1 ec ep)
  then show ?thesis
    by (simp add: endpoint_discovered_def)
next
  case (2 ep)
  have "failed (connection_error Endpoint_Discovery)"
    by (simp add: failed_def connection_error_def)
  with 2 show ?thesis
    by (simp add: endpoint_discovered_def connect_completed_def)
qed

end

section \<open>A fixed address\<close>

record discovery_service =
  dv_endpoint :: endpoint
  dv_secure_endpoint :: endpoint
  dv_ssl :: bool

definition fixed_discover ::
  "discovery_service \<Rightarrow> (unit + (error_code \<times> endpoint) list \<times> discovery_service) option"
where
  "fixed_discover s = Some (Inr ([(success, if dv_ssl s then dv_secure_endpoint s else dv_endpoint s)], s))"

interpretation fixed_node: node_discovery fixed_discover
  by unfold_locales (auto simp: fixed_discover_def)

section \<open>The environment of an attempt\<close>

record 'e gossip_exchange =
  gx_connect :: error_code
  gx_write :: error_code
  gx_read :: error_code
  gx_shutdown :: error_code
  gx_status_ok :: bool
  gx_members :: "'e + 'e json_access list"

record 'e discovery_io =
  dio_resolve :: "string \<Rightarrow> endpoint list option"
  dio_exchange :: "gossip_seed \<Rightarrow> 'e gossip_exchange"
  dio_address :: "string \<Rightarrow> 'e + string"
  dio_guid :: "string \<Rightarrow> 'e + guid"
  dio_fresh_member :: member_info
  dio_shuffle_seeds :: "gossip_seed list \<Rightarrow> gossip_seed list"
  dio_shuffle_members :: "member_info list \<Rightarrow> member_info list"
  dio_sort :: "member_info list \<Rightarrow> member_info list"
  dio_leftover :: "member_info list \<Rightarrow> member_info list"

text \<open>Beast's \<open>not_connected\<close>, which a shutdown may give.\<close>

definition not_connected :: error_code where
  "not_connected = Error_Code 107 System_Category"

text \<open>\<open>tcp::endpoint(make_address_v4(ip), port)\<close>: the port is narrowed to 16 bits.\<close>

definition endpoint_of :: "'e discovery_io \<Rightarrow> string \<Rightarrow> int \<Rightarrow> 'e + endpoint" where
  "endpoint_of io ip port = (case dio_address io ip of Inl e \<Rightarrow> Inl e | Inr a \<Rightarrow> Inr (a, port mod 2 ^ 16))"

section \<open>Candidates\<close>

definition get_dns_candidates :: "'e discovery_io \<Rightarrow> cluster_settings \<Rightarrow> gossip_seed list" where
  "get_dns_candidates io s =
    (if cl_gossip_seeds s \<noteq> [] then dio_shuffle_seeds io (cl_gossip_seeds s)
     else (case dio_resolve io (cl_cluster_dns s) of
       None \<Rightarrow> []
     | Some endpoints \<Rightarrow> dio_shuffle_seeds io (map seed_of_endpoint endpoints)))"

text \<open>The loop of \<open>arrange_gossip_candidates\<close> over the buffer: managers are placed from the back, all others
  from the front.\<close>

fun place_candidates ::
  "'e discovery_io \<Rightarrow> member_info list \<Rightarrow> int \<Rightarrow> int \<Rightarrow> gossip_seed option list \<Rightarrow>
     'e + int \<times> int \<times> gossip_seed option list"
where
  "place_candidates io [] i j buffer = Inr (i, j, buffer)"
| "place_candidates io (m # ms) i j buffer =
    (case endpoint_of io (mi_external_http_ip m) (mi_external_http_port m) of
       Inl e \<Rightarrow> Inl e
     | Inr ep \<Rightarrow>
         if mi_state m = VS_Manager
         then place_candidates io ms i (j - 1) (buffer[nat (j - 1) := Some (seed_of_endpoint ep)])
         else place_candidates io ms (i + 1) j (buffer[nat (i + 1) := Some (seed_of_endpoint ep)]))"

text \<open>\<open>std::copy\<close> to the beginning of a vector: the vector must have room.\<close>

definition copy_to :: "'a list \<Rightarrow> 'a list \<Rightarrow> 'a list option" where
  "copy_to vec src = (if length src \<le> length vec then Some (src @ drop (length src) vec) else None)"

text \<open>\<open>std::shuffle\<close> of the elements from \<open>i\<close> up to \<open>j\<close>.\<close>

definition shuffle_range :: "('a list \<Rightarrow> 'a list) \<Rightarrow> int \<Rightarrow> int \<Rightarrow> 'a list \<Rightarrow> 'a list option" where
  "shuffle_range sh i j xs =
    (if 0 \<le> i \<and> i \<le> j \<and> j \<le> int (length xs)
     then Some (take (nat i) xs @ sh (take (nat j - nat i) (drop (nat i) xs)) @ drop (nat j) xs) else None)"

definition arrange_gossip_candidates ::
  "'e discovery_io \<Rightarrow> member_info list \<Rightarrow> ('e + gossip_seed list) option"
where
  "arrange_gossip_candidates io members =
    (case place_candidates io members (- 1) (int (length members)) (replicate (length members) None) of
       Inl e \<Rightarrow> Some (Inl e)
     | Inr (i, j, buffer) \<Rightarrow> do {
         ptr \<leftarrow> those buffer;
         result \<leftarrow> copy_to [] ptr;
         result \<leftarrow> shuffle_range (dio_shuffle_seeds io) 0 i result;
         result \<leftarrow> shuffle_range (dio_shuffle_seeds io) j (int (length result)) result;
         Some (Inr result) })"

section \<open>Gossip\<close>

definition try_get_gossip_from :: "'e discovery_io \<Rightarrow> gossip_seed \<Rightarrow> 'e + cluster_info option" where
  "try_get_gossip_from io seed =
    (let x = dio_exchange io seed in
     if failed (gx_connect x) then Inr None
     else if failed (gx_write x) then Inr None
     else if failed (gx_read x) then Inr None
     else if failed (gx_shutdown x) \<and> gx_shutdown x \<noteq> not_connected then Inr None
     else if \<not> gx_status_ok x then Inr None
     else (case cluster_from_json (dio_guid io) (dio_fresh_member io) (gx_members x) of
       Inl e \<Rightarrow> Inl e | Inr info \<Rightarrow> Inr (Some info)))"

definition unallowed_states :: "virtual_node_state list" where
  "unallowed_states = [VS_Manager, VS_Shutting_Down, VS_Shutdown]"

definition rejected :: "member_info \<Rightarrow> bool" where
  "rejected info \<longleftrightarrow> \<not> mi_is_alive info \<or> mi_state info \<in> set unallowed_states"

text \<open>\<open>remove_if\<close>, and \<open>erase\<close> of the one element at the iterator it returns.\<close>

definition remove_rejected :: "'e discovery_io \<Rightarrow> member_info list \<Rightarrow> member_info list" where
  "remove_rejected io members =
    (let kept = filter (\<lambda>m. \<not> rejected m) members; rest = dio_leftover io members
     in if rest \<noteq> [] then kept @ tl rest else kept)"

definition prefer_nodes :: "'e discovery_io \<Rightarrow> node_preference \<Rightarrow> member_info list \<Rightarrow> member_info list" where
  "prefer_nodes io preference nodes =
    (if preference = Random then dio_shuffle_members io nodes
     else if preference = Slave
     then (let nodes = filter (\<lambda>m. mi_state m \<noteq> VS_Slave) nodes @ filter (\<lambda>m. \<not> mi_state m \<noteq> VS_Slave) nodes;
               slaves = length (filter (\<lambda>m. mi_state m = VS_Slave) nodes)
           in dio_shuffle_members io (take slaves nodes) @ drop slaves nodes)
     else nodes)"

definition node_endpoints :: "'e discovery_io \<Rightarrow> member_info \<Rightarrow> 'e + endpoint \<times> endpoint" where
  "node_endpoints io best_node =
    (case endpoint_of io (mi_external_tcp_ip best_node) (mi_external_tcp_port best_node) of
       Inl e \<Rightarrow> Inl e
     | Inr ep \<Rightarrow> (case endpoint_of io (mi_external_tcp_ip best_node) (mi_external_secure_tcp_port best_node) of
         Inl e \<Rightarrow> Inl e | Inr ep' \<Rightarrow> Inr (ep, ep')))"

definition try_determine_best_node ::
  "'e discovery_io \<Rightarrow> cluster_settings \<Rightarrow> member_info list \<Rightarrow> ('e + (endpoint \<times> endpoint) option) option"
where
  "try_determine_best_node io s members = do {
     preference \<leftarrow> cl_node_preference s;
     let nodes = prefer_nodes io preference (dio_sort io (remove_rejected io members));
     case nodes of
       [] \<Rightarrow> None
     | best_node # _ \<Rightarrow>
         if member_info_eq best_node member_info_null then Some (Inr None)
         else (case node_endpoints io best_node of Inl e \<Rightarrow> Some (Inl e) | Inr eps \<Rightarrow> Some (Inr (Some eps))) }"

section \<open>Attempts\<close>

text \<open>The loop over the candidates, with the gossip to remember.\<close>

fun try_candidates ::
  "'e discovery_io \<Rightarrow> cluster_settings \<Rightarrow> gossip_seed list \<Rightarrow> member_info list \<Rightarrow>
     ('e + (endpoint \<times> endpoint) option \<times> member_info list) option"
where
  "try_candidates io s [] old = Some (Inr (None, old))"
| "try_candidates io s (c # cs) old =
    (case try_get_gossip_from io c of
       Inl e \<Rightarrow> Some (Inl e)
     | Inr None \<Rightarrow> try_candidates io s cs old
     | Inr (Some gossip) \<Rightarrow>
         if ci_members gossip = [] then try_candidates io s cs old
         else do {
           r \<leftarrow> try_determine_best_node io s (ci_members gossip);
           case r of
             Inl e \<Rightarrow> Some (Inl e)
           | Inr None \<Rightarrow> try_candidates io s cs old
           | Inr (Some best_node) \<Rightarrow> Some (Inr (Some best_node, ci_members gossip)) })"

definition discover_endpoints ::
  "'e discovery_io \<Rightarrow> cluster_settings \<Rightarrow> member_info list \<Rightarrow>
     ('e + (endpoint \<times> endpoint) option \<times> member_info list) option"
where
  "discover_endpoints io s old = do {
     r \<leftarrow> (if old = [] then Some (Inr (get_dns_candidates io s)) else arrange_gossip_candidates io old);
     case r of Inl e \<Rightarrow> Some (Inl e) | Inr candidates \<Rightarrow> try_candidates io s candidates old }"

text \<open>\<open>do_discover_node_endpoints\<close>: the value returned, the calls of the handler, the remembered gossip.\<close>

definition do_discover_node_endpoints ::
  "'e discovery_io \<Rightarrow> cluster_settings \<Rightarrow> int \<Rightarrow> member_info list \<Rightarrow>
     ('e + bool \<times> (error_code \<times> endpoint) list \<times> member_info list) option"
where
  "do_discover_node_endpoints io s attempt old = do {
     max_attempts \<leftarrow> cl_max_discover_attempts s;
     if attempt \<le> max_attempts
     then do {
       r \<leftarrow> discover_endpoints io s old;
       case r of
         Inl e \<Rightarrow> Some (Inl e)
       | Inr (Some endpoints, old) \<Rightarrow> Some (Inr (True, [(success, fst endpoints)], old))
       | Inr (None, old) \<Rightarrow> Some (Inr (False, [], old)) }
     else Some (Inr (True, [(connection_error Endpoint_Discovery, ([], 0))], old)) }"

text \<open>Another attempt is made only while attempts are left.\<close>

lemma do_discover_again:
  assumes "do_discover_node_endpoints io s attempt old = Some (Inr (False, calls, old'))"
  shows "attempt \<le> the (cl_max_discover_attempts s) \<and> calls = []"
  using assms
  by (auto simp: do_discover_node_endpoints_def
      split: if_splits Option.bind_splits option.splits sum.splits prod.splits)

text \<open>\<open>perform_discovery\<close>: the posted task, and after 500 ms the next attempt.  \<open>env\<close> is the environment of
  each attempt.\<close>

function perform_discovery ::
  "(int \<Rightarrow> 'e discovery_io) \<Rightarrow> cluster_settings \<Rightarrow> int \<Rightarrow> member_info list \<Rightarrow>
     ('e + (error_code \<times> endpoint) list \<times> member_info list) option"
where
  "perform_discovery env s attempt old = do {
     r \<leftarrow> do_discover_node_endpoints (env attempt) s attempt old;
     case r of
       Inl e \<Rightarrow> Some (Inl e)
     | Inr (returned, calls, old') \<Rightarrow>
         if returned then Some (Inr (calls, old'))
         else do {
           r' \<leftarrow> perform_discovery env s (attempt + 1) old';
           Some (case r' of Inl e \<Rightarrow> Inl e | Inr (calls', old'') \<Rightarrow> Inr (calls @ calls', old'')) } }"
  by pat_completeness auto

termination
  by (relation "measure (\<lambda>(env, s, attempt, old). nat (the (cl_max_discover_attempts s) + 1 - attempt))")
     (auto dest!: do_discover_again)

declare perform_discovery.simps [simp del]

text \<open>\<open>async_discover_node_endpoints\<close> of the cluster: from the first attempt.\<close>

definition cluster_discover ::
  "(int \<Rightarrow> 'e discovery_io) \<Rightarrow> cluster_settings \<Rightarrow> member_info list \<Rightarrow>
     ('e + (error_code \<times> endpoint) list \<times> member_info list) option"
where
  "cluster_discover env s old = perform_discovery env s 1 old"

lemma do_discover_calls:
  assumes "do_discover_node_endpoints io s attempt old = Some (Inr (returned, calls, old'))"
  shows "length calls = (if returned then 1 else 0)"
    and "(ec, ep) \<in> set calls \<Longrightarrow> failed ec \<Longrightarrow> ec = connection_error Endpoint_Discovery"
  using assms
  by (auto simp: do_discover_node_endpoints_def success_def failed_def
      split: if_splits Option.bind_splits option.splits sum.splits prod.splits)

lemma perform_discovery_calls:
  "perform_discovery env s attempt old = Some (Inr (calls, old')) \<Longrightarrow>
     length calls = 1 \<and> (\<forall>(ec, ep) \<in> set calls. failed ec \<longrightarrow> ec = connection_error Endpoint_Discovery)"
proof (induction env s attempt old arbitrary: calls old' rule: perform_discovery.induct)
  case (1 env s attempt old)
  obtain returned calls1 old1 where d: "do_discover_node_endpoints (env attempt) s attempt old = Some (Inr (returned, calls1, old1))"
    using "1.prems" by (subst (asm) perform_discovery.simps) (auto split: Option.bind_splits sum.splits)
  show ?case
  proof (cases returned)
    case True
    then have "calls = calls1"
      using "1.prems" d by (subst (asm) perform_discovery.simps) simp
    then show ?thesis
      using do_discover_calls [OF d] True by auto
  next
    case False
    then obtain calls2 old2 where r: "perform_discovery env s (attempt + 1) old1 = Some (Inr (calls2, old2))"
      and "calls = calls1 @ calls2"
      using "1.prems" d by (subst (asm) perform_discovery.simps) (auto split: Option.bind_splits sum.splits)
    moreover have "calls1 = []"
      using do_discover_calls(1) [OF d] False by simp
    ultimately show ?thesis
      using "1.IH" [OF d refl refl refl False r] by simp
  qed
qed

interpretation cluster_node: node_discovery "cluster_discover env s" for env s
  by unfold_locales (auto simp: cluster_discover_def dest!: perform_discovery_calls)

section \<open>Lemmas\<close>

text \<open>The documented behaviour of the algorithms of the standard library.\<close>

definition lawful_io :: "'e discovery_io \<Rightarrow> bool" where
  "lawful_io io \<longleftrightarrow> (\<forall>xs. mset (dio_shuffle_members io xs) = mset xs) \<and>
     (\<forall>xs. mset (dio_sort io xs) = mset xs \<and>
        sorted_wrt (\<lambda>a b. vns_value (mi_state b) \<le> vns_value (mi_state a)) (dio_sort io xs)) \<and>
     (\<forall>xs. length (dio_leftover io xs) = length (filter rejected xs))"

lemma shuffle_set: "lawful_io io \<Longrightarrow> set (dio_shuffle_members io xs) = set xs"
  and shuffle_length: "lawful_io io \<Longrightarrow> length (dio_shuffle_members io xs) = length xs"
  and sort_set: "lawful_io io \<Longrightarrow> set (dio_sort io xs) = set xs"
  and sort_length: "lawful_io io \<Longrightarrow> length (dio_sort io xs) = length xs"
  unfolding lawful_io_def by (metis mset_eq_setD, metis size_mset, metis mset_eq_setD, metis size_mset)

lemma sort_hd:
  assumes "lawful_io io" and "xs \<noteq> []" and "m \<in> set xs"
  shows "vns_value (mi_state m) \<le> vns_value (mi_state (hd (dio_sort io xs)))"
proof -
  have "dio_sort io xs \<noteq> []"
    using sort_length [OF assms(1), of xs] assms(2) by auto
  moreover have "m \<in> set (dio_sort io xs)"
    using sort_set [OF assms(1)] assms(3) by simp
  moreover have "sorted_wrt (\<lambda>a b. vns_value (mi_state b) \<le> vns_value (mi_state a)) (dio_sort io xs)"
    using assms(1) by (simp add: lawful_io_def)
  ultimately show ?thesis
    by (cases "dio_sort io xs") auto
qed

lemma remove_rejected_one:
  assumes "lawful_io io" and "length (filter rejected ms) \<le> 1"
  shows "remove_rejected io ms = filter (\<lambda>m. \<not> rejected m) ms"
proof -
  have "length (dio_leftover io ms) \<le> 1"
    using assms by (simp add: lawful_io_def)
  then show ?thesis
    by (cases "dio_leftover io ms") (auto simp: remove_rejected_def)
qed

lemma prefer_nodes_set:
  assumes "lawful_io io"
  shows "set (prefer_nodes io p nodes) = set nodes"
proof -
  have part: "set (dio_shuffle_members io (take k xs) @ drop k xs) = set xs" for k xs
    using shuffle_set [OF assms, of "take k xs"] set_append [of "take k xs" "drop k xs"] by simp
  show ?thesis
  proof (cases p)
    case Slave
    let ?nodes = "filter (\<lambda>m. mi_state m \<noteq> VS_Slave) nodes @ filter (\<lambda>m. \<not> mi_state m \<noteq> VS_Slave) nodes"
    obtain k where "prefer_nodes io Slave nodes = dio_shuffle_members io (take k ?nodes) @ drop k ?nodes"
      by (simp only: prefer_nodes_def Let_def node_preference.simps simp_thms if_False if_True)
    then have "set (prefer_nodes io Slave nodes) = set ?nodes"
      by (simp only: part)
    then show ?thesis
      using Slave by auto
  qed (simp_all add: prefer_nodes_def shuffle_set [OF assms])
qed

lemma prefer_slave_hd:
  assumes "lawful_io io" and "nodes \<noteq> []"
    and "length (filter (\<lambda>m. mi_state m = VS_Slave) nodes) \<le> length (filter (\<lambda>m. mi_state m \<noteq> VS_Slave) nodes)"
  shows "mi_state (hd (prefer_nodes io Slave nodes)) \<noteq> VS_Slave"
proof -
  define others where "others = filter (\<lambda>m. mi_state m \<noteq> VS_Slave) nodes"
  define slaves where "slaves = filter (\<lambda>m. mi_state m = VS_Slave) nodes"
  have count: "length (filter (\<lambda>m. mi_state m = VS_Slave) (others @ slaves)) = length slaves"
    by (simp add: others_def slaves_def)
  have le: "length slaves \<le> length others"
    using assms(3) by (simp add: others_def slaves_def)
  have "nodes = [] \<longleftrightarrow> others = [] \<and> slaves = []"
    by (cases nodes) (auto simp: others_def slaves_def)
  then have ne: "others \<noteq> []"
    using assms(2) le by auto
  have p: "prefer_nodes io Slave nodes =
      dio_shuffle_members io (take (length slaves) others) @ drop (length slaves) others @ slaves"
    using count le by (simp add: prefer_nodes_def Let_def others_def slaves_def)
  have "set (dio_shuffle_members io (take (length slaves) others) @ drop (length slaves) others) = set others"
    using shuffle_set [OF assms(1), of "take (length slaves) others"] set_append [of "take (length slaves) others" "drop (length slaves) others"]
    by simp
  moreover from this ne have "dio_shuffle_members io (take (length slaves) others) @ drop (length slaves) others \<noteq> []"
    by (metis set_empty)
  ultimately have "hd (prefer_nodes io Slave nodes) \<in> set others"
    unfolding p append_assoc [symmetric] by (metis hd_append2 hd_in_set)
  then show ?thesis
    by (simp add: others_def)
qed

text \<open>The choice from the nodes that are left.\<close>

lemma try_determine_best_node_eq:
  assumes "lawful_io io" and "cl_node_preference s = Some p" and "remove_rejected io ms \<noteq> []"
  defines "best \<equiv> hd (prefer_nodes io p (dio_sort io (remove_rejected io ms)))"
  shows "best \<in> set (remove_rejected io ms)"
    and "best \<noteq> member_info_null \<Longrightarrow> try_determine_best_node io s ms =
      (case node_endpoints io best of Inl e \<Rightarrow> Some (Inl e) | Inr eps \<Rightarrow> Some (Inr (Some eps)))"
proof -
  let ?nodes = "prefer_nodes io p (dio_sort io (remove_rejected io ms))"
  have set: "set ?nodes = set (remove_rejected io ms)"
    using prefer_nodes_set [OF assms(1)] sort_set [OF assms(1)] by simp
  then have ne: "?nodes \<noteq> []"
    using assms(3) by (metis set_empty)
  then show "best \<in> set (remove_rejected io ms)"
    using set hd_in_set unfolding best_def by metis
  show "try_determine_best_node io s ms =
      (case node_endpoints io best of Inl e \<Rightarrow> Some (Inl e) | Inr eps \<Rightarrow> Some (Inr (Some eps)))"
    if "best \<noteq> member_info_null"
    using that ne assms(2) unfolding best_def
    by (cases ?nodes) (simp_all add: try_determine_best_node_def member_info_eq_iff)
qed

lemma null_rejected: "rejected member_info_null"
  by (simp add: rejected_def member_info_null_def)

lemma try_candidates_old:
  "try_candidates io s cs old = Some (Inr (None, old')) \<Longrightarrow> old' = old"
  by (induction cs) (auto split: sum.splits option.splits if_splits Option.bind_splits)

lemma try_candidates_gossip:
  "try_candidates io s cs old = Some (Inr (Some eps, old')) \<Longrightarrow> old' \<noteq> []"
  by (induction cs) (auto split: sum.splits option.splits if_splits Option.bind_splits)

lemma discover_endpoints_old:
  "discover_endpoints io s old = Some (Inr (None, old')) \<Longrightarrow> old' = old"
  "discover_endpoints io s old = Some (Inr (Some eps, old')) \<Longrightarrow> old' \<noteq> []"
  by (auto simp: discover_endpoints_def dest: try_candidates_old try_candidates_gossip
      split: Option.bind_splits sum.splits)

lemma place_candidates_length:
  "place_candidates io ms i j buffer = Inr (i', j', buffer') \<Longrightarrow> length buffer' = length buffer"
  by (induction io ms i j buffer rule: place_candidates.induct) (auto split: sum.splits if_splits)

lemma those_length: "those xs = Some ys \<Longrightarrow> length ys = length xs"
  by (induction xs arbitrary: ys) (auto split: option.splits)

text \<open>Arranging candidates copies them into a vector without room.\<close>

lemma arrange_never_returns:
  assumes "members \<noteq> []"
  shows "arrange_gossip_candidates io members = None \<or> (\<exists>e. arrange_gossip_candidates io members = Some (Inl e))"
  using assms
  by (auto simp: arrange_gossip_candidates_def copy_to_def
      dest!: place_candidates_length those_length split: sum.splits Option.bind_splits)

lemma discover_again:
  assumes "old \<noteq> []"
  shows "discover_endpoints io s old = None \<or> (\<exists>e. discover_endpoints io s old = Some (Inl e))"
  using arrange_never_returns [OF assms, of io] assms by (auto simp: discover_endpoints_def)

section \<open>Properties\<close>

text \<open>C30: the node that is chosen.  When at most one member of the gossip is dead or in an unallowed state, the
  endpoints are those of a member that is alive and allowed; with the master preference no such member
  has a higher state, so that a living master is found when there is one.  When no member is left, the first
  element of an empty vector is read.  With two or more rejected members only one is erased: if all are
  rejected and the library leaves the elements in their places, a rejected member is chosen.\<close>

theorem best_node_chosen:
  assumes "lawful_io io" and "cl_node_preference s = Some p"
  shows "(length (filter rejected ms) \<le> 1 \<and> (\<exists>m \<in> set ms. \<not> rejected m) \<longrightarrow>
      (\<exists>best \<in> set ms. \<not> rejected best \<and>
        try_determine_best_node io s ms =
          (case node_endpoints io best of Inl e \<Rightarrow> Some (Inl e) | Inr eps \<Rightarrow> Some (Inr (Some eps))) \<and>
        (p = Master \<longrightarrow> (\<forall>m \<in> set ms. \<not> rejected m \<longrightarrow> vns_value (mi_state m) \<le> vns_value (mi_state best))))) \<and>
    (length ms = 1 \<and> (\<forall>m \<in> set ms. rejected m) \<longrightarrow> try_determine_best_node io s ms = None) \<and>
    (2 \<le> length ms \<and> (\<forall>m \<in> set ms. rejected m \<and> m \<noteq> member_info_null) \<and> dio_leftover io ms = ms \<longrightarrow>
      (\<exists>best \<in> set ms. rejected best \<and> try_determine_best_node io s ms =
          (case node_endpoints io best of Inl e \<Rightarrow> Some (Inl e) | Inr eps \<Rightarrow> Some (Inr (Some eps)))))"
proof (intro conjI impI; elim conjE)
  let ?kept = "filter (\<lambda>m. \<not> rejected m) ms"
  assume "length (filter rejected ms) \<le> 1" and "\<exists>m \<in> set ms. \<not> rejected m"
  then have r: "remove_rejected io ms = ?kept" "?kept \<noteq> []"
    using remove_rejected_one [OF assms(1)] by (auto simp: filter_empty_conv)
  define best where "best = hd (prefer_nodes io p (dio_sort io ?kept))"
  note best = try_determine_best_node_eq [OF assms, of ms, unfolded r(1), OF r(2), folded best_def]
  have max: "vns_value (mi_state m) \<le> vns_value (mi_state best)" if "p = Master" "m \<in> set ms" "\<not> rejected m" for m
    using sort_hd [OF assms(1) r(2), of m] that by (simp add: best_def prefer_nodes_def)
  have b: "best \<in> set ms" "\<not> rejected best"
    using best(1) by auto
  moreover from b(2) have "best \<noteq> member_info_null"
    using null_rejected by auto
  ultimately show "\<exists>best \<in> set ms. \<not> rejected best \<and>
        try_determine_best_node io s ms =
          (case node_endpoints io best of Inl e \<Rightarrow> Some (Inl e) | Inr eps \<Rightarrow> Some (Inr (Some eps))) \<and>
        (p = Master \<longrightarrow> (\<forall>m \<in> set ms. \<not> rejected m \<longrightarrow> vns_value (mi_state m) \<le> vns_value (mi_state best)))"
    using best(2) max by blast
next
  assume "length ms = 1" and "\<forall>m \<in> set ms. rejected m"
  then have "remove_rejected io ms = []"
    by (subst remove_rejected_one [OF assms(1)]) (auto simp: filter_empty_conv intro: order_trans [OF length_filter_le])
  then have "set (prefer_nodes io p (dio_sort io (remove_rejected io ms))) = {}"
    using prefer_nodes_set [OF assms(1)] sort_set [OF assms(1)] by simp
  then show "try_determine_best_node io s ms = None"
    using assms(2) by (simp add: try_determine_best_node_def)
next
  assume a: "2 \<le> length ms" "\<forall>m \<in> set ms. rejected m \<and> m \<noteq> member_info_null" "dio_leftover io ms = ms"
  have "filter (\<lambda>m. \<not> rejected m) ms = []"
    using a(2) by (simp add: filter_empty_conv)
  then have r: "remove_rejected io ms = tl ms"
    using a(1,3) by (cases ms) (simp_all add: remove_rejected_def)
  have ne: "tl ms \<noteq> []"
    using a(1) by (cases ms) auto
  define best where "best = hd (prefer_nodes io p (dio_sort io (tl ms)))"
  note best = try_determine_best_node_eq [OF assms, of ms, unfolded r, OF ne, folded best_def]
  have "best \<in> set ms"
    using best(1) by (cases ms) auto
  then show "\<exists>best \<in> set ms. rejected best \<and> try_determine_best_node io s ms =
          (case node_endpoints io best of Inl e \<Rightarrow> Some (Inl e) | Inr eps \<Rightarrow> Some (Inr (Some eps)))"
    using best(2) a(2) by blast
qed

text \<open>An environment in which everything works: sorting is the library's stable sort, shuffling does nothing, and every
  seed answers with the same gossip.\<close>

definition sample_io :: "member_info list \<Rightarrow> unit discovery_io" where
  "sample_io ms = \<lparr>dio_resolve = (\<lambda>_. None),
     dio_exchange = (\<lambda>_. \<lparr>gx_connect = success, gx_write = success, gx_read = success, gx_shutdown = success,
       gx_status_ok = True, gx_members = Inr (map (\<lambda>m. access_to (member_to_json from_bytes m)) ms)\<rparr>),
     dio_address = Inr, dio_guid = (\<lambda>s. Inr (to_bytes s)), dio_fresh_member = member_info_null,
     dio_shuffle_seeds = (\<lambda>xs. xs), dio_shuffle_members = (\<lambda>xs. xs),
     dio_sort = sort_key (\<lambda>m. - vns_value (mi_state m)), dio_leftover = filter rejected\<rparr>"

lemma sample_io_lawful: "lawful_io (sample_io ms)"
proof -
  have "sorted_wrt (\<lambda>a b. vns_value (mi_state b) \<le> vns_value (mi_state a)) (sort_key (\<lambda>m. - vns_value (mi_state m)) xs)"
    for xs :: "member_info list"
    using sorted_sort_key [of "\<lambda>m. - vns_value (mi_state m)" xs] by (simp add: sorted_map)
  then show ?thesis
    by (simp add: lawful_io_def sample_io_def)
qed

definition master_settings :: cluster_settings where
  "master_settings = cluster_settings_default\<lparr>cl_node_preference := Some Master, cl_max_discover_attempts := Some 10,
     cl_gossip_seeds := [seed_of_endpoint (''10.0.0.9'', 2113)]\<rparr>"

theorem best_node_chosen_witness:
  "\<exists>best \<in> {sample_member VS_Slave True 1, sample_member VS_Master True 2, sample_member VS_Clone False 3}.
     \<not> rejected best \<and> vns_value VS_Master \<le> vns_value (mi_state best)"
proof -
  let ?ms = "[sample_member VS_Slave True 1, sample_member VS_Master True 2, sample_member VS_Clone False 3]"
  have r: "\<not> rejected (sample_member VS_Slave True 1)" "\<not> rejected (sample_member VS_Master True 2)"
      "rejected (sample_member VS_Clone False 3)"
    by (simp_all add: rejected_def unallowed_states_def sample_member_def)
  have "length (filter rejected ?ms) \<le> 1 \<and> (\<exists>m \<in> set ?ms. \<not> rejected m)" "mi_state (sample_member VS_Master True 2) = VS_Master"
    using r by (simp_all add: sample_member_def)
  with conjunct1 [OF best_node_chosen [OF sample_io_lawful [of "[]"], of master_settings Master ?ms], THEN mp] r
  show ?thesis
    by (fastforce simp: master_settings_def)
qed

text \<open>Preferring slaves avoids them.  When a slave node is preferred, at most one member has to be
  rejected and there are not more slaves than other nodes among the rest, the node chosen is not a slave:
  the partition puts the others in front and the first is taken.\<close>

theorem slave_preference_avoids_slaves:
  assumes "lawful_io io" and "cl_node_preference s = Some Slave" and "length (filter rejected ms) \<le> 1"
    and "kept = filter (\<lambda>m. \<not> rejected m) ms" and "kept \<noteq> []"
    and "length (filter (\<lambda>m. mi_state m = VS_Slave) kept) \<le> length (filter (\<lambda>m. mi_state m \<noteq> VS_Slave) kept)"
  shows "\<exists>best \<in> set kept. mi_state best \<noteq> VS_Slave \<and> try_determine_best_node io s ms =
    (case node_endpoints io best of Inl e \<Rightarrow> Some (Inl e) | Inr eps \<Rightarrow> Some (Inr (Some eps)))"
proof -
  have r: "remove_rejected io ms = kept"
    using remove_rejected_one [OF assms(1,3)] assms(4) by simp
  define best where "best = hd (prefer_nodes io Slave (dio_sort io kept))"
  note best = try_determine_best_node_eq [OF assms(1,2), of ms, unfolded r, OF assms(5), folded best_def]
  have sort: "length (filter P (dio_sort io kept)) = length (filter P kept)" for P
    using assms(1) unfolding lawful_io_def by (metis mset_filter size_mset)
  have "dio_sort io kept \<noteq> []"
    using sort_length [OF assms(1), of kept] assms(5) by auto
  from prefer_slave_hd [OF assms(1) this] have "mi_state best \<noteq> VS_Slave"
    using assms(6) by (simp add: sort best_def)
  moreover have "best \<noteq> member_info_null"
    using best(1) null_rejected assms(4) by auto
  ultimately show ?thesis
    using best by blast
qed

theorem slave_preference_avoids_slaves_witness:
  "try_determine_best_node (sample_io []) (master_settings\<lparr>cl_node_preference := Some Slave\<rparr>)
     [sample_member VS_Slave True 1, sample_member VS_Master True 2] =
   Some (Inr (Some ((''10.0.0.1'', 2), (''10.0.0.1'', 0))))"
proof -
  let ?ms = "[sample_member VS_Slave True 1, sample_member VS_Master True 2]"
  have r: "\<not> rejected (sample_member VS_Slave True 1)" "\<not> rejected (sample_member VS_Master True 2)"
    by (simp_all add: rejected_def unallowed_states_def sample_member_def)
  have st: "mi_state (sample_member st a p) = st" for st a p
    by (simp add: sample_member_def)
  have "node_endpoints (sample_io []) (sample_member VS_Master True 2) = Inr ((''10.0.0.1'', 2), (''10.0.0.1'', 0))"
    by (simp add: node_endpoints_def endpoint_of_def sample_io_def sample_member_def member_info_null_def)
  moreover have "\<exists>best \<in> set ?ms. mi_state best \<noteq> VS_Slave \<and>
      try_determine_best_node (sample_io []) (master_settings\<lparr>cl_node_preference := Some Slave\<rparr>) ?ms =
      (case node_endpoints (sample_io []) best of Inl e \<Rightarrow> Some (Inl e) | Inr eps \<Rightarrow> Some (Inr (Some eps)))"
    by (rule slave_preference_avoids_slaves [OF sample_io_lawful]) (simp_all add: r st)
  ultimately show ?thesis
    by (auto simp: st)
qed

lemma do_discover_fails:
  assumes "cl_max_discover_attempts s = Some n" and "attempt \<le> n"
    and "discover_endpoints io s old = Some (Inr (None, old))"
  shows "do_discover_node_endpoints io s attempt old = Some (Inr (False, [], old))"
  using assms by (simp add: do_discover_node_endpoints_def)

lemma perform_discovery_skip:
  assumes "cl_max_discover_attempts s = Some n" and "a + int k \<le> n + 1"
    and "\<forall>b. a \<le> b \<and> b < a + int k \<longrightarrow> discover_endpoints (env b) s old = Some (Inr (None, old))"
  shows "perform_discovery env s a old = perform_discovery env s (a + int k) old"
  using assms(2,3)
proof (induction k arbitrary: a)
  case (Suc k)
  have "do_discover_node_endpoints (env a) s a old = Some (Inr (False, [], old))"
    using Suc.prems by (intro do_discover_fails [OF assms(1)]) auto
  then have "perform_discovery env s a old = perform_discovery env s (a + 1) old"
    by (subst perform_discovery.simps) (auto split: Option.bind_splits sum.splits)
  also have "\<dots> = perform_discovery env s (a + 1 + int k) old"
    using Suc.prems by (intro Suc.IH) auto
  finally show ?case
    by (simp add: algebra_simps)
qed simp

text \<open>C21: the attempts of a discovery.  With a limit of \<open>n\<close> attempts the handler is called exactly once: with
  the endpoint of the first attempt that finds one, which is at most the \<open>n\<close>-th; and, if no attempt
  finds one, with \<open>endpoint_discovery\<close> after the \<open>n\<close>-th.  A discovery that has succeeded remembers the gossip, and then no
  further discovery, such as that of a reconnection, ever calls its handler: the candidates it arranges are copied
  into a vector without elements.\<close>

theorem discovery_attempts:
  fixes env env' :: "int \<Rightarrow> 'e discovery_io"
  assumes "cl_max_discover_attempts s = Some n" and "0 \<le> n"
  shows "(\<forall>k. 1 \<le> k \<and> k \<le> n \<and> (\<forall>b. 1 \<le> b \<and> b < k \<longrightarrow> discover_endpoints (env b) s [] = Some (Inr (None, []))) \<and>
        discover_endpoints (env k) s [] = Some (Inr (Some eps, gossip)) \<longrightarrow>
      cluster_discover env s [] = Some (Inr ([(success, fst eps)], gossip)) \<and>
      (\<forall>calls old'. cluster_discover env' s gossip \<noteq> Some (Inr (calls, old')))) \<and>
    ((\<forall>b. 1 \<le> b \<and> b \<le> n \<longrightarrow> discover_endpoints (env b) s [] = Some (Inr (None, []))) \<longrightarrow>
      cluster_discover env s [] = Some (Inr ([(connection_error Endpoint_Discovery, ([], 0))], [])))"
proof (intro conjI allI impI; (elim conjE)?)
  fix k
  assume k: "1 \<le> k" "k \<le> n" and none: "\<forall>b. 1 \<le> b \<and> b < k \<longrightarrow> discover_endpoints (env b) s [] = Some (Inr (None, []))"
    and found: "discover_endpoints (env k) s [] = Some (Inr (Some eps, gossip))"
  have "perform_discovery env s 1 [] = perform_discovery env s (1 + int (nat (k - 1))) []"
    using k none by (intro perform_discovery_skip [OF assms(1)]) auto
  moreover have "do_discover_node_endpoints (env k) s k [] = Some (Inr (True, [(success, fst eps)], gossip))"
    using assms(1) k(2) found by (simp add: do_discover_node_endpoints_def)
  then have "perform_discovery env s k [] = Some (Inr ([(success, fst eps)], gossip))"
    by (subst perform_discovery.simps) simp
  ultimately show "cluster_discover env s [] = Some (Inr ([(success, fst eps)], gossip))"
    using k(1) by (simp add: cluster_discover_def)
  fix calls old'
  have "gossip \<noteq> []"
    using discover_endpoints_old(2) [OF found] .
  moreover have "1 \<le> n"
    using k by simp
  ultimately have "do_discover_node_endpoints (env' 1) s 1 gossip = None \<or>
      (\<exists>e. do_discover_node_endpoints (env' 1) s 1 gossip = Some (Inl e))"
    using discover_again [of gossip "env' 1" s] assms(1) by (auto simp: do_discover_node_endpoints_def)
  then show "cluster_discover env' s gossip \<noteq> Some (Inr (calls, old'))"
    unfolding cluster_discover_def by (subst perform_discovery.simps) auto
next
  assume none: "\<forall>b. 1 \<le> b \<and> b \<le> n \<longrightarrow> discover_endpoints (env b) s [] = Some (Inr (None, []))"
  have "perform_discovery env s 1 [] = perform_discovery env s (1 + int (nat n)) []"
    using assms(2) none by (intro perform_discovery_skip [OF assms(1)]) auto
  moreover have "do_discover_node_endpoints (env (n + 1)) s (n + 1) [] =
      Some (Inr (True, [(connection_error Endpoint_Discovery, ([], 0))], []))"
    using assms(1) by (simp add: do_discover_node_endpoints_def)
  then have "perform_discovery env s (n + 1) [] = Some (Inr ([(connection_error Endpoint_Discovery, ([], 0))], []))"
    by (subst perform_discovery.simps) simp
  ultimately show "cluster_discover env s [] = Some (Inr ([(connection_error Endpoint_Discovery, ([], 0))], []))"
    using assms(2) by (simp add: cluster_discover_def add.commute)
qed

text \<open>An environment in which no seed can be reached.\<close>

definition unreachable_io :: "unit discovery_io" where
  "unreachable_io = (sample_io [])\<lparr>dio_exchange := \<lambda>_. \<lparr>gx_connect = operation_aborted, gx_write = success,
     gx_read = success, gx_shutdown = success, gx_status_ok = True, gx_members = Inr []\<rparr>\<rparr>"

theorem discovery_attempts_witness:
  "cluster_discover (\<lambda>_. unreachable_io) (master_settings\<lparr>cl_max_discover_attempts := Some 3\<rparr>) [] =
     Some (Inr ([(connection_error Endpoint_Discovery, ([], 0))], []))"
proof -
  have "discover_endpoints unreachable_io (master_settings\<lparr>cl_max_discover_attempts := Some 3\<rparr>) [] = Some (Inr (None, []))"
    by (simp add: discover_endpoints_def get_dns_candidates_def master_settings_def unreachable_io_def sample_io_def
        try_get_gossip_from_def failed_def operation_aborted_def)
  then show ?thesis
    using discovery_attempts [of "master_settings\<lparr>cl_max_discover_attempts := Some 3\<rparr>" 3 "\<lambda>_. unreachable_io"] by simp
qed

text \<open>Discovery and \<open>connect\<close>.  Whichever service finds the endpoint, if its handler is called at all then \<open>connect\<close>
  either goes on with exactly one endpoint, the user not having been told anything yet, or the user's handler is
  called exactly once, with \<open>endpoint_discovery\<close>; and the service for a fixed address always goes on with
  the address for the kind of connection it was set up for.\<close>

theorem discovery_then_connect:
  "(cluster_discover env s old = Some (Inr (calls, old')) \<longrightarrow>
      (\<exists>ep. handle_discovered calls h = Some ([ep], h)) \<or>
      handle_discovered calls h = Some ([], h\<lparr>hs_completions := hs_completions h @
         [(False, connection_error Endpoint_Discovery, None)]\<rparr>)) \<and>
   (\<exists>calls'. fixed_discover d = Some (Inr (calls', d)) \<and>
      handle_discovered calls' h = Some ([if dv_ssl d then dv_secure_endpoint d else dv_endpoint d], h))"
proof (intro conjI impI)
  assume "cluster_discover env s old = Some (Inr (calls, old'))"
  then show "(\<exists>ep. handle_discovered calls h = Some ([ep], h)) \<or>
      handle_discovered calls h = Some ([], h\<lparr>hs_completions := hs_completions h @
         [(False, connection_error Endpoint_Discovery, None)]\<rparr>)"
    by (rule cluster_node.connect_goes_on_or_ends)
qed (simp add: fixed_discover_def endpoint_discovered_def success_def failed_def)

theorem discovery_then_connect_witness:
  "handle_discovered [(connection_error Endpoint_Discovery, ([], 0))] handshake_start =
     Some ([], handshake_start\<lparr>hs_completions := [(False, connection_error Endpoint_Discovery, None)]\<rparr>)"
proof -
  let ?s = "master_settings\<lparr>cl_max_discover_attempts := Some 0\<rparr>"
  have f: "failed (connection_error Endpoint_Discovery)"
    by (simp add: failed_def connection_error_def)
  have "cluster_discover (\<lambda>_. unreachable_io) ?s [] = Some (Inr ([(connection_error Endpoint_Discovery, ([], 0))], []))"
    unfolding cluster_discover_def by (subst perform_discovery.simps) (simp add: do_discover_node_endpoints_def)
  from conjunct1 [OF discovery_then_connect, THEN mp, OF this, of handshake_start] show ?thesis
    by (auto simp: endpoint_discovered_def connect_completed_def f handshake_start_def split: option.splits)
qed

end
