(* ===== verification/Handshake_Runs.thy ===== *)
theory Handshake_Runs
  imports Handshake
begin

text \<open>
  Connecting when anything may happen: frames in any order and with any correlation id, deadlines that
  expire, are cancelled or fail at any moment.  A run is the list of these events and the state they
  lead to; it ends where a handler's exception leaves the io context.  The theorem is an agreement
  property over the events of a run: what the user's handler is told did happen.
\<close>

section \<open>Runs\<close>

text \<open>The id next to the one an event is for is that of the identification it may start.\<close>

datatype handshake_event =
  Tcp_Completed guid error_code
| Frame_Received guid guid tcp_package_view
| Authentication_Deadline guid guid error_code
| Identification_Deadline nat error_code

text \<open>The request for authentication, whose deadline runs, is sent once the connection stands.\<close>

definition authentication_requested :: "connect_env \<Rightarrow> handshake_event list \<Rightarrow> guid \<Rightarrow> bool" where
  "authentication_requested env es k \<longleftrightarrow> \<not> credentials_null (cs_default_user_credentials (env_settings env)) \<and>
     (\<exists>ec. Tcp_Completed k ec \<in> set es \<and> \<not> failed ec)"

inductive handshake_run :: "connect_env \<Rightarrow> handshake_event list \<Rightarrow> handshake \<Rightarrow> bool" for env where
  start: "handshake_run env [] handshake_start"
| tcp: "tcp_connected env g hb ec handshake_start = Some s \<Longrightarrow> handshake_run env [Tcp_Completed g ec] s"
| frame: "handshake_run env es s \<Longrightarrow> handshake_frame env k g v s = Some s' \<Longrightarrow>
    handshake_run env (es @ [Frame_Received k g v]) s'"
| authentication: "handshake_run env es s \<Longrightarrow> authentication_requested env es k \<Longrightarrow>
    authenticate_deadline env k g ec s = Some (Inr s') \<Longrightarrow>
    handshake_run env (es @ [Authentication_Deadline k g ec]) s'"
| identification: "handshake_run env es s \<Longrightarrow> i < length (hs_identify s) \<Longrightarrow>
    identify_deadline env i ec s = Some (Inr s') \<Longrightarrow>
    handshake_run env (es @ [Identification_Deadline i ec]) s'"

section \<open>The invariant\<close>

text \<open>The server has confirmed the credentials, in answer to the request for authentication.\<close>

definition confirmed :: "connect_env \<Rightarrow> handshake_event list \<Rightarrow> bool" where
  "confirmed env es \<longleftrightarrow> (\<exists>k g v. authentication_requested env es k \<and> Frame_Received k g v \<in> set es \<and>
     view_command v = Some Authenticated_Command)"

text \<open>An identification with this id was sent, an authenticated one only after the confirmation.\<close>

definition identification_sent :: "connect_env \<Rightarrow> handshake_event list \<Rightarrow> handshake \<Rightarrow> bool \<Rightarrow> guid \<Rightarrow> bool" where
  "identification_sent env es s a k \<longleftrightarrow> (\<exists>p \<in> set (hs_sent s). identify_package env a k = Some p) \<and>
     (a \<longrightarrow> confirmed env es)"

text \<open>What the handler may be told.\<close>

definition told_truly ::
  "connect_env \<Rightarrow> handshake_event list \<Rightarrow> handshake \<Rightarrow> error_code \<Rightarrow> connection_result option \<Rightarrow> bool"
where
  "told_truly env es s ec r =
    (case r of
       None \<Rightarrow> failed ec \<and> ec \<noteq> connection_error Authentication_Failed
     | Some r \<Rightarrow> (\<exists>a g v. identification_sent env es s a (connection_id r) \<and>
         Frame_Received (connection_id r) g v \<in> set es \<and> view_command v = Some Client_Identified_Command \<and>
         ec = (if a then success else connection_error Authentication_Failed)))"

definition op_justified :: "connect_env \<Rightarrow> handshake_event list \<Rightarrow> handshake \<Rightarrow> guid \<Rightarrow> handshake_op \<Rightarrow> bool" where
  "op_justified env es s k op =
    (case op of
       Authenticate_Op _ \<Rightarrow> authentication_requested env es k
     | Identify_Op a _ \<Rightarrow> identification_sent env es s a k)"

definition handshake_inv :: "connect_env \<Rightarrow> handshake_event list \<Rightarrow> handshake \<Rightarrow> bool" where
  "handshake_inv env es s \<longleftrightarrow>
     (\<forall>io \<in> set (hs_identify s). identification_sent env es s (io_authenticated io) (io_correlation_id io)) \<and>
     (\<forall>(k, op) \<in> set (hs_ops s). op_justified env es s k op) \<and>
     (\<forall>(m, ec, r) \<in> set (hs_completions s). told_truly env es s ec r)"

lemma authentication_requested_mono:
  "authentication_requested env es k \<Longrightarrow> set es \<subseteq> set es' \<Longrightarrow> authentication_requested env es' k"
  by (auto simp: authentication_requested_def)

lemma confirmed_mono: "confirmed env es \<Longrightarrow> set es \<subseteq> set es' \<Longrightarrow> confirmed env es'"
  unfolding confirmed_def by (blast intro: authentication_requested_mono)

lemma identification_sent_mono:
  "identification_sent env es s a k \<Longrightarrow> set es \<subseteq> set es' \<Longrightarrow> set (hs_sent s) \<subseteq> set (hs_sent s') \<Longrightarrow>
     identification_sent env es' s' a k"
  unfolding identification_sent_def by (blast intro: confirmed_mono)

lemma told_truly_mono:
  "told_truly env es s ec r \<Longrightarrow> set es \<subseteq> set es' \<Longrightarrow> set (hs_sent s) \<subseteq> set (hs_sent s') \<Longrightarrow>
     told_truly env es' s' ec r"
proof (cases r)
  case (Some c)
  moreover assume "told_truly env es s ec r" and sub: "set es \<subseteq> set es'" "set (hs_sent s) \<subseteq> set (hs_sent s')"
  ultimately obtain a g v where "identification_sent env es s a (connection_id c)"
      "Frame_Received (connection_id c) g v \<in> set es" "view_command v = Some Client_Identified_Command"
      "ec = (if a then success else connection_error Authentication_Failed)"
    by (auto simp: told_truly_def)
  with identification_sent_mono [OF this(1) sub] sub(1) have
    "identification_sent env es' s' a (connection_id c) \<and> Frame_Received (connection_id c) g v \<in> set es' \<and>
     view_command v = Some Client_Identified_Command \<and> ec = (if a then success else connection_error Authentication_Failed)"
    by blast
  then show ?thesis
    unfolding told_truly_def Some option.case by (intro exI)
qed (simp add: told_truly_def)

lemma op_justified_mono:
  "op_justified env es s k op \<Longrightarrow> set es \<subseteq> set es' \<Longrightarrow> set (hs_sent s) \<subseteq> set (hs_sent s') \<Longrightarrow>
     op_justified env es' s' k op"
  using identification_sent_mono [of env es s _ k es' s'] authentication_requested_mono [of env es k es']
  by (cases op) (simp_all add: op_justified_def)

text \<open>A step that extends the events and what was sent keeps what held before.\<close>

lemma handshake_inv_step:
  assumes "handshake_inv env es s" and "set es \<subseteq> set es'" and "set (hs_sent s) \<subseteq> set (hs_sent s')"
    and "\<And>io. io \<in> set (hs_identify s') \<Longrightarrow> io \<notin> set (hs_identify s) \<Longrightarrow>
      identification_sent env es' s' (io_authenticated io) (io_correlation_id io)"
    and "\<And>k op. (k, op) \<in> set (hs_ops s') \<Longrightarrow> (k, op) \<notin> set (hs_ops s) \<Longrightarrow> op_justified env es' s' k op"
    and "\<And>m ec r. (m, ec, r) \<in> set (hs_completions s') \<Longrightarrow> (m, ec, r) \<notin> set (hs_completions s) \<Longrightarrow>
      told_truly env es' s' ec r"
  shows "handshake_inv env es' s'"
  unfolding handshake_inv_def
proof (intro conjI ballI, goal_cases)
  case (1 io)
  with assms(1,4) identification_sent_mono [OF _ assms(2,3)] show ?case
    unfolding handshake_inv_def by blast
next
  case (2 x)
  with assms(1,5) op_justified_mono [OF _ assms(2,3)] show ?case
    unfolding handshake_inv_def by (cases x) blast
next
  case (3 x)
  with assms(1,6) told_truly_mono [OF _ assms(2,3)] show ?case
    unfolding handshake_inv_def by (cases x) blast
qed

lemma handshake_inv_events: "handshake_inv env es s \<Longrightarrow> handshake_inv env (es @ [e]) s"
  by (erule handshake_inv_step) auto

text \<open>The view a deadline's call comes with has no frame behind it.\<close>

lemma view_command_null_view [simp]: "view_command null_view = None"
  by (simp add: null_view_def view_command_def)

section \<open>Every operation keeps the invariant\<close>

lemma set_register_op: "set (register_op k op m) \<subseteq> insert (k, op) (set m)"
  by (auto simp: register_op_def)

lemma identify_initiate_effect:
  assumes "identify_initiate env io m s = Some s'"
  shows "hs_identify s' = hs_identify s \<and> hs_completions s' = hs_completions s \<and>
    set (hs_sent s) \<subseteq> set (hs_sent s') \<and>
    set (hs_ops s') \<subseteq> insert (io_correlation_id io, Identify_Op (io_authenticated io) m) (set (hs_ops s)) \<and>
    (\<exists>p \<in> set (hs_sent s'). identify_package env (io_authenticated io) (io_correlation_id io) = Some p)"
  using assms set_register_op by (fastforce simp: identify_initiate_def split: Option.bind_splits)

lemma handshake_inv_identify_initiate:
  assumes "handshake_inv env es s" and "io_authenticated io \<longrightarrow> confirmed env es"
    and "set (hs_identify s') \<subseteq> insert io (set (hs_identify s))" and "hs_ops s' = hs_ops s"
    and "hs_sent s' = hs_sent s" and "hs_completions s' = hs_completions s"
    and "identify_initiate env io m s' = Some s''"
  shows "handshake_inv env es s''"
proof (rule handshake_inv_step [OF assms(1) subset_refl])
  note effect = identify_initiate_effect [OF assms(7)]
  have sent: "identification_sent env es s'' (io_authenticated io) (io_correlation_id io)"
    using effect assms(2) by (auto simp: identification_sent_def)
  show "set (hs_sent s) \<subseteq> set (hs_sent s'')"
    using effect assms(5) by auto
  show "identification_sent env es s'' (io_authenticated i) (io_correlation_id i)"
    if "i \<in> set (hs_identify s'')" "i \<notin> set (hs_identify s)" for i
    using that effect assms(3) sent by auto
  show "op_justified env es s'' k op" if "(k, op) \<in> set (hs_ops s'')" "(k, op) \<notin> set (hs_ops s)" for k op
    using that effect assms(4) sent by (auto simp: op_justified_def)
  show "told_truly env es s'' ec r" if "(n, ec, r) \<in> set (hs_completions s'')" "(n, ec, r) \<notin> set (hs_completions s)"
    for n ec r
    using that effect assms(6) by simp
qed

lemma handshake_inv_identify_start:
  assumes "handshake_inv env es s" and "a \<longrightarrow> confirmed env es" and "identify_start env a m g s = Some s'"
  shows "handshake_inv env es s'"
  by (rule handshake_inv_identify_initiate [OF assms(1), of "\<lparr>io_correlation_id = g, io_reconnections = 0,
      io_authenticated = a\<rparr>"]) (use assms in \<open>auto simp: identify_start_def Let_def\<close>)

lemma handshake_inv_completion:
  assumes "handshake_inv env es s" and "told_truly env es s ec r"
  shows "handshake_inv env es (s\<lparr>hs_completions := hs_completions s @ [(m, ec, r)]\<rparr>)"
  using assms by (elim handshake_inv_step) (auto elim: told_truly_mono)

lemma handshake_inv_connect_completed:
  assumes "handshake_inv env es s" and "connect_completed m ec v g s = Some s'"
    and "\<And>c. view_command v = Some c \<Longrightarrow> c = Client_Identified_Command \<Longrightarrow> \<not> failed ec \<or> ec = connection_error Authentication_Failed \<Longrightarrow>
      told_truly env es s ec (Some \<lparr>connection_id = g\<rparr>)"
  shows "handshake_inv env es s'"
  using assms handshake_inv_completion [OF assms(1)]
  by (auto simp: connect_completed_def told_truly_def [where r = None] split: if_splits Option.bind_splits)

text \<open>Each branch of a call: an answered authentication starts an identification, an answered
  identification completes the chain.\<close>

lemma handshake_inv_authentication_answered:
  assumes "handshake_inv env es s" and "authentication_answered env m g ec v s = Some s'"
    and "\<not> failed ec \<Longrightarrow> view_command v = Some Authenticated_Command \<Longrightarrow> confirmed env es"
  shows "handshake_inv env es s'"
proof -
  from assms(2) consider "identify_start env False m g s = Some s'"
    | "\<not> failed ec" "view_command v = Some Authenticated_Command" "identify_start env True m g s = Some s'" | "s' = s"
  proof (cases "failed ec")
    case True
    with assms(2) that(1) show thesis
      by (simp add: authentication_answered_def)
  next
    case False
    with assms(2) obtain c where "view_command v = Some c"
      by (cases "view_command v") (simp_all add: authentication_answered_def)
    with assms(2) False that show thesis
      by (cases "c = Authenticated_Command"; cases "c = Not_Authenticated_Command") (simp_all add: authentication_answered_def)
  qed
  then show ?thesis
  proof cases
    case 1
    with handshake_inv_identify_start [OF assms(1), of False] show ?thesis
      by blast
  next
    case 2
    with handshake_inv_identify_start [OF assms(1), of True] assms(3) show ?thesis
      by blast
  next
    case 3
    with assms(1) show ?thesis
      by simp
  qed
qed

lemma handshake_inv_mark_moved:
  assumes "handshake_inv env es s" and "authentication_requested env es k"
  shows "handshake_inv env es (mark_moved k s)"
  by (rule handshake_inv_step [OF assms(1)]) (use assms(2) in \<open>auto simp: mark_moved_def op_justified_def split: if_splits\<close>)

lemma handshake_inv_erase:
  "handshake_inv env es s \<Longrightarrow> handshake_inv env es (s\<lparr>hs_ops := om_erase k (hs_ops s)\<rparr>)"
  by (erule handshake_inv_step) (auto simp: om_erase_def)

lemma handshake_inv_call:
  assumes "handshake_inv env es s" and "op_justified env es s k op"
    and "call_handshake_op env k op g ec v s = Some s'"
    and "failed ec \<and> v = null_view \<or> ec = success \<and> Frame_Received k g' v \<in> set es"
  shows "handshake_inv env es s'"
proof (cases op)
  case (Authenticate_Op m)
  then obtain s1 where s1: "authentication_answered env m g ec v s = Some s1"
      "s' = (if starts_identification ec v then mark_moved k s1 else s1)"
    using assms(3) by (auto simp: call_handshake_op_def split: Option.bind_splits)
  have k: "authentication_requested env es k"
    using assms(2) Authenticate_Op by (simp add: op_justified_def)
  have "handshake_inv env es s1"
    by (rule handshake_inv_authentication_answered [OF assms(1) s1(1)]) (use assms(4) k in \<open>auto simp: confirmed_def\<close>)
  then show ?thesis
    using s1(2) k by (simp add: handshake_inv_mark_moved)
next
  case (Identify_Op a m)
  then have sent: "identification_sent env es s a k" and
      answered: "identify_answered a m k ec v s = Some s'"
    using assms(2,3) by (simp_all add: op_justified_def call_handshake_op_def)
  have told: "told_truly env es s (if a then success else connection_error Authentication_Failed) (Some \<lparr>connection_id = k\<rparr>)"
    if "view_command v = Some Client_Identified_Command" "ec = success"
    unfolding told_truly_def option.case
    by (intro exI [of _ a] exI [of _ g'] exI [of _ v]) (use that sent assms(4) in simp)
  have failure: "failed ec \<Longrightarrow> ec \<noteq> success"
    by auto
  obtain ec' k' where c: "connect_completed m ec' v k' s = Some s'"
      "ec = success \<longrightarrow> k' = k \<and> ec' = (if a then success else connection_error Authentication_Failed)"
    using answered that [of ec null_guid] that [of ec k] that [of "connection_error Authentication_Failed" k]
    by (cases "failed ec"; cases "ec = connection_error Authentication_Failed"; cases a)
       (simp_all add: identify_answered_def Let_def failure)
  show ?thesis
  proof (rule handshake_inv_connect_completed [OF assms(1) c(1)])
    fix c
    assume "view_command v = Some c" "c = Client_Identified_Command"
    then show "told_truly env es s ec' (Some \<lparr>connection_id = k'\<rparr>)"
      using assms(4) told c(2) by auto
  qed
qed

lemma handshake_inv_at:
  "handshake_inv env es s \<Longrightarrow> om_at k (hs_ops s) = Inr op \<Longrightarrow> op_justified env es s k op"
  by (auto simp: handshake_inv_def om_at_map_of split: option.splits dest!: map_of_SomeD)

lemma handshake_inv_tcp_connected:
  assumes "tcp_connected env g hb ec handshake_start = Some s"
  shows "handshake_inv env [Tcp_Completed g ec] s"
proof -
  let ?es = "[Tcp_Completed g ec]"
  have start: "handshake_inv env es handshake_start" for es
    by (simp add: handshake_inv_def handshake_start_def om_empty_def)
  show ?thesis
  proof (cases "failed ec")
    case True
    then have "connect_completed False ec null_view null_guid handshake_start = Some s"
      using assms by (simp add: tcp_connected_def)
    then show ?thesis
      by (elim handshake_inv_connect_completed [OF start]) (auto simp: True)
  next
    case False
    then obtain s1 where s1: "(if credentials_null (cs_default_user_credentials (env_settings env))
          then identify_start env False False g handshake_start else authenticate_initiate env g handshake_start) = Some s1"
        "heartbeat_start hb (s1\<lparr>hs_reading := True\<rparr>) = Some s"
      using assms by (auto simp: tcp_connected_def split: Option.bind_splits)
    have "handshake_inv env ?es s1"
    proof (cases "credentials_null (cs_default_user_credentials (env_settings env))")
      case True
      then show ?thesis
        using s1(1) handshake_inv_identify_start [OF start, of False] by simp
    next
      case creds: False
      then show ?thesis
        using s1(1) False by (intro handshake_inv_step [OF start [of ?es], where es' = ?es])
          (auto simp: authenticate_initiate_def Let_def op_justified_def authentication_requested_def handshake_start_def
             register_op_def om_empty_def split: Option.bind_splits)
    qed
    then show ?thesis
      using s1(2) by (elim handshake_inv_step) (auto simp: heartbeat_start_Some)
  qed
qed

text \<open>A deadline calls what is registered with an error and the null view.\<close>

lemma handshake_inv_expired:
  assumes "handshake_inv env es s" and "failed e"
    and "(case om_at k (hs_ops s) of Inl x \<Rightarrow> Some (Inl x)
      | Inr op \<Rightarrow> map_option Inr (call_handshake_op env k op g e null_view s)) = Some (Inr s')"
  shows "handshake_inv env es s'"
  using assms handshake_inv_call [OF assms(1) handshake_inv_at [OF assms(1)], where ec = e and v = null_view]
  by (auto split: sum.splits)

lemma handshake_inv_identify_deadline:
  assumes "handshake_inv env es s" and "i < length (hs_identify s)" and "identify_deadline env i ec s = Some (Inr s')"
  shows "handshake_inv env es s'"
proof -
  let ?op = "hs_identify s ! i"
  let ?io = "?op\<lparr>io_reconnections := io_reconnections ?op + 1\<rparr>"
  consider "identify_initiate env ?io True (s\<lparr>hs_identify := (hs_identify s)[i := ?io]\<rparr>) = Some s'"
    | e where "failed e" "(case om_at (io_correlation_id ?op) (hs_ops s) of Inl x \<Rightarrow> Some (Inl x)
        | Inr h \<Rightarrow> map_option Inr (call_handshake_op env (io_correlation_id ?op) h null_guid e null_view s)) = Some (Inr s')"
    | "s' = s"
  proof (cases "failed ec")
    case True
    with assms(3) that(2) [of ec] that(3) show thesis
      by (cases "ec = operation_aborted") (simp_all add: identify_deadline_def Let_def)
  next
    case False
    with assms(3) that(1) that(2) [of "connection_error Operation_Timeout"] show thesis
      by (cases "unat (cs_max_reconnections (env_settings env)) > 0 \<and>
          io_reconnections ?op < unat (cs_max_reconnections (env_settings env))")
         (simp_all add: identify_deadline_def Let_def)
  qed
  then show ?thesis
  proof cases
    case 1
    have "identification_sent env es s (io_authenticated ?op) (io_correlation_id ?op)"
      using assms(1,2) by (simp add: handshake_inv_def)
    then show ?thesis
      by (intro handshake_inv_identify_initiate [OF assms(1) _ _ _ _ _ 1])
         (simp_all add: identification_sent_def set_update_subset_insert)
  next
    case 2
    then show ?thesis
      by (rule handshake_inv_expired [OF assms(1)])
  next
    case 3
    with assms(1) show ?thesis
      by simp
  qed
qed

lemma handshake_run_inv: "handshake_run env es s \<Longrightarrow> handshake_inv env es s"
proof (induction rule: handshake_run.induct)
  case start
  then show ?case
    by (simp add: handshake_inv_def handshake_start_def om_empty_def)
next
  case (tcp g hb ec s)
  then show ?case
    by (rule handshake_inv_tcp_connected)
next
  case (frame es s k g v s')
  let ?es = "es @ [Frame_Received k g v]"
  have inv: "handshake_inv env ?es s"
    using frame.IH by (rule handshake_inv_events)
  consider "s' = s" | op s1 where "om_at k (hs_ops s) = Inr op" "call_handshake_op env k op g success v s = Some s1"
      "s' = s1\<lparr>hs_ops := om_erase k (hs_ops s1)\<rparr>"
    using frame.hyps(2) by (auto simp: handshake_frame_def split: sum.splits Option.bind_splits)
  then show ?case
  proof cases
    case 2
    then have "handshake_inv env ?es s1"
      by (intro handshake_inv_call [OF inv handshake_inv_at [OF inv], where g' = g]) auto
    with 2(3) show ?thesis
      by (simp add: handshake_inv_erase)
  qed (simp add: inv)
next
  case (authentication es s k g ec s')
  have inv: "handshake_inv env (es @ [Authentication_Deadline k g ec]) s"
    using authentication.IH by (rule handshake_inv_events)
  with authentication.hyps(3) show ?case
    by (auto simp: authenticate_deadline_def split: if_splits elim: handshake_inv_expired [rotated 2])
next
  case (identification es s i ec s')
  then show ?case
    using handshake_inv_identify_deadline [OF handshake_inv_events] by blast
qed

section \<open>Answers in time\<close>

text \<open>No deadline ends otherwise than by being cancelled.\<close>

fun in_time :: "handshake_event \<Rightarrow> bool" where
  "in_time (Authentication_Deadline k g ec) \<longleftrightarrow> ec = operation_aborted"
| "in_time (Identification_Deadline i ec) \<longleftrightarrow> ec = operation_aborted"
| "in_time e \<longleftrightarrow> True"

text \<open>The chain has one link: an operation that waits with the user's handler, or the call of that handler.\<close>

fun op_moved :: "guid \<times> handshake_op \<Rightarrow> bool" where
  "op_moved (k, op) = handler_moved op"

definition one_link :: "handshake \<Rightarrow> bool" where
  "one_link s \<longleftrightarrow> length (hs_ops s) + length (hs_completions s) \<le> 1 \<and>
     (\<forall>e \<in> set (hs_ops s). \<not> op_moved e) \<and> (\<forall>(m, _) \<in> set (hs_completions s). \<not> m)"

lemma one_link_registered:
  assumes "one_link s" and "om_at k (hs_ops s) = Inr op"
  shows "hs_ops s = [(k, op)] \<and> hs_completions s = [] \<and> \<not> handler_moved op"
proof -
  have "hs_ops s \<noteq> []"
    using assms(2) by auto
  then obtain e where "hs_ops s = [e]" "hs_completions s = []"
    using assms(1) by (cases "hs_ops s") (auto simp: one_link_def)
  with assms show ?thesis
    by (cases e) (auto simp: one_link_def split: if_splits)
qed

lemma one_link_connect_completed:
  assumes "connect_completed False ec v g s = Some s'" and "hs_completions s = []"
  shows "hs_ops s' = hs_ops s \<and> length (hs_completions s') \<le> 1 \<and> (\<forall>(m, _) \<in> set (hs_completions s'). \<not> m)"
  using assms by (auto simp: connect_completed_def split: if_splits Option.bind_splits)

lemma identify_start_registers:
  assumes "identify_start env a False g s = Some s'"
  shows "hs_ops s' = register_op g (Identify_Op a False) (hs_ops s) \<and> hs_completions s' = hs_completions s"
  using assms by (auto simp: identify_start_def identify_initiate_def Let_def split: Option.bind_splits)

lemma one_link_tcp_connected:
  assumes "tcp_connected env g hb ec handshake_start = Some s"
  shows "one_link s"
  using assms
  by (auto simp: tcp_connected_def authenticate_initiate_def Let_def one_link_def handshake_start_def om_empty_def
      register_op_def connect_completed_def dest!: identify_start_registers heartbeat_start_ops
      split: if_splits Option.bind_splits)

lemma authentication_answered_registers:
  assumes "authentication_answered env False g ec v s = Some s'"
  shows "(\<exists>a. hs_ops s' = register_op g (Identify_Op a False) (hs_ops s)) \<or> hs_ops s' = hs_ops s"
    and "hs_completions s' = hs_completions s"
  using assms
  by (auto simp: authentication_answered_def dest: identify_start_registers split: if_splits Option.bind_splits)

lemma one_link_frame:
  assumes "one_link s" and "handshake_frame env k g v s = Some s'"
  shows "one_link s'"
proof (cases "om_at k (hs_ops s)")
  case (Inl e)
  with assms show ?thesis
    by (simp add: handshake_frame_def)
next
  case (Inr op)
  note link = one_link_registered [OF assms(1) Inr]
  obtain s1 where s1: "call_handshake_op env k op g success v s = Some s1"
      "s' = s1\<lparr>hs_ops := om_erase k (hs_ops s1)\<rparr>"
    using assms(2) Inr by (auto simp: handshake_frame_def split: Option.bind_splits)
  show ?thesis
  proof (cases op)
    case (Authenticate_Op m)
    then obtain s2 where s2: "authentication_answered env False g success v s = Some s2"
        "s1 = mark_moved k s2 \<or> s1 = s2"
      using s1(1) link by (auto simp: call_handshake_op_def split: Option.bind_splits if_splits)
    with authentication_answered_registers [OF s2(1)] link s1(2) show ?thesis
      by (auto simp: one_link_def mark_moved_def om_erase_def register_op_def split: if_splits)
  next
    case (Identify_Op a m)
    then obtain ec k' where "connect_completed False ec v k' s = Some s1"
      using s1(1) link by (auto simp: call_handshake_op_def identify_answered_def Let_def split: if_splits)
    from one_link_connect_completed [OF this] link s1(2) show ?thesis
      by (auto simp: one_link_def om_erase_def)
  qed
qed

lemma one_link_run: "handshake_run env es s \<Longrightarrow> list_all in_time es \<Longrightarrow> one_link s"
proof (induction rule: handshake_run.induct)
  case start
  then show ?case
    by (simp add: one_link_def handshake_start_def om_empty_def)
next
  case (tcp g hb ec s)
  then show ?case
    by (simp add: one_link_tcp_connected)
next
  case (frame es s k g v s')
  then show ?case
    using one_link_frame [OF _ frame.hyps(2)] by simp
next
  case (authentication es s k g ec s')
  then show ?case
    by (simp add: authenticate_deadline_def)
next
  case (identification es s i ec s')
  then show ?case
    by (simp add: identify_deadline_def Let_def)
qed

section \<open>Properties\<close>

text \<open>C17: what the user's handler is told about a connection is true, whatever happens in whichever order.
  A call without an id reports an error other than \<open>authentication_failed\<close>.  A call with an id comes after the server's answer to an
  identification that was sent under this id; it reports success exactly if that identification was
  an authenticated one, and only after the server confirmed the default credentials in answer to the
  request for authentication.  Otherwise it reports \<open>authentication_failed\<close>.\<close>

theorem handshake_agreement:
  assumes "handshake_run env es s" and "(m, ec, r) \<in> set (hs_completions s)"
  shows "case r of
      None \<Rightarrow> failed ec \<and> ec \<noteq> connection_error Authentication_Failed
    | Some c \<Rightarrow> (\<exists>g v a. Frame_Received (connection_id c) g v \<in> set es \<and>
        view_command v = Some Client_Identified_Command \<and>
        (\<exists>p \<in> set (hs_sent s). identify_package env a (connection_id c) = Some p) \<and>
        (if a then ec = success \<and>
            \<not> credentials_null (cs_default_user_credentials (env_settings env)) \<and>
            (\<exists>k ec' g' v'. Tcp_Completed k ec' \<in> set es \<and> \<not> failed ec' \<and> Frame_Received k g' v' \<in> set es \<and>
               view_command v' = Some Authenticated_Command)
         else ec = connection_error Authentication_Failed))"
proof -
  have "told_truly env es s ec r"
    using handshake_run_inv [OF assms(1)] assms(2) by (auto simp: handshake_inv_def)
  then show ?thesis
  proof (cases r)
    case (Some c)
    then obtain a g v where told: "identification_sent env es s a (connection_id c)"
        "Frame_Received (connection_id c) g v \<in> set es" "view_command v = Some Client_Identified_Command"
        "ec = (if a then success else connection_error Authentication_Failed)"
      using \<open>told_truly env es s ec r\<close> by (auto simp: told_truly_def)
    show ?thesis
      unfolding Some option.case
      by (intro exI [of _ g] exI [of _ v] exI [of _ a])
         (use told in \<open>auto simp: identification_sent_def confirmed_def authentication_requested_def\<close>)
  qed (simp add: told_truly_def)
qed

text \<open>A run that ends well.\<close>

definition authenticated_run :: "handshake_event list" where
  "authenticated_run = [Tcp_Completed (replicate 16 1) success,
     Frame_Received (replicate 16 1) (replicate 16 2) (answer Authenticated_Command),
     Frame_Received (replicate 16 2) (replicate 16 3) (answer Client_Identified_Command)]"

lemma authenticated_run_exists:
  "\<exists>s. handshake_run (sample_env (mk_credentials ''u'' ''p'')) authenticated_run s \<and>
     hs_completions s = [(False, success, Some \<lparr>connection_id = replicate 16 2\<rparr>)]"
proof -
  let ?env = "sample_env (mk_credentials ''u'' ''p'')"
  have g: "is_guid (replicate 16 (1 :: byte))" "is_guid (replicate 16 (2 :: byte))" "replicate 16 (1 :: byte) \<noteq> replicate 16 2"
    by (simp_all add: is_guid_def)
  have v: "view_command (answer Authenticated_Command) = Some Authenticated_Command"
      "view_command (answer Client_Identified_Command) = Some Client_Identified_Command"
    by (simp_all add: view_answer is_named_def)
  have creds: "\<not> credentials_null (cs_default_user_credentials (env_settings ?env))"
    by (simp add: sample_env_def with_default_user_credentials_def credentials_null_def mk_credentials_def)
  have "map_of (hs_ops handshake_start) (replicate 16 1) = None"
    by (simp add: handshake_start_def om_empty_def)
  from authenticate_initiate_spec [OF g(1) this, of ?env] obtain s0 where s0:
      "authenticate_initiate ?env (replicate 16 1) handshake_start = Some s0" "hs_completions s0 = []"
      "map_of (hs_ops s0) = [replicate 16 1 \<mapsto> Authenticate_Op False]"
    by (auto simp: handshake_start_def om_empty_def)
  have "is_guid (replicate 16 (4 :: byte))"
    by (simp add: is_guid_def)
  then obtain q where q: "heartbeat_request (replicate 16 4) = Some q"
    using heartbeat_request_package by blast
  let ?s1 = "s0\<lparr>hs_reading := True, hs_sent := hs_sent s0 @ [q], hs_heartbeats := True\<rparr>"
  have t: "tcp_connected ?env (replicate 16 1) (replicate 16 4) success handshake_start = Some ?s1"
    using creds s0(1) q by (simp add: tcp_connected_def heartbeat_start_def)
  have "map_of (hs_ops ?s1) (replicate 16 1) = Some (Authenticate_Op False)" "map_of (hs_ops ?s1) (replicate 16 2) = None"
    using s0(3) g(3) by simp_all
  from authenticate_frame [OF this(1) v(1) g(2) this(2), of ?env] obtain s2 where
    s2: "handshake_frame ?env (replicate 16 1) (replicate 16 2) (answer Authenticated_Command) ?s1 = Some s2"
      "hs_completions s2 = []" "map_of (hs_ops s2) (replicate 16 2) = Some (Identify_Op True False)"
    using s0(2) g(3) by auto
  note t and s2(1) and identify_frame [OF s2(3) v(2), of ?env "replicate 16 3"]
  note handshake_run.frame [OF handshake_run.frame [OF handshake_run.tcp [OF this(1)] this(2)] this(3)]
  then show ?thesis
    using s2(2) by (auto simp: authenticated_run_def)
qed

theorem handshake_agreement_witness:
  "\<exists>s k ec' g' v'. handshake_run (sample_env (mk_credentials ''u'' ''p'')) authenticated_run s \<and>
     (False, success, Some \<lparr>connection_id = replicate 16 2\<rparr>) \<in> set (hs_completions s) \<and>
     Tcp_Completed k ec' \<in> set authenticated_run \<and> Frame_Received k g' v' \<in> set authenticated_run \<and>
     view_command v' = Some Authenticated_Command"
proof -
  obtain s where s: "handshake_run (sample_env (mk_credentials ''u'' ''p'')) authenticated_run s"
      "(False, success, Some \<lparr>connection_id = replicate 16 2\<rparr>) \<in> set (hs_completions s)"
    using authenticated_run_exists by auto
  have ne: "success \<noteq> connection_error Authentication_Failed"
    using failed_connection not_failed_success by metis
  from handshake_agreement [OF s, unfolded option.case] obtain g v a where
    "if a then success = success \<and> \<not> credentials_null (cs_default_user_credentials (env_settings (sample_env (mk_credentials ''u'' ''p'')))) \<and>
       (\<exists>k ec' g' v'. Tcp_Completed k ec' \<in> set authenticated_run \<and> \<not> failed ec' \<and>
          Frame_Received k g' v' \<in> set authenticated_run \<and> view_command v' = Some Authenticated_Command)
     else success = connection_error Authentication_Failed"
    by blast
  with ne have "\<exists>k ec' g' v'. Tcp_Completed k ec' \<in> set authenticated_run \<and>
      Frame_Received k g' v' \<in> set authenticated_run \<and> view_command v' = Some Authenticated_Command"
    by (cases a) (simp_all only: if_True if_False, blast)
  with s show ?thesis
    by blast
qed

text \<open>C33: Answers in time.  As long as no deadline ends otherwise than by being cancelled, the user's handler
  is called at most once, it is the handler the user gave and not one that has been moved from, and
  while an operation of the chain waits for its answer the handler has not been called.\<close>

theorem handshake_calls_once:
  assumes "handshake_run env es s" and "list_all in_time es"
  shows "length (hs_completions s) \<le> 1 \<and> (\<forall>(m, ec, r) \<in> set (hs_completions s). \<not> m) \<and>
    (hs_ops s \<noteq> [] \<longrightarrow> hs_completions s = [])"
  using one_link_run [OF assms] by (cases "hs_ops s") (auto simp: one_link_def)

theorem handshake_calls_once_witness:
  "\<exists>s. handshake_run (sample_env (mk_credentials ''u'' ''p'')) authenticated_run s \<and> length (hs_completions s) = 1 \<and>
     \<not> fst (hd (hs_completions s)) \<and> hs_ops s = []"
proof -
  obtain s where s: "handshake_run (sample_env (mk_credentials ''u'' ''p'')) authenticated_run s"
      "hs_completions s = [(False, success, Some \<lparr>connection_id = replicate 16 2\<rparr>)]"
    using authenticated_run_exists by blast
  have "list_all in_time authenticated_run"
    by (simp add: authenticated_run_def)
  from handshake_calls_once [OF s(1) this] s show ?thesis
    by auto
qed

end
