(* ===== verification/Handshake_Client.thy ===== *)
theory Handshake_Client
  imports Handshake_Runs
begin

text \<open>
  Connecting on the connection itself.  \<open>Handshake\<close> models the operations of the handshake on their own state; here
  they are registered in the maps of the connection, called by its dispatch with the bytes of the frames it
  reads, and their requests go to its send queue.  The dispatch refines the frames of \<open>Handshake\<close>, so
  that what holds of its runs holds for the bytes on the socket.
\<close>

section \<open>The connection with the handshake's state\<close>

text \<open>A registered lambda knows its correlation id.  What was sent is kept as a record; the send queue of the
  connection holds what has not been posted yet.  \<open>hc_undefined\<close> records undefined behaviour of a call.\<close>

record handshake_client = "(guid \<times> handshake_op) connection" +
  hc_sent :: "tcp_package list"
  hc_identify :: "identify_op list"
  hc_completions :: "(bool \<times> error_code \<times> connection_result option) list"
  hc_reading :: bool
  hc_heartbeats :: bool
  hc_undefined :: bool

definition mk_handshake_client :: "connection_settings \<Rightarrow> string \<Rightarrow> handshake_client" where
  "mk_handshake_client cs guid_string = connection.extend (mk_connection cs guid_string)
     \<lparr>hc_sent = [], hc_identify = [], hc_completions = [], hc_reading = False, hc_heartbeats = False, hc_undefined = False\<rparr>"

definition handshake_view :: "handshake_client \<Rightarrow> handshake" where
  "handshake_view c = \<lparr>hs_ops = map (\<lambda>(k, r). (k, snd r)) (operations_map c), hs_sent = hc_sent c,
     hs_identify = hc_identify c, hs_completions = hc_completions c, hs_reading = hc_reading c,
     hs_heartbeats = hc_heartbeats c\<rparr>"

text \<open>An operation of the handshake runs on the connection: the packages it sends are posted by \<open>async_send\<close>.\<close>

definition run_handshake :: "(handshake \<Rightarrow> handshake option) \<Rightarrow> handshake_client \<Rightarrow> handshake_client" where
  "run_handshake f c =
    (case f (handshake_view c) of
       None \<Rightarrow> c\<lparr>hc_undefined := True\<rparr>
     | Some s \<Rightarrow> (fold async_send (drop (length (hc_sent c)) (hs_sent s)) c)
         \<lparr>operations_map := map (\<lambda>(k, op). (k, (k, op))) (hs_ops s), hc_sent := hs_sent s, hc_identify := hs_identify s,
          hc_completions := hs_completions s, hc_reading := hs_reading s, hc_heartbeats := hs_heartbeats s\<rparr>)"

fun handshake_call ::
  "connect_env \<Rightarrow> guid \<Rightarrow> guid \<times> handshake_op \<Rightarrow> error_code \<Rightarrow> tcp_package_view \<Rightarrow> handshake_client \<Rightarrow> handshake_client"
where
  "handshake_call env new_guid (k, op) ec v c = run_handshake (call_handshake_op env k op new_guid ec v) c"

definition connect_tcp :: "connect_env \<Rightarrow> guid \<Rightarrow> guid \<Rightarrow> error_code \<Rightarrow> handshake_client \<Rightarrow> handshake_client" where
  "connect_tcp env new_guid heartbeat_guid ec = run_handshake (tcp_connected env new_guid heartbeat_guid ec)"

section \<open>Lemmas\<close>

lemma fold_async_send: "fold async_send ps c = c\<lparr>posted := posted c @ ps\<rparr>"
  by (induction ps arbitrary: c) (simp_all add: async_send_def)

lemma keyed_map [simp]:
  "map (\<lambda>(k, r). (k, snd r)) (map (\<lambda>(k, op). (k, (k, op))) m) = m"
  "map ((\<lambda>(k, r). (k, snd r)) \<circ> (\<lambda>(k, op). (k, k, op))) m = m"
  by (induction m) auto

lemma run_handshake_Some:
  assumes "f (handshake_view c) = Some s"
  shows "handshake_view (run_handshake f c) = s"
    and "posted (run_handshake f c) = posted c @ drop (length (hc_sent c)) (hs_sent s)"
    and "hc_undefined (run_handshake f c) = hc_undefined c"
    and "operations_map (run_handshake f c) = map (\<lambda>(k, op). (k, (k, op))) (hs_ops s)"
    and "subscriptions_map (run_handshake f c) = subscriptions_map c"
  using assms by (simp_all add: run_handshake_def handshake_view_def fold_async_send)

text \<open>Every lambda is registered under its own id.\<close>

definition keyed :: "handshake_client \<Rightarrow> bool" where
  "keyed c \<longleftrightarrow> (\<forall>(k, r) \<in> set (operations_map c). fst r = k)"

lemma keyed_run: "f (handshake_view c) = Some s \<Longrightarrow> keyed (run_handshake f c)"
  by (auto simp: keyed_def run_handshake_Some)

lemma om_at_view: "om_at k (hs_ops (handshake_view c)) = map_sum id snd (om_at k (operations_map c))"
proof -
  have "om_at k (map (\<lambda>(k, r). (k, snd r)) m) = map_sum id snd (om_at k m)" for m :: "(guid \<times> handshake_op) operations_map"
    by (induction k m rule: om_at.induct) auto
  then show ?thesis
    by (simp add: handshake_view_def)
qed

lemma keyed_at: "keyed c \<Longrightarrow> om_at k (operations_map c) = Inr r \<Longrightarrow> fst r = k"
proof -
  have "om_at k m = Inr r \<Longrightarrow> (k, r) \<in> set m" for m :: "(guid \<times> handshake_op) operations_map"
    by (induction k m rule: om_at.induct) (auto split: if_splits)
  then show "keyed c \<Longrightarrow> om_at k (operations_map c) = Inr r \<Longrightarrow> fst r = k"
    by (force simp: keyed_def)
qed

lemma om_erase_view: "om_erase k (map (\<lambda>(k, r). (k, snd r)) m) = map (\<lambda>(k, r). (k, snd r)) (om_erase k m)"
  by (induction m) (auto simp: om_erase_def)

lemma handshake_view_erase:
  "handshake_view (c\<lparr>operations_map := om_erase k (operations_map c)\<rparr>) =
     (handshake_view c)\<lparr>hs_ops := om_erase k (hs_ops (handshake_view c))\<rparr>"
  by (simp add: handshake_view_def om_erase_view)

lemma keyed_erase: "keyed c \<Longrightarrow> keyed (c\<lparr>operations_map := om_erase k (operations_map c)\<rparr>)"
  by (auto simp: keyed_def om_erase_def)

lemma keyed_mk [simp]: "keyed (mk_handshake_client cs n)" "handshake_view (mk_handshake_client cs n) = handshake_start"
  "posted (mk_handshake_client cs n) = []" "subscriptions_map (mk_handshake_client cs n) = om_empty"
  "hc_sent (mk_handshake_client cs n) = []" "\<not> hc_undefined (mk_handshake_client cs n)"
  by (simp_all add: keyed_def mk_handshake_client_def mk_connection_def connection.defs handshake_view_def
      handshake_start_def om_empty_def)

text \<open>One frame: the dispatch of the connection is the step of the handshake.\<close>

lemma dispatch_handshake:
  assumes "frame_ok f n" and "n < 2 ^ 32" and "is_guid g" and "keyed c" and "subscriptions_map c = om_empty"
    and "handshake_frame env (take 16 (drop 6 f)) new_guid (frame_view f n) (handshake_view c) = Some s"
  shows "\<exists>c'. package_read (handshake_call env new_guid) g success f n c = Some (c', True) \<and> handshake_view c' = s \<and>
    keyed c' \<and> subscriptions_map c' = om_empty \<and> hc_undefined c' = hc_undefined c \<and>
    (om_contains (take 16 (drop 6 f)) (operations_map c) \<longrightarrow>
       posted c' = posted c @ drop (length (hc_sent c)) (hs_sent s))"
proof -
  let ?k = "take 16 (drop 6 f)" and ?v = "frame_view f n" and ?c = "c\<lparr>package_no := package_no c + 1\<rparr>"
  have view1: "handshake_view ?c = handshake_view c" and keyed1: "keyed ?c"
    using assms(4) by (simp_all add: handshake_view_def keyed_def)
  have read: "package_read (handshake_call env new_guid) g success f n c =
      map_option (\<lambda>c'. (c', True)) (on_package_received (handshake_call env new_guid) g success ?v c)"
    using mk_view_ok [OF assms(1)] assms(2)
    by (simp add: package_read_def frame_view_command [OF assms(1)] frame_view_message [OF assms(1,2)] map_option_case
        split: option.splits)
  show ?thesis
  proof (cases "om_at ?k (operations_map c)")
    case (Inl x)
    then have none: "map_of (operations_map c) ?k = None"
      by (simp add: om_at_map_of split: option.splits)
    have s: "s = handshake_view c"
      using assms(6) Inl by (simp add: handshake_frame_def om_at_view)
    have "map_of (subscriptions_map c) ?k = None"
      by (simp add: assms(5) om_empty_def)
    from dispatch_other [OF assms(1) none this assms(3), of "handshake_call env new_guid" success] obtain c' where
      "on_package_received (handshake_call env new_guid) g success ?v c = Some c'" "c' = ?c \<or> (\<exists>p. c' = async_send p ?c)"
      by (cases "command_of (f ! 4) = Heartbeat_Request_Command") auto
    moreover have "handshake_view (async_send p ?c) = handshake_view c \<and> keyed (async_send p ?c)" for p
      using view1 keyed1 by (simp add: async_send_def handshake_view_def keyed_def)
    ultimately show ?thesis
      using read s view1 keyed1 assms(5) none by (auto simp: async_send_def om_contains_iff)
  next
    case (Inr r)
    then obtain op where r: "r = (?k, op)"
      using keyed_at [OF assms(4)] by (cases r) force
    have at: "om_at ?k (hs_ops (handshake_view c)) = Inr op"
      using Inr r by (simp add: om_at_view)
    obtain s1 where s1: "call_handshake_op env ?k op new_guid success ?v (handshake_view c) = Some s1"
        "s = s1\<lparr>hs_ops := om_erase ?k (hs_ops s1)\<rparr>"
      using assms(6) at by (auto simp: handshake_frame_def split: Option.bind_splits)
    let ?f = "call_handshake_op env ?k op new_guid success ?v"
    have f: "?f (handshake_view ?c) = Some s1"
      using s1(1) view1 by simp
    define c1 where "c1 = run_handshake ?f ?c"
    note run = run_handshake_Some [where f = ?f and c = ?c, OF f, folded c1_def]
      keyed_run [where f = ?f and c = ?c, OF f, folded c1_def]
    have m: "map_of (operations_map c) ?k = Some (?k, op)"
      using Inr r by (simp add: om_at_map_of split: option.splits)
    have "on_package_received (handshake_call env new_guid) g success ?v c =
        Some (c1\<lparr>operations_map := om_erase ?k (operations_map c1)\<rparr>)"
      by (rule dispatch_operation [OF assms(1) m]) (simp add: c1_def)
    then show ?thesis
      using read run(1-3,5) s1(2) assms(5) handshake_view_erase [where c = c1 and k = ?k] keyed_erase [OF run(6), of ?k]
      by simp
  qed
qed

text \<open>The other way round: a dispatch that is not undefined is a step of the handshake.\<close>

lemma dispatched_handshake:
  assumes "frame_ok f n" and "n < 2 ^ 32" and "is_guid g" and "keyed c" and "subscriptions_map c = om_empty"
    and "package_read (handshake_call env new_guid) g success f n c = Some (c', on)" and "\<not> hc_undefined c'"
  shows "handshake_frame env (take 16 (drop 6 f)) new_guid (frame_view f n) (handshake_view c) = Some (handshake_view c') \<and>
    keyed c' \<and> subscriptions_map c' = om_empty"
proof -
  let ?k = "take 16 (drop 6 f)" and ?v = "frame_view f n" and ?c = "c\<lparr>package_no := package_no c + 1\<rparr>"
  have "\<exists>s. handshake_frame env ?k new_guid ?v (handshake_view c) = Some s"
  proof (rule ccontr)
    assume none: "\<nexists>s. handshake_frame env ?k new_guid ?v (handshake_view c) = Some s"
    then obtain op where op: "om_at ?k (hs_ops (handshake_view c)) = Inr op"
        "call_handshake_op env ?k op new_guid success ?v (handshake_view c) = None"
      by (cases "om_at ?k (hs_ops (handshake_view c))")
         (auto simp: handshake_frame_def split: Option.bind_splits)
    then obtain r where r: "om_at ?k (operations_map c) = Inr r" "snd r = op"
      by (cases "om_at ?k (operations_map c)") (auto simp: om_at_view)
    then have r': "r = (?k, op)"
      using keyed_at [OF assms(4) r(1)] by (cases r) simp
    have "handshake_view ?c = handshake_view c"
      by (simp add: handshake_view_def)
    then have call: "handshake_call env new_guid r success ?v ?c = ?c\<lparr>hc_undefined := True\<rparr>"
      using op(2) by (simp add: r' run_handshake_def)
    have m: "map_of (operations_map c) ?k = Some r"
      using r(1) by (simp add: om_at_map_of split: option.splits)
    have "package_read (handshake_call env new_guid) g success f n c =
        Some ((?c\<lparr>hc_undefined := True\<rparr>)\<lparr>operations_map := om_erase ?k (operations_map (?c\<lparr>hc_undefined := True\<rparr>))\<rparr>, True)"
      using dispatch_operation [OF assms(1) m, of "?c\<lparr>hc_undefined := True\<rparr>" "handshake_call env new_guid" success g] call
        mk_view_ok [OF assms(1)] assms(2)
      by (simp add: package_read_def frame_view_command [OF assms(1)] frame_view_message [OF assms(1,2)])
    with assms(6,7) show False
      by auto
  qed
  then obtain s where s: "handshake_frame env ?k new_guid ?v (handshake_view c) = Some s"
    by blast
  from dispatch_handshake [OF assms(1-5) s] assms(6) s show ?thesis
    by auto
qed

section \<open>Runs of the connection\<close>

text \<open>The completion of a deadline, where it does not throw.\<close>

definition no_throw :: "(exn + 'a) option \<Rightarrow> 'a option" where
  "no_throw r = (case r of Some (Inr x) \<Rightarrow> Some x | _ \<Rightarrow> None)"

lemma no_throw_Some [simp]: "no_throw r = Some x \<longleftrightarrow> r = Some (Inr x)"
  by (auto simp: no_throw_def split: option.splits sum.splits)

text \<open>A new connection whose socket is connected, or is not; then frames with a valid layout are read, the
  deadlines of the handshake complete, the send queue works, and the timer of the heartbeats completes.  The events
  are those of \<open>handshake_run\<close>.\<close>

inductive connect_run :: "connect_env \<Rightarrow> handshake_event list \<Rightarrow> handshake_client \<Rightarrow> bool" for env where
  tcp: "\<not> hc_undefined (connect_tcp env g hb ec (mk_handshake_client cs n)) \<Longrightarrow>
    connect_run env [Tcp_Completed g ec] (connect_tcp env g hb ec (mk_handshake_client cs n))"
| receive: "connect_run env es c \<Longrightarrow> frame_ok f n \<Longrightarrow> n < 2 ^ 32 \<Longrightarrow> is_guid g \<Longrightarrow>
    package_read (handshake_call env new_guid) g success f n c = Some (c', on) \<Longrightarrow> \<not> hc_undefined c' \<Longrightarrow>
    connect_run env (es @ [Frame_Received (take 16 (drop 6 f)) new_guid (frame_view f n)]) c'"
| authentication: "connect_run env es c \<Longrightarrow> authentication_requested env es k \<Longrightarrow>
    c' = run_handshake (\<lambda>s. no_throw (authenticate_deadline env k g ec s)) c \<Longrightarrow> \<not> hc_undefined c' \<Longrightarrow>
    connect_run env (es @ [Authentication_Deadline k g ec]) c'"
| identification: "connect_run env es c \<Longrightarrow> i < length (hc_identify c) \<Longrightarrow>
    c' = run_handshake (\<lambda>s. no_throw (identify_deadline env i ec s)) c \<Longrightarrow> \<not> hc_undefined c' \<Longrightarrow>
    connect_run env (es @ [Identification_Deadline i ec]) c'"
| task: "connect_run env es c \<Longrightarrow> posted c = xs @ p # ys \<Longrightarrow> enqueue_task p (c\<lparr>posted := xs @ ys\<rparr>) = Some c' \<Longrightarrow>
    connect_run env es c'"
| written: "connect_run env es c \<Longrightarrow> writing c = Some b \<Longrightarrow> write_completed ec c = Some c' \<Longrightarrow> connect_run env es c'"
| heartbeat: "connect_run env es c \<Longrightarrow> hc_heartbeats c \<Longrightarrow>
    heartbeat_completed g t ec info (Some c) = Some (info', Some c', next_wait) \<Longrightarrow> connect_run env es c'"

lemma run_handshake_defined:
  assumes "\<not> hc_undefined (run_handshake f c)"
  obtains s where "f (handshake_view c) = Some s" and "handshake_view (run_handshake f c) = s"
    and "keyed (run_handshake f c)" and "subscriptions_map (run_handshake f c) = subscriptions_map c"
proof (cases "f (handshake_view c)")
  case None
  with assms show thesis
    by (simp add: run_handshake_def)
next
  case (Some s)
  with that run_handshake_Some [where f = f and c = c, OF Some] keyed_run [where f = f and c = c, OF Some] show thesis
    by blast
qed

text \<open>The send queue does not touch the handshake.\<close>

definition same_handshake :: "handshake_client \<Rightarrow> handshake_client \<Rightarrow> bool" where
  "same_handshake c c' \<longleftrightarrow> handshake_view c' = handshake_view c \<and> keyed c' = keyed c \<and> subscriptions_map c' = subscriptions_map c"

lemma same_handshake_fields [simp]:
  "same_handshake (c\<lparr>posted := q\<rparr>) d = same_handshake c d" "same_handshake (c\<lparr>message_queue := q\<rparr>) d = same_handshake c d"
  "same_handshake (c\<lparr>writing := w\<rparr>) d = same_handshake c d" "same_handshake c (c\<lparr>message_queue := q\<rparr>)" "same_handshake c (c\<lparr>writing := w\<rparr>)"
  "same_handshake c (c\<lparr>posted := q', message_queue := q\<rparr>)" "same_handshake c (c\<lparr>writing := w, message_queue := q\<rparr>)"
  "same_handshake c (c\<lparr>writing := w, socket_open := b\<rparr>)"
  by (simp_all add: same_handshake_def handshake_view_def keyed_def)

lemma do_async_send_view: "do_async_send c = Some c' \<Longrightarrow> same_handshake c c'"
  by (auto simp: do_async_send_def split: list.splits Option.bind_splits)

lemma sending_view:
  shows "enqueue_task p (c\<lparr>posted := q\<rparr>) = Some c' \<Longrightarrow> same_handshake c c'"
    and "write_completed ec c = Some c' \<Longrightarrow> same_handshake c c'"
proof -
  show "enqueue_task p (c\<lparr>posted := q\<rparr>) = Some c' \<Longrightarrow> same_handshake c c'"
    by (auto simp: enqueue_task_def Let_def split: if_splits dest!: do_async_send_view)
  show "write_completed ec c = Some c' \<Longrightarrow> same_handshake c c'"
    by (auto simp: write_completed_def close_connection_def Let_def split: if_splits list.splits dest!: do_async_send_view)
qed

lemma heartbeat_view:
  assumes "heartbeat_completed g t ec info (Some c) = Some (info', Some c', w)"
  shows "same_handshake c c'"
proof -
  have "same_handshake c (async_send p c)" "same_handshake c (close_connection c)" "same_handshake c c" for p
    by (simp_all add: async_send_def close_connection_def same_handshake_def handshake_view_def keyed_def)
  with assms show ?thesis
    by (auto simp: heartbeat_completed_def heartbeat_initiate_def heartbeat_error_def split: if_splits Option.bind_splits)
qed

lemma connect_run_refines:
  "connect_run env es c \<Longrightarrow> handshake_run env es (handshake_view c) \<and> keyed c \<and> subscriptions_map c = om_empty"
proof (induction rule: connect_run.induct)
  case (tcp g hb ec cs n)
  from tcp [unfolded connect_tcp_def] obtain s where s: "tcp_connected env g hb ec (handshake_view (mk_handshake_client cs n)) = Some s"
      "handshake_view (connect_tcp env g hb ec (mk_handshake_client cs n)) = s"
      "keyed (connect_tcp env g hb ec (mk_handshake_client cs n))"
      "subscriptions_map (connect_tcp env g hb ec (mk_handshake_client cs n)) = om_empty"
    unfolding connect_tcp_def by (rule run_handshake_defined) simp
  then show ?case
    using handshake_run.tcp [of env g hb ec s] by simp
next
  case (receive es c f n g new_guid c' on)
  from dispatched_handshake [OF receive.hyps(2-4) _ _ receive.hyps(5,6)] receive.IH
  have "handshake_frame env (take 16 (drop 6 f)) new_guid (frame_view f n) (handshake_view c) = Some (handshake_view c')"
      "keyed c'" "subscriptions_map c' = om_empty"
    by blast+
  with handshake_run.frame receive.IH show ?case
    by blast
next
  case (authentication es c k c' g ec)
  from authentication.hyps(4) [unfolded authentication.hyps(3)] obtain s where
    "no_throw (authenticate_deadline env k g ec (handshake_view c)) = Some s" "handshake_view c' = s" "keyed c'"
    "subscriptions_map c' = subscriptions_map c"
    unfolding authentication.hyps(3) by (rule run_handshake_defined)
  with handshake_run.authentication authentication show ?case
    by auto
next
  case (identification es c i c' ec)
  from identification.hyps(4) [unfolded identification.hyps(3)] obtain s where
    "no_throw (identify_deadline env i ec (handshake_view c)) = Some s" "handshake_view c' = s" "keyed c'"
    "subscriptions_map c' = subscriptions_map c"
    unfolding identification.hyps(3) by (rule run_handshake_defined)
  moreover have "i < length (hs_identify (handshake_view c))"
    using identification.hyps(2) by (simp add: handshake_view_def)
  ultimately show ?case
    using handshake_run.identification identification.IH by auto
next
  case (task es c xs p ys c')
  with sending_view(1) [OF task.hyps(3)] show ?case
    by (simp add: same_handshake_def)
next
  case (written es c b ec c')
  with sending_view(2) [OF written.hyps(3)] show ?case
    by (simp add: same_handshake_def)
next
  case (heartbeat es c g t ec info info' c' next_wait)
  with heartbeat_view [OF heartbeat.hyps(3)] show ?case
    by (simp add: same_handshake_def)
qed

text \<open>Connecting in three steps: the connected socket, the answer to the authentication, the answer to the
  identification.\<close>

lemma connect_steps:
  assumes "\<not> credentials_null creds" and "creds = cs_default_user_credentials (env_settings env)"
    and "length (username creds) < 256" and "length (password creds) < 256"
    and "is_guid g1" and "is_guid g2" and "g1 \<noteq> g2" and "is_guid g"
    and "request = env_serialize env \<lparr>ic_version = ES_CLIENT_VERSION, ic_connection_name = Some (env_connection_name env)\<rparr>"
    and "24 + length (username creds) + length (password creds) + length request < 2 ^ 32"
    and "22 + length m1 < 2 ^ 32" and "22 + length m2 < 2 ^ 32"
    and "is_guid hb" and "c1 = connect_tcp env g1 hb success (mk_handshake_client cs n)"
  shows "\<exists>p1 p0 p2 v1 v0 v2 c2 c3. posted c1 = [p1, p0] \<and> to_view p1 = Some v1 \<and>
      view_command v1 = Some Authenticate_Command \<and> view_correlation_id v1 = Some g1 \<and>
      view_login v1 = Some (to_bytes (username creds)) \<and> view_password v1 = Some (to_bytes (password creds)) \<and>
      to_view p0 = Some v0 \<and> view_command v0 = Some Heartbeat_Request_Command \<and> view_correlation_id v0 = Some hb \<and>
      (\<forall>(c :: handshake_client) t. socket_open c \<longrightarrow> (\<exists>info. heartbeat_initiate hb t (mk_heartbeat c t) (Some c) =
         Some (info, Some (async_send p0 c), Wait (cs_heartbeat_timeout (settings c))))) \<and>
    package_read (handshake_call env g2) g success
      (unauthenticated_frame Authenticated_Command flags_none g1 m1) (22 + length m1) c1 = Some (c2, True) \<and>
    posted c2 = [p1, p0, p2] \<and> hc_completions c2 = [] \<and> to_view p2 = Some v2 \<and>
      view_command v2 = Some Identify_Client_Command \<and> view_correlation_id v2 = Some g2 \<and>
      view_is_authenticated v2 = Some True \<and> view_message v2 = Some (to_bytes request) \<and>
    package_read (handshake_call env g3) g success
      (unauthenticated_frame Client_Identified_Command flags_none g2 m2) (22 + length m2) c2 = Some (c3, True) \<and>
    hc_completions c3 = [(False, success, Some \<lparr>connection_id = g2\<rparr>)] \<and> operations_map c3 = [] \<and> hc_reading c1 \<and> hc_heartbeats c1 \<and>
    \<not> hc_undefined c1 \<and> \<not> hc_undefined c2 \<and> \<not> hc_undefined c3"
proof -
  let ?f1 = "unauthenticated_frame Authenticated_Command flags_none g1 m1" and ?n1 = "22 + length m1"
  let ?f2 = "unauthenticated_frame Client_Identified_Command flags_none g2 m2" and ?n2 = "22 + length m2"
  have z: "and flags_none flags_authenticated = 0"
    by (rule flags_bits(1))
  have nm: "is_named Authenticate_Command" "is_named Identify_Client_Command" "is_named Authenticated_Command"
      "is_named Client_Identified_Command"
    by (simp_all add: is_named_def)
  note F1 = unauthenticated_frame_ok [OF assms(5) z, of Authenticated_Command m1]
    and F2 = unauthenticated_frame_ok [OF assms(6) z, of Client_Identified_Command m2]
  have v1: "view_command (frame_view ?f1 ?n1) = Some Authenticated_Command"
    and v2: "view_command (frame_view ?f2 ?n2) = Some Client_Identified_Command"
    using frame_view_command [OF F1(1)] frame_view_command [OF F2(1)] F1(2) F2(2) nm(3,4)
    by (simp_all only: command_of_code)
  have "24 + length (username creds) + length (password creds) + length ([] :: bytes) < 2 ^ 32"
    using assms(10) by simp
  from authenticated_package_view [OF nm(1) assms(5,3,4) this] obtain p1 w1 where
    p1: "authenticated_package Authenticate_Command flags_authenticated g1 (username creds) (password creds) [] = Some p1"
      "to_view p1 = Some w1" "view_command w1 = Some Authenticate_Command" "view_correlation_id w1 = Some g1"
      "view_login w1 = Some (to_bytes (username creds))" "view_password w1 = Some (to_bytes (password creds))"
    by blast
  have "24 + length (username creds) + length (password creds) + length (to_bytes request) < 2 ^ 32"
    using assms(10) by simp
  from authenticated_package_view [OF nm(2) assms(6,3,4) this] obtain p2 w2 where
    p2: "authenticated_package Identify_Client_Command flags_authenticated g2 (username creds) (password creds) (to_bytes request) = Some p2"
      "to_view p2 = Some w2" "view_command w2 = Some Identify_Client_Command" "view_correlation_id w2 = Some g2"
      "view_is_authenticated w2 = Some True" "view_message w2 = Some (to_bytes request)"
    by blast
  have nh: "is_named Heartbeat_Request_Command"
    by (simp add: is_named_def)
  obtain p0 w0 where p0: "heartbeat_request hb = Some p0" "to_view p0 = Some w0"
      "view_command w0 = Some Heartbeat_Request_Command" "view_correlation_id w0 = Some hb"
    using unauthenticated_package_view [OF nh z assms(13), of "[]"] by (auto simp: heartbeat_request_def)
  have beat: "\<exists>info. heartbeat_initiate hb t (mk_heartbeat c t) (Some c) =
      Some (info, Some (async_send p0 c), Wait (cs_heartbeat_timeout (settings c)))"
    if "socket_open c" for c :: handshake_client and t
    using heartbeat_initiate_fresh [OF that p0(1), of t t] by blast
  define s1 where "s1 = \<lparr>hs_ops = [(g1, Authenticate_Op False)], hs_sent = [p1, p0], hs_identify = [], hs_completions = [],
    hs_reading = True, hs_heartbeats = True\<rparr>"
  have t: "tcp_connected env g1 hb success handshake_start = Some s1"
    using assms(1,2) p1(1) p0(1) by (simp add: tcp_connected_def heartbeat_start_def authenticate_initiate_def Let_def handshake_start_def
        register_op_def om_empty_def s1_def)
  let ?c0 = "mk_handshake_client cs n"
  have t0: "tcp_connected env g1 hb success (handshake_view ?c0) = Some s1"
    using t by simp
  note run1 = run_handshake_Some [where f = "tcp_connected env g1 hb success" and c = ?c0, OF t0, folded connect_tcp_def, folded assms(14)]
    and keyed1 = keyed_run [where f = "tcp_connected env g1 hb success" and c = ?c0, OF t0, folded connect_tcp_def, folded assms(14)]
  have o1: "map_of (hs_ops s1) g1 = Some (Authenticate_Op False)" "map_of (hs_ops s1) g2 = None"
    using assms(7) by (simp_all add: s1_def)
  from authenticate_frame [OF o1(1) v1 assms(6) o1(2), of env] obtain s2 p where
    s2: "handshake_frame env g1 g2 (frame_view ?f1 ?n1) s1 = Some s2" "hs_completions s2 = []"
      "identify_package env True g2 = Some p" "hs_sent s2 = [p1, p0, p]"
      "map_of (hs_ops s2) = [g2 \<mapsto> Identify_Op True False]"
    using assms(7) by (auto simp: s1_def fun_eq_iff)
  have p: "p = p2"
    using s2(3) p2(1) assms(2,9) by (simp add: identify_package_def Let_def)
  have "handshake_frame env (take 16 (drop 6 ?f1)) g2 (frame_view ?f1 ?n1) (handshake_view c1) = Some s2"
    using s2(1) F1(4) run1(1) by simp
  from dispatch_handshake [OF F1(1) assms(11,8) keyed1 _ this] obtain c2 where
    c2: "package_read (handshake_call env g2) g success ?f1 ?n1 c1 = Some (c2, True)" "handshake_view c2 = s2" "keyed c2"
      "subscriptions_map c2 = om_empty" "hc_undefined c2 = hc_undefined c1" "posted c2 = posted c1 @ drop (length (hc_sent c1)) (hs_sent s2)"
    using run1(4,5) F1(4) by (auto simp: s1_def om_contains_def)
  have sent1: "hc_sent c1 = [p1, p0]" "hc_reading c1" "hc_heartbeats c1"
    using run1(1) by (auto simp: handshake_view_def s1_def)
  have "map_of (hs_ops s2) g2 = Some (Identify_Op True False)"
    using s2(5) by simp
  from identify_frame [OF this v2, of env g3] obtain s3 where
    s3: "handshake_frame env g2 g3 (frame_view ?f2 ?n2) s2 = Some s3"
      "hs_completions s3 = [(False, success, Some \<lparr>connection_id = g2\<rparr>)]" "hs_ops s3 = om_erase g2 (hs_ops s2)"
    using s2(2) by auto
  have "handshake_frame env (take 16 (drop 6 ?f2)) g3 (frame_view ?f2 ?n2) (handshake_view c2) = Some s3"
    using s3(1) F2(4) c2(2) by simp
  from dispatch_handshake [OF F2(1) assms(12,8) c2(3,4) this] obtain c3 where
    c3: "package_read (handshake_call env g3) g success ?f2 ?n2 c2 = Some (c3, True)" "handshake_view c3 = s3" "hc_undefined c3 = hc_undefined c2"
    by blast
  have "map_of (hs_ops s3) = Map.empty"
    using s3(3) s2(5) by (simp add: map_of_om_erase)
  then have "hs_ops s3 = []"
    by (simp add: map_of_eq_empty_iff)
  then have "operations_map c3 = []" "hc_completions c3 = [(False, success, Some \<lparr>connection_id = g2\<rparr>)]" "hc_completions c2 = []"
    using c3(2) c2(2) s3(2) s2(2) by (auto simp: handshake_view_def)
  moreover have "posted c1 = [p1, p0]" "posted c2 = [p1, p0, p2]"
    using run1(2) c2(6) s2(4) sent1 p by (simp_all add: s1_def)
  ultimately show ?thesis
    using c2(1,5) c3(1,3) run1(3) p1(2-) p2(2-) p0(2-) beat sent1 by simp
qed

text \<open>Small credentials fit.\<close>

lemma small_credentials_fit:
  fixes g1 g2 g :: guid
  defines "g1 \<equiv> replicate 16 1" and "g2 \<equiv> replicate 16 2" and "g \<equiv> replicate 16 9"
    and "creds \<equiv> mk_credentials ''u'' ''p''"
  assumes env: "cs_default_user_credentials (env_settings env) = creds" "env_serialize env = (\<lambda>_. ''x'')"
  shows "\<not> credentials_null creds" and "creds = cs_default_user_credentials (env_settings env)"
    and "length (username creds) < 256" and "length (password creds) < 256"
    and "is_guid g1" and "is_guid g2" and "g1 \<noteq> g2" and "is_guid g"
    and "''x'' = env_serialize env \<lparr>ic_version = ES_CLIENT_VERSION, ic_connection_name = Some (env_connection_name env)\<rparr>"
    and "24 + length (username creds) + length (password creds) + length ''x'' < 2 ^ 32"
    and "22 + length ([] :: bytes) < 2 ^ 32"
  by (simp_all add: assms mk_credentials_def credentials_null_def is_guid_def)

lemma heartbeat_id: "is_guid (replicate 16 (4 :: byte))"
  by (simp add: is_guid_def)

lemma sample_env_fits:
  "cs_default_user_credentials (env_settings (sample_env (mk_credentials ''u'' ''p''))) = mk_credentials ''u'' ''p''"
  "env_serialize (sample_env (mk_credentials ''u'' ''p'')) = (\<lambda>_. ''x'')"
  by (simp_all add: sample_env_def with_default_user_credentials_def)

text \<open>A run in which the server confirms both.\<close>

lemma confirmed_connect_run:
  assumes "cs_default_user_credentials (env_settings env) = mk_credentials ''u'' ''p''" "env_serialize env = (\<lambda>_. ''x'')"
  shows "\<exists>es c. connect_run env es c \<and>
     hc_completions c = [(False, success, Some \<lparr>connection_id = replicate 16 2\<rparr>)]"
proof -
  let ?g = "replicate 16 (9 :: byte)"
  let ?c1 = "connect_tcp env (replicate 16 1) (replicate 16 4) success (mk_handshake_client connection_settings_default ''c'')"
  have z: "and flags_none flags_authenticated = 0" and g: "is_guid (replicate 16 (1 :: byte))" "is_guid (replicate 16 (2 :: byte))" "is_guid ?g"
    by (simp_all add: flags_bits is_guid_def)
  note F1 = unauthenticated_frame_ok [OF g(1) z, of Authenticated_Command "[]"]
    and F2 = unauthenticated_frame_ok [OF g(2) z, of Client_Identified_Command "[]"]
  note steps = connect_steps [OF small_credentials_fit [OF assms] small_credentials_fit(11) [OF assms] heartbeat_id refl,
      where ?g3.0 = "replicate 16 3" and
      cs = connection_settings_default and n = "''c''"]
  obtain c2 c3 where c: "\<not> hc_undefined ?c1" "\<not> hc_undefined c2" "\<not> hc_undefined c3"
      "package_read (handshake_call env (replicate 16 2)) ?g success
        (unauthenticated_frame Authenticated_Command flags_none (replicate 16 1) []) 22 ?c1 = Some (c2, True)"
      "package_read (handshake_call env (replicate 16 3)) ?g success
        (unauthenticated_frame Client_Identified_Command flags_none (replicate 16 2) []) 22 c2 = Some (c3, True)"
      "hc_completions c3 = [(False, success, Some \<lparr>connection_id = replicate 16 2\<rparr>)]"
    using steps unfolding list.size add_0_right by blast
  have "connect_run env [Tcp_Completed (replicate 16 1) success] ?c1"
    by (rule connect_run.tcp [OF c(1)])
  from connect_run.receive [OF this _ _ g(3) c(4,2)] F1(1)
  have "\<exists>es. connect_run env es c2"
    by auto
  then obtain es where "connect_run env es c2"
    by blast
  from connect_run.receive [OF this _ _ g(3) c(5,3)] F2(1) c(6) show ?thesis
    by auto
qed

section \<open>Properties\<close>

text \<open>C18: the handshake on the wire refines the handshake.  Whatever valid frames the connection reads, whichever
  deadlines of the handshake complete, and however its send queue works in between, the state of the connection
  is that of a run of the handshake over the same events: the frames are the views of the bytes read, under
  the correlation id at their sixth byte.  So what the user's handler is told is true of the bytes read.\<close>

theorem connect_refines:
  assumes "connect_run env es c"
  shows "handshake_run env es (handshake_view c) \<and>
    (\<forall>(m, ec, r) \<in> set (hc_completions c). ec = success \<longrightarrow>
       (\<exists>k g v. Tcp_Completed k g \<in> set es \<and> (\<exists>new. Frame_Received k new v \<in> set es) \<and>
          view_command v = Some Authenticated_Command))"
proof -
  have run: "handshake_run env es (handshake_view c)"
    using connect_run_refines [OF assms] by blast
  then have inv: "handshake_inv env es (handshake_view c)"
    by (rule handshake_run_inv)
  have "\<exists>k g v. Tcp_Completed k g \<in> set es \<and> (\<exists>new. Frame_Received k new v \<in> set es) \<and> view_command v = Some Authenticated_Command"
    if "(m, success, r) \<in> set (hc_completions c)" for m r
  proof -
    have told: "told_truly env es (handshake_view c) success r"
      using inv that by (auto simp: handshake_inv_def handshake_view_def)
    have "success \<noteq> connection_error Authentication_Failed"
      using failed_connection not_failed_success by metis
    then have "confirmed env es"
      using told by (auto simp: told_truly_def identification_sent_def split: option.splits if_splits)
    then show ?thesis
      by (auto simp: confirmed_def authentication_requested_def)
  qed
  with run show ?thesis
    by auto
qed

theorem connect_refines_witness:
  "\<exists>es s. handshake_run (sample_env (mk_credentials ''u'' ''p'')) es s \<and>
     hs_completions s = [(False, success, Some \<lparr>connection_id = replicate 16 2\<rparr>)] \<and>
     (\<exists>k g v. Frame_Received k g v \<in> set es \<and> view_command v = Some Authenticated_Command)"
proof -
  obtain es c where c: "connect_run (sample_env (mk_credentials ''u'' ''p'')) es c"
      "hc_completions c = [(False, success, Some \<lparr>connection_id = replicate 16 2\<rparr>)]"
    using confirmed_connect_run [OF sample_env_fits] by blast
  from connect_refines [OF c(1)] c(2) show ?thesis
    by (intro exI [of _ es] exI [of _ "handshake_view c"]) (auto simp: handshake_view_def)
qed

text \<open>C6: connecting, from the first package to the user's handler.  With default credentials a connected socket
  posts exactly two packages: the request for authentication with these credentials, and the first heartbeat
  request, which is the one that \<open>heartbeat_op\<close> sends from a fresh state on an open socket.  The bytes of a frame of
  the server that confirms the authentication, under its id, make the connection post one more package, the
  authenticated identification with the serialized request.  The bytes of the frame that answers it
  call the user's handler, once, with success and the id of the identification; no operation
  is left registered, and the connection reads on.\<close>

theorem connect_end_to_end:
  assumes "\<not> credentials_null creds" and "creds = cs_default_user_credentials (env_settings env)"
    and "length (username creds) < 256" and "length (password creds) < 256"
    and "is_guid g1" and "is_guid g2" and "g1 \<noteq> g2" and "is_guid g"
    and "request = env_serialize env \<lparr>ic_version = ES_CLIENT_VERSION, ic_connection_name = Some (env_connection_name env)\<rparr>"
    and "24 + length (username creds) + length (password creds) + length request < 2 ^ 32"
    and "22 + length m1 < 2 ^ 32" and "22 + length m2 < 2 ^ 32"
    and "is_guid hb" and "c1 = connect_tcp env g1 hb success (mk_handshake_client cs n)"
  shows "\<exists>p1 p0 p2 v1 v0 v2 c2 c3. posted c1 = [p1, p0] \<and> to_view p1 = Some v1 \<and>
      view_command v1 = Some Authenticate_Command \<and> view_correlation_id v1 = Some g1 \<and>
      view_login v1 = Some (to_bytes (username creds)) \<and> view_password v1 = Some (to_bytes (password creds)) \<and>
      to_view p0 = Some v0 \<and> view_command v0 = Some Heartbeat_Request_Command \<and> view_correlation_id v0 = Some hb \<and>
      (\<forall>(c :: handshake_client) t. socket_open c \<longrightarrow> (\<exists>info. heartbeat_initiate hb t (mk_heartbeat c t) (Some c) =
         Some (info, Some (async_send p0 c), Wait (cs_heartbeat_timeout (settings c))))) \<and>
    package_read (handshake_call env g2) g success
      (unauthenticated_frame Authenticated_Command flags_none g1 m1) (22 + length m1) c1 = Some (c2, True) \<and>
    posted c2 = [p1, p0, p2] \<and> hc_completions c2 = [] \<and> to_view p2 = Some v2 \<and>
      view_command v2 = Some Identify_Client_Command \<and> view_correlation_id v2 = Some g2 \<and>
      view_is_authenticated v2 = Some True \<and> view_message v2 = Some (to_bytes request) \<and>
    package_read (handshake_call env g3) g success
      (unauthenticated_frame Client_Identified_Command flags_none g2 m2) (22 + length m2) c2 = Some (c3, True) \<and>
    hc_completions c3 = [(False, success, Some \<lparr>connection_id = g2\<rparr>)] \<and> operations_map c3 = [] \<and> hc_reading c1 \<and> hc_heartbeats c1"
  using connect_steps [OF assms] by blast

theorem connect_end_to_end_witness:
  "\<exists>p1 p0 c2 c3. posted (connect_tcp (sample_env (mk_credentials ''u'' ''p'')) (replicate 16 1) (replicate 16 4) success
      (mk_handshake_client connection_settings_default ''c'')) = [p1, p0] \<and>
     package_read (handshake_call (sample_env (mk_credentials ''u'' ''p'')) (replicate 16 3)) (replicate 16 9) success
       (unauthenticated_frame Client_Identified_Command flags_none (replicate 16 2) []) 22 c2 = Some (c3, True) \<and>
     hc_completions c3 = [(False, success, Some \<lparr>connection_id = replicate 16 2\<rparr>)]"
  using connect_end_to_end [OF small_credentials_fit [OF sample_env_fits] small_credentials_fit(11) [OF sample_env_fits]
      heartbeat_id refl, where ?g3.0 = "replicate 16 3" and cs = connection_settings_default and n = "''c''"]
  unfolding list.size add_0_right by (elim exE conjE) blast

end
