(* ===== verification/Connect_Start.thy ===== *)
theory Connect_Start
  imports Cluster_Discovery Handshake_Client
begin

text \<open>
  Connecting from the user's call: \<open>async_connect\<close> of \<open>connection/basic_tcp_connection.hpp\<close> and the chain of
  operations of \<open>tcp/connect.hpp\<close> that lead to the handshake: \<open>connect_op\<close> asks the discovery service for an
  endpoint, \<open>discover_node_endpoints_handler\<close> goes on with it or tells the user, \<open>tcp_connect_op\<close> connects the
  socket to it, and \<open>tcp_connected_handler\<close> starts the handshake of \<open>Handshake_Client\<close>.

  The operations hold the connection weakly: when its last owner lets go of it they return without a word.
  The cluster's discovery service keeps a plain reference to the connection between its attempts.
\<close>

section \<open>Discovery, one task at a time\<close>





section \<open>The connection while it connects\<close>











section \<open>Runs\<close>


section \<open>The tasks are the discovery\<close>




section \<open>The invariant\<close>

abbreviation fresh_client :: "connection_settings \<Rightarrow> string \<Rightarrow> handshake_client" where
  "fresh_client cs name \<equiv> mk_handshake_client cs name"



section \<open>What the user is told\<close>


lemma fresh_view [simp]: "handshake_view (fresh_client cs name) = handshake_start"
  by simp



section \<open>Properties\<close>


lemma fresh_told [simp]: "hc_completions (fresh_client cs name) = []" "\<not> hc_reading (fresh_client cs name)"
  by (simp_all add: mk_handshake_client_def mk_connection_def connection.defs)








end
