(* ===== verification/Connection_Info.thy ===== *)
theory Connection_Info
  imports Handshake
begin

text \<open>
  Small classes and names around the connection: \<open>connection/authentication_info.hpp\<close>,
  \<open>connection/identity_info.hpp\<close>, \<open>connection/reconnection_info.hpp\<close>, \<open>connection/connection_state.hpp\<close>,
  \<open>connection/connection_phase.hpp\<close>, and the keys of stream metadata in \<open>system/metadata.hpp\<close>.

  The first two keep the id and the time of a request of the handshake; \<open>Handshake\<close> keeps the id only,
  because the time is never read.  The others are used by no code of the library.
\<close>

section \<open>The info classes\<close>

text \<open>A duration is a number of ticks of the clock.  The operations of the handshake value-initialise their
  \<open>info_\<close>, which gives the null guid and no time.\<close>

record authentication_info =
  ai_correlation_id :: guid
  ai_timestamp :: int

definition mk_authentication_info :: "guid \<Rightarrow> int \<Rightarrow> authentication_info" where
  "mk_authentication_info correlation_id ts = \<lparr>ai_correlation_id = correlation_id, ai_timestamp = ts\<rparr>"

definition authentication_info_default :: authentication_info where
  "authentication_info_default = mk_authentication_info null_guid 0"

definition ai_set_correlation_id :: "guid \<Rightarrow> authentication_info \<Rightarrow> authentication_info" where
  "ai_set_correlation_id corr_id i = i\<lparr>ai_correlation_id := corr_id\<rparr>"

definition ai_set_timestamp :: "int \<Rightarrow> authentication_info \<Rightarrow> authentication_info" where
  "ai_set_timestamp ts i = i\<lparr>ai_timestamp := ts\<rparr>"

record identity_info =
  ii_correlation_id :: guid
  ii_timestamp :: int

definition mk_identity_info :: "guid \<Rightarrow> int \<Rightarrow> identity_info" where
  "mk_identity_info correlation_id ts = \<lparr>ii_correlation_id = correlation_id, ii_timestamp = ts\<rparr>"

definition identity_info_default :: identity_info where
  "identity_info_default = mk_identity_info null_guid 0"

definition ii_set_correlation_id :: "guid \<Rightarrow> identity_info \<Rightarrow> identity_info" where
  "ii_set_correlation_id correlation_id i = i\<lparr>ii_correlation_id := correlation_id\<rparr>"

definition ii_set_timestamp :: "int \<Rightarrow> identity_info \<Rightarrow> identity_info" where
  "ii_set_timestamp ts i = i\<lparr>ii_timestamp := ts\<rparr>"

record reconnection_info =
  ri_reconnection_attempt_no :: "32 word"
  ri_timestamp :: int

definition mk_reconnection_info :: "32 word \<Rightarrow> int \<Rightarrow> reconnection_info" where
  "mk_reconnection_info no ts = \<lparr>ri_reconnection_attempt_no = no, ri_timestamp = ts\<rparr>"

definition ri_set_reconnection_attempt_no :: "32 word \<Rightarrow> reconnection_info \<Rightarrow> reconnection_info" where
  "ri_set_reconnection_attempt_no no i = i\<lparr>ri_reconnection_attempt_no := no\<rparr>"

definition ri_set_timestamp :: "int \<Rightarrow> reconnection_info \<Rightarrow> reconnection_info" where
  "ri_set_timestamp ts i = i\<lparr>ri_timestamp := ts\<rparr>"

text \<open>What the constructors of \<open>authenticate_op\<close> and \<open>identify_op\<close> leave in their \<open>info_\<close>: the new id and the
  time, in whichever order they are set.\<close>

lemma info_after_construction:
  "ai_set_timestamp now (ai_set_correlation_id g authentication_info_default) = mk_authentication_info g now"
  "ai_set_correlation_id g (ai_set_timestamp now authentication_info_default) = mk_authentication_info g now"
  "ii_set_timestamp now (ii_set_correlation_id g identity_info_default) = mk_identity_info g now"
  "ii_set_correlation_id g (ii_set_timestamp now identity_info_default) = mk_identity_info g now"
  by (simp_all add: ai_set_timestamp_def ai_set_correlation_id_def authentication_info_default_def
      mk_authentication_info_def ii_set_timestamp_def ii_set_correlation_id_def identity_info_default_def
      mk_identity_info_def)

section \<open>States and phases of a connection\<close>

datatype connection_state = State_Init | State_Connecting | State_Connected | State_Closed

datatype connection_phase =
    Phase_Invalid | Phase_Reconnecting | Phase_End_Point_Discovery | Phase_Connection_Establishing
  | Phase_Authentication | Phase_Identification | Phase_Connected

section \<open>Keys of stream metadata\<close>

definition metadata_max_age :: string where "metadata_max_age = ''$maxAge''"
definition metadata_max_count :: string where "metadata_max_count = ''$maxCount''"
definition metadata_truncate_before :: string where "metadata_truncate_before = ''$tb''"
definition metadata_cache_control :: string where "metadata_cache_control = ''$cacheControl''"
definition metadata_acl :: string where "metadata_acl = ''$acl''"
definition metadata_acl_read :: string where "metadata_acl_read = ''$r''"
definition metadata_acl_write :: string where "metadata_acl_write = ''$w''"
definition metadata_acl_delete :: string where "metadata_acl_delete = ''$d''"
definition metadata_acl_meta_read :: string where "metadata_acl_meta_read = ''$mr''"
definition metadata_acl_meta_write :: string where "metadata_acl_meta_write = ''$mw''"
definition metadata_user_stream_acl :: string where "metadata_user_stream_acl = ''$userStreamAcl''"
definition metadata_system_stream_acl :: string where "metadata_system_stream_acl = ''$systemStreamAcl''"

text \<open>No two keys are the same, so that they can be keys of one JSON object.\<close>

lemma metadata_keys_distinct:
  "distinct [metadata_max_age, metadata_max_count, metadata_truncate_before, metadata_cache_control, metadata_acl,
     metadata_acl_read, metadata_acl_write, metadata_acl_delete, metadata_acl_meta_read, metadata_acl_meta_write,
     metadata_user_stream_acl, metadata_system_stream_acl]"
  by (simp add: metadata_max_age_def metadata_max_count_def metadata_truncate_before_def metadata_cache_control_def
      metadata_acl_def metadata_acl_read_def metadata_acl_write_def metadata_acl_delete_def metadata_acl_meta_read_def
      metadata_acl_meta_write_def metadata_user_stream_acl_def metadata_system_stream_acl_def)

end
