(* ===== verification/Subscription_Base.thy ===== *)
theory Subscription_Base
  imports Tcp_Connection Request_Response
begin

text \<open>
  \<open>subscription/subscription_base.hpp\<close>: what all subscriptions have in common.  A derived subscription
  (a record that extends \<open>subscription_base\<close>) gives \<open>on_package_received\<close> and, if it has one, \<open>shutdown\<close>;
  the base registers a package handler that lets the derived class handle a package first and
  then deals with the ways in which the server ends a subscription.

  A handler is a function of the subscription; what it does to its surroundings is the list of its
  effects, in order.  \<open>None\<close> is undefined behaviour, and an exception is \<open>Inl\<close> of its name.  The user's
  handlers are assumed not to call back into the subscription while they run.
\<close>

section \<open>State and effects\<close>

record subscription_base =
  sb_key :: guid
  sb_stream :: string
  sb_last_event_number :: "int option"
  sb_last_commit_position :: "int option"
  sb_subscribed :: bool
  sb_handle_guard :: bool

definition mk_subscription_base :: "guid \<Rightarrow> string \<Rightarrow> subscription_base" where
  "mk_subscription_base key stream = \<lparr>sb_key = key, sb_stream = stream, sb_last_event_number = None,
     sb_last_commit_position = None, sb_subscribed = False, sb_handle_guard = False\<rparr>"

text \<open>The user's event handler (with the retry count of a persistent subscription); \<open>async_send\<close> without and
  with the handler that completes an unsubscription; the posted task that drops the subscription;
  registering in and erasing from the map of subscriptions; the user's dropped handler; the reads and
  the posted task of the catch-up subscriptions.\<close>

datatype sub_effect =
  Event_Appeared resolved_event "int option"
| Send_Package tcp_package
| Send_Unsubscribe tcp_package error_code
| Post_Drop error_code
| Register guid
| Erase guid
| Dropped error_code
| Catch_Up_Stream int int
| Catch_Up_Missed int int
| Catch_Up_All position int
| Catch_Up_All_Missed position int
| Post_Read_Buffer

section \<open>Ending a subscription\<close>

text \<open>\<open>unsubscribe(ec, dropped)\<close>.  \<open>shutdown\<close> is the derived class's, or the identity.\<close>

definition unsubscribe ::
  "string \<Rightarrow> (('a subscription_base_scheme) \<Rightarrow> ('a subscription_base_scheme)) \<Rightarrow> error_code \<Rightarrow>
     ('a subscription_base_scheme) \<Rightarrow> (sub_effect list \<times> ('a subscription_base_scheme)) option"
where
  "unsubscribe serialized shutdown ec s =
    (let s = s\<lparr>sb_subscribed := False\<rparr>;
         s = s\<lparr>sb_handle_guard := True\<rparr>;
         s = shutdown s
     in if ec = subscription_error Unsubscribed
        then do {
          p \<leftarrow> unauthenticated_package Unsubscribe_From_Stream_Command flags_none (sb_key s) (to_bytes serialized);
          Some ([Send_Unsubscribe p ec], s) }
        else Some ([Post_Drop ec], s))"

text \<open>The handler of the answer to the unsubscription, and the posted task.\<close>

definition unsubscribe_answered ::
  "string \<Rightarrow> (('a subscription_base_scheme) \<Rightarrow> ('a subscription_base_scheme)) \<Rightarrow> error_code \<Rightarrow> error_code \<Rightarrow>
     ('a subscription_base_scheme) \<Rightarrow> (sub_effect list \<times> ('a subscription_base_scheme)) option"
where
  "unsubscribe_answered serialized shutdown ec err s =
    (if \<not> failed err then Some ([Erase (sb_key s), Dropped ec], s)
     else unsubscribe serialized shutdown err s)"

definition drop_task :: "error_code \<Rightarrow> ('a subscription_base_scheme) \<Rightarrow> sub_effect list" where
  "drop_task ec s = [Erase (sb_key s), Dropped ec]"

section \<open>The registered package handler\<close>

text \<open>The \<open>switch\<close> on the reason of a dropped subscription: the error code, or \<open>None\<close> where it returns.\<close>

fun drop_reason_switch :: "subscription_drop_reason \<Rightarrow> error_code option" where
  "drop_reason_switch SD_Unsubscribed = Some (subscription_error Unsubscribed)"
| "drop_reason_switch SD_AccessDenied = Some (subscription_error Subscription_Access_Denied)"
| "drop_reason_switch SD_NotFound = Some (subscription_error Not_Found)"
| "drop_reason_switch SD_PersistentSubscriptionDeleted = None"
| "drop_reason_switch SD_SubscriberMaxCountReached = None"
| "drop_reason_switch (SD_Other r) = None"

text \<open>What the base does with a package the derived class leaves to it.  The reason of a \<open>not_handled\<close> is
  parsed, but every branch of its \<open>switch\<close> goes on to the same code.\<close>

definition base_package ::
  "string \<Rightarrow> (bytes \<Rightarrow> subscription_dropped) \<Rightarrow> (('a subscription_base_scheme) \<Rightarrow> ('a subscription_base_scheme)) \<Rightarrow>
     tcp_package_view \<Rightarrow> ('a subscription_base_scheme) \<Rightarrow>
     (sub_effect list \<times> ('a subscription_base_scheme)) option"
where
  "base_package serialized parse_dropped shutdown v s = do {
     c \<leftarrow> view_command v;
     if c = Subscription_Dropped_Command
     then do {
       m \<leftarrow> view_message v;
       case drop_reason_switch (sd_reason (parse_dropped m)) of
         None \<Rightarrow> Some ([], s)
       | Some ec \<Rightarrow> unsubscribe serialized shutdown ec s }
     else if c = Not_Authenticated_Command
     then unsubscribe serialized shutdown (subscription_error Not_Authenticated) s
     else if c = Bad_Request_Command
     then unsubscribe serialized shutdown (communication_error Bad_Request) s
     else if c = Not_Handled_Command
     then (if sb_subscribed s
       then unsubscribe serialized shutdown (subscription_error Unknown) s
       else do { _ \<leftarrow> view_message v;
                 unsubscribe serialized shutdown (connection_error Max_Operation_Retries) s })
     else unsubscribe serialized shutdown (communication_error Server_Error) s }"

text \<open>The lambda that \<open>async_start\<close> registers.\<close>

definition subscription_received ::
  "string \<Rightarrow> (bytes \<Rightarrow> subscription_dropped) \<Rightarrow> (('a subscription_base_scheme) \<Rightarrow> ('a subscription_base_scheme)) \<Rightarrow>
     (tcp_package_view \<Rightarrow> ('a subscription_base_scheme) \<Rightarrow>
        (exn + bool \<times> sub_effect list \<times> ('a subscription_base_scheme)) option) \<Rightarrow>
     error_code \<Rightarrow> tcp_package_view \<Rightarrow> ('a subscription_base_scheme) \<Rightarrow>
     (exn + sub_effect list \<times> ('a subscription_base_scheme)) option"
where
  "subscription_received serialized parse_dropped shutdown on_package ec v s =
    (if sb_handle_guard s then Some (Inr ([], s))
     else if failed ec then map_option Inr (unsubscribe serialized shutdown ec s)
     else do {
       r \<leftarrow> on_package v s;
       case r of
         Inl e \<Rightarrow> Some (Inl e)
       | Inr (handled, effects, s') \<Rightarrow>
           if handled then Some (Inr (effects, s'))
           else map_option (\<lambda>(effects', s''). Inr (effects @ effects', s''))
                  (base_package serialized parse_dropped shutdown v s') })"

text \<open>\<open>async_start\<close> of the base.\<close>

definition base_async_start ::
  "('a subscription_base_scheme) \<Rightarrow> sub_effect list \<times> ('a subscription_base_scheme)"
where
  "base_async_start s = ([Register (sb_key s)], s\<lparr>sb_handle_guard := False\<rparr>)"

text \<open>The user's \<open>unsubscribe()\<close> runs the registered handler with \<open>unsubscribed\<close>; without one \<open>operator[]\<close>
  throws.\<close>

definition user_unsubscribe ::
  "bool \<Rightarrow> string \<Rightarrow> (bytes \<Rightarrow> subscription_dropped) \<Rightarrow> (('a subscription_base_scheme) \<Rightarrow> ('a subscription_base_scheme)) \<Rightarrow>
     (tcp_package_view \<Rightarrow> ('a subscription_base_scheme) \<Rightarrow>
        (exn + bool \<times> sub_effect list \<times> ('a subscription_base_scheme)) option) \<Rightarrow>
     ('a subscription_base_scheme) \<Rightarrow> (exn + sub_effect list \<times> ('a subscription_base_scheme)) option"
where
  "user_unsubscribe registered serialized parse_dropped shutdown on_package s =
    (if registered
     then subscription_received serialized parse_dropped shutdown on_package (subscription_error Unsubscribed) null_view s
     else Some (Inl Out_Of_Range))"

section \<open>What is pending, what is reported\<close>

fun is_drop :: "sub_effect \<Rightarrow> bool" where
  "is_drop (Send_Unsubscribe _ _) = True"
| "is_drop (Post_Drop _) = True"
| "is_drop _ = False"

fun is_event :: "sub_effect \<Rightarrow> bool" where
  "is_event (Event_Appeared _ _) = True"
| "is_event _ = False"

fun is_dropped :: "sub_effect \<Rightarrow> bool" where
  "is_dropped (Dropped _) = True"
| "is_dropped _ = False"

definition drops :: "sub_effect list \<Rightarrow> nat" where
  "drops es = length (filter is_drop es)"

lemma drops_simps [simp]:
  "drops [] = 0" "drops (e # es) = (if is_drop e then Suc (drops es) else drops es)"
  "drops (es @ fs) = drops es + drops fs"
  by (simp_all add: drops_def)

text \<open>No event after a drop has been caused.\<close>

fun orderly :: "bool \<Rightarrow> sub_effect list \<Rightarrow> bool" where
  "orderly locked [] \<longleftrightarrow> True"
| "orderly locked (e # es) \<longleftrightarrow> (is_event e \<longrightarrow> \<not> locked) \<and> orderly (locked \<or> is_drop e) es"

lemma orderly_append: "orderly l (xs @ ys) \<longleftrightarrow> orderly l xs \<and> orderly (l \<or> 0 < drops xs) ys"
  by (induction xs arbitrary: l) auto

lemma orderly_True: "orderly True es \<longleftrightarrow> \<not> (\<exists>e \<in> set es. is_event e)"
  by (induction es) auto

lemma orderly_no_event: "\<not> (\<exists>e \<in> set es. is_event e) \<Longrightarrow> orderly l es"
  by (induction es arbitrary: l) auto

text \<open>The code with which a pending drop will be reported, and how it completes.\<close>

fun complete_drop ::
  "string \<Rightarrow> (('a subscription_base_scheme) \<Rightarrow> ('a subscription_base_scheme)) \<Rightarrow> error_code \<Rightarrow> sub_effect \<Rightarrow>
     ('a subscription_base_scheme) \<Rightarrow> (sub_effect list \<times> ('a subscription_base_scheme)) option"
where
  "complete_drop serialized shutdown err (Send_Unsubscribe p ec) s = unsubscribe_answered serialized shutdown ec err s"
| "complete_drop serialized shutdown err (Post_Drop ec) s = Some (drop_task ec s, s)"
| "complete_drop serialized shutdown err _ s = None"

section \<open>The contract of a derived subscription\<close>

locale derived_subscription =
  fixes shutdown :: "('a subscription_base_scheme) \<Rightarrow> ('a subscription_base_scheme)"
    and on_package :: "tcp_package_view \<Rightarrow> ('a subscription_base_scheme) \<Rightarrow>
        (exn + bool \<times> sub_effect list \<times> ('a subscription_base_scheme)) option"
  assumes shutdown_base: "sb_handle_guard (shutdown s) = sb_handle_guard s" "sb_key (shutdown s) = sb_key s"
    and refused: "on_package v s = Some (Inr (False, effects, s')) \<Longrightarrow> effects = [] \<and> s' = s"
    and handled: "on_package v s = Some (Inr (True, effects, s')) \<Longrightarrow> \<not> sb_handle_guard s \<Longrightarrow>
        drops effects = (if sb_handle_guard s' then 1 else 0) \<and> sb_key s' = sb_key s \<and>
        \<not> (\<exists>e \<in> set effects. is_dropped e) \<and> orderly False effects"
begin

lemma unsubscribe_locks:
  assumes "unsubscribe ser shutdown ec s = Some (effects, s')"
  shows "sb_handle_guard s' \<and> sb_key s' = sb_key s \<and> \<not> (\<exists>e \<in> set effects. is_event e \<or> is_dropped e) \<and>
    (\<exists>e. effects = [e] \<and> is_drop e)"
  using assms
  by (auto simp: unsubscribe_def shutdown_base Let_def split: if_splits Option.bind_splits)

lemma base_package_locks:
  assumes "base_package ser parse shutdown v s = Some (effects, s')" and "\<not> sb_handle_guard s"
  shows "drops effects = (if sb_handle_guard s' then 1 else 0) \<and> sb_key s' = sb_key s \<and>
    \<not> (\<exists>e \<in> set effects. is_event e \<or> is_dropped e)"
  using assms
  by (auto simp: base_package_def dest!: unsubscribe_locks split: if_splits option.splits Option.bind_splits)

text \<open>Once the guard is locked, packages have no effect; and a package locks it exactly when it leaves
  one drop pending.\<close>

lemma received_guarded:
  "sb_handle_guard s \<Longrightarrow> subscription_received ser parse shutdown on_package ec v s = Some (Inr ([], s))"
  by (simp add: subscription_received_def)

lemma received_locks:
  assumes "subscription_received ser parse shutdown on_package ec v s = Some (Inr (effects, s'))"
    and "\<not> sb_handle_guard s"
  shows "drops effects = (if sb_handle_guard s' then 1 else 0) \<and> sb_key s' = sb_key s \<and>
    \<not> (\<exists>e \<in> set effects. is_dropped e) \<and> orderly False effects"
proof (cases "failed ec")
  case True
  then show ?thesis
    using assms by (auto simp: subscription_received_def orderly_no_event dest!: unsubscribe_locks)
next
  case False
  then obtain h es s1 where p: "on_package v s = Some (Inr (h, es, s1))"
    using assms by (auto simp: subscription_received_def split: Option.bind_splits sum.splits)
  show ?thesis
  proof (cases h)
    case True
    then show ?thesis
      using p False assms handled [of v s es s1] by (auto simp: subscription_received_def)
  next
    case h: False
    then have "es = []" "s1 = s"
      using refused p by auto
    then show ?thesis
      using p False h assms
      by (auto simp: subscription_received_def orderly_no_event dest!: base_package_locks)
  qed
qed

end

section \<open>Interleavings\<close>

text \<open>
  The life of a started subscription: packages and errors from the connection reach its handler, the
  user unsubscribes, and a pending drop completes (the answer to the unsubscription arrives, or fails,
  or the posted task runs).  The run is described by the effects so far; a drop is pending once it
  has been caused and until it completes; the handler is registered until it is erased.  This is the whole life
  of a volatile or persistent subscription; the catch-up subscriptions also run handlers of their own reads and
  posted tasks, which \<open>reading_run\<close> of \<open>Catchup_Lives\<close> adds.
\<close>

inductive sub_run ::
  "string \<Rightarrow> (bytes \<Rightarrow> subscription_dropped) \<Rightarrow> (('a subscription_base_scheme) \<Rightarrow> ('a subscription_base_scheme)) \<Rightarrow>
     (tcp_package_view \<Rightarrow> ('a subscription_base_scheme) \<Rightarrow>
        (exn + bool \<times> sub_effect list \<times> ('a subscription_base_scheme)) option) \<Rightarrow>
     sub_effect list \<Rightarrow> sub_effect list \<Rightarrow> bool \<Rightarrow> ('a subscription_base_scheme) \<Rightarrow> bool"
  for ser parse shutdown on_package
where
  start: "\<not> sb_handle_guard s \<Longrightarrow> sub_run ser parse shutdown on_package [] [] True s"
| package: "sub_run ser parse shutdown on_package log pending True s \<Longrightarrow>
    subscription_received ser parse shutdown on_package ec v s = Some (Inr (es, s')) \<Longrightarrow>
    sub_run ser parse shutdown on_package (log @ es) (pending @ filter is_drop es) True s'"
| user: "sub_run ser parse shutdown on_package log pending reg s \<Longrightarrow>
    user_unsubscribe reg ser parse shutdown on_package s = Some (Inr (es, s')) \<Longrightarrow>
    sub_run ser parse shutdown on_package (log @ es) (pending @ filter is_drop es) reg s'"
| complete: "sub_run ser parse shutdown on_package log (xs @ d # ys) reg s \<Longrightarrow>
    complete_drop ser shutdown err d s = Some (es, s') \<Longrightarrow>
    sub_run ser parse shutdown on_package (log @ es) (xs @ ys @ filter is_drop es)
      (reg \<and> \<not> (\<exists>e \<in> set es. e = Erase (sb_key s))) s'"

definition dropped_calls :: "sub_effect list \<Rightarrow> nat" where
  "dropped_calls log = length (filter is_dropped log)"

lemma dropped_calls_simps [simp]:
  "dropped_calls [] = 0" "dropped_calls (es @ fs) = dropped_calls es + dropped_calls fs"
  by (simp_all add: dropped_calls_def)

lemma dropped_calls_none: "\<not> (\<exists>e \<in> set es. is_dropped e) \<Longrightarrow> dropped_calls es = 0"
  by (auto simp: dropped_calls_def filter_empty_conv)

context derived_subscription
begin

lemma complete_drop_cases:
  assumes "complete_drop ser shutdown err d s = Some (es, s')" and "sb_handle_guard s"
  shows "sb_handle_guard s' \<and> orderly True es \<and>
    ((dropped_calls es = 1 \<and> drops es = 0) \<or> (dropped_calls es = 0 \<and> drops es = 1))"
  using assms
  by (cases d)
     (auto simp: unsubscribe_answered_def drop_task_def dropped_calls_def drops_def orderly_True
       dest!: unsubscribe_locks split: if_splits)

text \<open>Nothing is pending before the guard is locked; afterwards the drop is either pending or reported.\<close>

lemma run_inv:
  "sub_run ser parse shutdown on_package log pending reg s \<Longrightarrow>
     (sb_handle_guard s \<longleftrightarrow> 0 < drops log) \<and> orderly False log \<and>
     (if sb_handle_guard s then length pending + dropped_calls log = 1 \<and> (\<forall>d \<in> set pending. is_drop d)
      else pending = [] \<and> dropped_calls log = 0)"
proof (induction rule: sub_run.induct)
  case (package log pending s ec v es s')
  show ?case
  proof (cases "sb_handle_guard s")
    case True
    then show ?thesis
      using package received_guarded [OF True, of ser parse ec v] by simp
  next
    case False
    then show ?thesis
      using package received_locks [OF package.hyps(2) False] dropped_calls_none [of es]
      by (auto simp: drops_def orderly_append)
  qed
next
  case (user log pending reg s es s')
  show ?case
  proof (cases reg)
    case True
    then have r: "subscription_received ser parse shutdown on_package (subscription_error Unsubscribed) null_view s = Some (Inr (es, s'))"
      using user.hyps(2) by (simp add: user_unsubscribe_def)
    show ?thesis
    proof (cases "sb_handle_guard s")
      case True
      then show ?thesis
        using user r received_guarded [OF True, of ser parse "subscription_error Unsubscribed" null_view] by simp
    next
      case False
      then show ?thesis
        using user received_locks [OF r False] dropped_calls_none [of es]
        by (auto simp: drops_def orderly_append)
    qed
  next
    case False
    then show ?thesis
      using user.hyps(2) by (simp add: user_unsubscribe_def)
  qed
next
  case (complete log xs d ys reg s err es s')
  then have g: "sb_handle_guard s"
    by (cases "sb_handle_guard s") auto
  note C = complete_drop_cases [OF complete.hyps(2) g]
  have I: "0 < drops log" "orderly False log" "xs = []" "ys = []" "dropped_calls log = 0"
    using complete.IH g by (auto split: if_splits)
  have "length (filter is_drop es) + dropped_calls es = 1"
    using C by (auto simp: drops_def)
  moreover have "orderly False (log @ es)"
    using C I by (simp add: orderly_append)
  ultimately show ?case
    using C I by simp
qed simp

lemma run_dropped_once: "sub_run ser parse shutdown on_package log pending reg s \<Longrightarrow> dropped_calls log \<le> 1"
  using run_inv [of ser parse log pending reg s] by (auto split: if_splits)

text \<open>After a drop has been caused no event is handed over any more.\<close>

lemma run_quiet:
  assumes "sub_run ser parse shutdown on_package (xs @ ys) pending reg s" and "0 < drops xs"
  shows "\<not> (\<exists>e \<in> set ys. is_event e)"
  using run_inv [OF assms(1)] assms(2) by (auto simp: orderly_append orderly_True)

end

end
