(* ===== verification/Live_Subscriptions.thy ===== *)
theory Live_Subscriptions
  imports Subscription_Base
begin

text \<open>
  \<open>subscription/volatile_subscription.hpp\<close> and \<open>subscription/persistent_subscription.hpp\<close>: the
  subscriptions whose events all come from the server as they appear.  A persistent subscription
  acknowledges them, or reports that it could not handle them.
\<close>

section \<open>Volatile subscriptions\<close>

record volatile_subscription = subscription_base +
  vs_resolve_link_tos :: bool

definition mk_volatile_subscription :: "guid \<Rightarrow> string \<Rightarrow> bool \<Rightarrow> volatile_subscription" where
  "mk_volatile_subscription key stream resolve_link_tos =
     subscription_base.extend (mk_subscription_base key stream)
       (volatile_subscription.fields resolve_link_tos)"

text \<open>\<open>make_volatile_all_subscription\<close>: the stream is the empty string.\<close>

definition mk_volatile_all_subscription :: "guid \<Rightarrow> bool \<Rightarrow> volatile_subscription" where
  "mk_volatile_all_subscription key resolve_link_tos = mk_volatile_subscription key [] resolve_link_tos"

definition volatile_async_start ::
  "(subscribe_to_stream \<Rightarrow> string) \<Rightarrow> user_credentials \<Rightarrow> volatile_subscription \<Rightarrow>
     (sub_effect list \<times> volatile_subscription) option"
where
  "volatile_async_start serialize creds s =
    (let request = \<lparr>ss_event_stream_id = sb_stream s, ss_resolve_link_tos = vs_resolve_link_tos s\<rparr> in do {
       p \<leftarrow> request_package Subscribe_To_Stream_Command creds (sb_key s) (to_bytes (serialize request));
       case base_async_start s of (effects, s) \<Rightarrow> Some (effects @ [Send_Package p], s) })"

definition volatile_on_package ::
  "(bytes \<Rightarrow> subscription_confirmation) \<Rightarrow> (bytes \<Rightarrow> stream_event_appeared) \<Rightarrow> tcp_package_view \<Rightarrow>
     volatile_subscription \<Rightarrow> (exn + bool \<times> sub_effect list \<times> volatile_subscription) option"
where
  "volatile_on_package parse_confirmation parse_event v s = do {
     c \<leftarrow> view_command v;
     if c = Subscription_Confirmation_Command
     then do {
       m \<leftarrow> view_message v;
       let response = parse_confirmation m;
       let s = s\<lparr>sb_last_commit_position := Some (sc_last_commit_position response), sb_subscribed := True\<rparr>;
       Some (Inr (True, [], (case sc_last_event_number response of None \<Rightarrow> s
         | Some n \<Rightarrow> s\<lparr>sb_last_event_number := Some n\<rparr>))) }
     else if c = Stream_Event_Appeared_Command
     then do {
       m \<leftarrow> view_message v;
       (e, _) \<leftarrow> mk_resolved_event (sea_event (parse_event m));
       Some (Inr (True, [Event_Appeared e None], s)) }
     else Some (Inr (False, [], s)) }"

interpretation volatile_sub: derived_subscription "\<lambda>s. s" "volatile_on_package pc pe" for pc pe
  by unfold_locales
     (auto simp: volatile_on_package_def Let_def split: if_splits Option.bind_splits option.splits prod.splits)

section \<open>Persistent subscriptions\<close>

record persistent_subscription = subscription_base +
  pp_group_name :: string
  pp_subscription_id :: string
  pp_allowed_in_flight_messages :: uint
  pp_auto_ack :: bool

definition mk_persistent_subscription :: "guid \<Rightarrow> string \<Rightarrow> string \<Rightarrow> uint \<Rightarrow> bool \<Rightarrow> persistent_subscription" where
  "mk_persistent_subscription key stream group_name allowed auto_ack =
     subscription_base.extend (mk_subscription_base key stream)
       (persistent_subscription.fields group_name [] allowed auto_ack)"

text \<open>\<open>make_persistent_subscription\<close>: the last argument may be left out.\<close>

definition make_persistent_subscription ::
  "guid \<Rightarrow> string \<Rightarrow> string \<Rightarrow> uint \<Rightarrow> bool option \<Rightarrow> persistent_subscription"
where
  "make_persistent_subscription key stream group_name allowed auto_ack =
     mk_persistent_subscription key stream group_name allowed (case auto_ack of None \<Rightarrow> True | Some b \<Rightarrow> b)"

text \<open>\<open>set_allowed_in_flight_messages\<close> takes an \<open>int32\<close>.\<close>

definition persistent_async_start ::
  "(connect_to_persistent_subscription \<Rightarrow> string) \<Rightarrow> user_credentials \<Rightarrow> persistent_subscription \<Rightarrow>
     (sub_effect list \<times> persistent_subscription) option"
where
  "persistent_async_start serialize creds s =
    (let request = \<lparr>cps_subscription_id = pp_group_name s, cps_event_stream_id = sb_stream s,
           cps_allowed_in_flight_messages = sint (pp_allowed_in_flight_messages s)\<rparr> in do {
       p \<leftarrow> request_package Connect_To_Persistent_Subscription_Command creds (sb_key s) (to_bytes (serialize request));
       case base_async_start s of (effects, s) \<Rightarrow> Some (effects @ [Send_Package p], s) })"

section \<open>Acknowledging\<close>

text \<open>The id of the original event; \<open>value()\<close> throws when there is none.\<close>

definition processed_id :: "resolved_event \<Rightarrow> exn + string" where
  "processed_id e = (case original_event e of None \<Rightarrow> Inl Bad_Optional_Access
     | Some r \<Rightarrow> Inr (from_bytes (event_id r)))"

fun processed_ids :: "resolved_event list \<Rightarrow> exn + string list" where
  "processed_ids [] = Inr []"
| "processed_ids (e # es) = (case processed_id e of Inl x \<Rightarrow> Inl x
     | Inr i \<Rightarrow> (case processed_ids es of Inl x \<Rightarrow> Inl x | Inr is \<Rightarrow> Inr (i # is)))"

definition ack_package ::
  "(persistent_subscription_ack_events \<Rightarrow> string) \<Rightarrow> user_credentials \<Rightarrow> persistent_subscription \<Rightarrow> string list \<Rightarrow>
     tcp_package option"
where
  "ack_package serialize creds s ids =
    (let ack = \<lparr>pa_subscription_id = pp_subscription_id s, pa_processed_event_ids = ids\<rparr>
     in request_package Persistent_Subscription_Ack_Events_Command creds (sb_key s) (to_bytes (serialize ack)))"

text \<open>\<open>acknowledge\<close> for one event or guid, and for a range of them.\<close>

definition acknowledge_event ::
  "(persistent_subscription_ack_events \<Rightarrow> string) \<Rightarrow> user_credentials \<Rightarrow> persistent_subscription \<Rightarrow> resolved_event \<Rightarrow>
     (exn + tcp_package) option"
where
  "acknowledge_event serialize creds s e =
    (case processed_id e of Inl x \<Rightarrow> Some (Inl x) | Inr i \<Rightarrow> map_option Inr (ack_package serialize creds s [i]))"

definition acknowledge_guid ::
  "(persistent_subscription_ack_events \<Rightarrow> string) \<Rightarrow> user_credentials \<Rightarrow> persistent_subscription \<Rightarrow> guid \<Rightarrow> tcp_package option"
where
  "acknowledge_guid serialize creds s g = ack_package serialize creds s [from_bytes g]"

definition acknowledge_events ::
  "(persistent_subscription_ack_events \<Rightarrow> string) \<Rightarrow> user_credentials \<Rightarrow> persistent_subscription \<Rightarrow> resolved_event list \<Rightarrow>
     (exn + tcp_package) option"
where
  "acknowledge_events serialize creds s es =
    (case processed_ids es of Inl x \<Rightarrow> Some (Inl x) | Inr ids \<Rightarrow> map_option Inr (ack_package serialize creds s ids))"

definition acknowledge_guids ::
  "(persistent_subscription_ack_events \<Rightarrow> string) \<Rightarrow> user_credentials \<Rightarrow> persistent_subscription \<Rightarrow> guid list \<Rightarrow> tcp_package option"
where
  "acknowledge_guids serialize creds s gs = ack_package serialize creds s (map from_bytes gs)"

definition nak_package ::
  "(persistent_subscription_nak_events \<Rightarrow> string) \<Rightarrow> user_credentials \<Rightarrow> persistent_subscription \<Rightarrow> string list \<Rightarrow>
     nak_action \<Rightarrow> tcp_package option"
where
  "nak_package serialize creds s ids action =
    (let nak = \<lparr>pn_subscription_id = pp_subscription_id s, pn_processed_event_ids = ids,
           pn_message = None, pn_action = action\<rparr>
     in request_package Persistent_Subscription_Nak_Events_Command creds (sb_key s) (to_bytes (serialize nak)))"

definition fail_event ::
  "(persistent_subscription_nak_events \<Rightarrow> string) \<Rightarrow> user_credentials \<Rightarrow> persistent_subscription \<Rightarrow> resolved_event \<Rightarrow>
     nak_action \<Rightarrow> (exn + tcp_package) option"
where
  "fail_event serialize creds s e action =
    (case processed_id e of Inl x \<Rightarrow> Some (Inl x) | Inr i \<Rightarrow> map_option Inr (nak_package serialize creds s [i] action))"

definition fail_guid ::
  "(persistent_subscription_nak_events \<Rightarrow> string) \<Rightarrow> user_credentials \<Rightarrow> persistent_subscription \<Rightarrow> guid \<Rightarrow> nak_action \<Rightarrow>
     tcp_package option"
where
  "fail_guid serialize creds s g action = nak_package serialize creds s [from_bytes g] action"

definition fail_events ::
  "(persistent_subscription_nak_events \<Rightarrow> string) \<Rightarrow> user_credentials \<Rightarrow> persistent_subscription \<Rightarrow> resolved_event list \<Rightarrow>
     nak_action \<Rightarrow> (exn + tcp_package) option"
where
  "fail_events serialize creds s es action =
    (case processed_ids es of Inl x \<Rightarrow> Some (Inl x) | Inr ids \<Rightarrow> map_option Inr (nak_package serialize creds s ids action))"

definition fail_guids ::
  "(persistent_subscription_nak_events \<Rightarrow> string) \<Rightarrow> user_credentials \<Rightarrow> persistent_subscription \<Rightarrow> guid list \<Rightarrow> nak_action \<Rightarrow>
     tcp_package option"
where
  "fail_guids serialize creds s gs action = nak_package serialize creds s (map from_bytes gs) action"

section \<open>Packages of a persistent subscription\<close>

fun persistent_drop_code :: "subscription_drop_reason \<Rightarrow> error_code" where
  "persistent_drop_code SD_AccessDenied = subscription_error Subscription_Access_Denied"
| "persistent_drop_code SD_NotFound = subscription_error Not_Found"
| "persistent_drop_code SD_PersistentSubscriptionDeleted = subscription_error Persistent_Subscription_Deleted"
| "persistent_drop_code SD_SubscriberMaxCountReached = subscription_error Subscriber_Max_Count_Reached"
| "persistent_drop_code SD_Unsubscribed = subscription_error Unsubscribed"
| "persistent_drop_code (SD_Other r) = subscription_error Unsubscribed"

text \<open>\<open>on_package_received\<close>.  \<open>this->unsubscribe(ec)\<close> runs the registered handler again, with the error.  When
  the automatic acknowledgement throws, the event has already been handed over.\<close>

record persistent_codec =
  pk_confirmation :: "bytes \<Rightarrow> persistent_subscription_confirmation"
  pk_event :: "bytes \<Rightarrow> persistent_subscription_stream_event_appeared"
  pk_dropped :: "bytes \<Rightarrow> subscription_dropped"
  pk_ack :: "persistent_subscription_ack_events \<Rightarrow> string"
  pk_unsubscribe :: string

definition persistent_on_package ::
  "persistent_codec \<Rightarrow> user_credentials \<Rightarrow> tcp_package_view \<Rightarrow> persistent_subscription \<Rightarrow>
     (exn + bool \<times> sub_effect list \<times> persistent_subscription) option"
where
  "persistent_on_package codec creds v s = do {
     c \<leftarrow> view_command v;
     if c = Persistent_Subscription_Confirmation_Command
     then do {
       m \<leftarrow> view_message v;
       let response = pk_confirmation codec m;
       let s = s\<lparr>sb_last_commit_position := Some (pc_last_commit_position response), sb_subscribed := True\<rparr>;
       let s = (case pc_last_event_number response of None \<Rightarrow> s | Some n \<Rightarrow> s\<lparr>sb_last_event_number := Some n\<rparr>);
       Some (Inr (True, [], s\<lparr>pp_subscription_id := pc_subscription_id response\<rparr>)) }
     else if c = Persistent_Subscription_Stream_Event_Appeared_Command
     then do {
       m \<leftarrow> view_message v;
       let message = pk_event codec m;
       (resolved, _) \<leftarrow> mk_resolved_indexed_event (pse_event message);
       let appeared = Event_Appeared resolved
             (Some (case pse_retryCount message of None \<Rightarrow> 0 | Some n \<Rightarrow> int32_of n));
       if pp_auto_ack s
       then do {
         r \<leftarrow> acknowledge_event (pk_ack codec) creds s resolved;
         case r of Inl x \<Rightarrow> Some (Inl x) | Inr p \<Rightarrow> Some (Inr (True, [appeared, Send_Package p], s)) }
       else Some (Inr (True, [appeared], s)) }
     else if c = Subscription_Dropped_Command
     then do {
       m \<leftarrow> view_message v;
       let ec = persistent_drop_code (sd_reason (pk_dropped codec m));
       if sb_handle_guard s then Some (Inr (True, [], s))
       else map_option (\<lambda>(effects, s'). Inr (True, effects, s')) (unsubscribe (pk_unsubscribe codec) (\<lambda>s. s) ec s) }
     else Some (Inr (False, [], s)) }"

lemma unsubscribe_id:
  "unsubscribe ser (\<lambda>s. s) ec s = Some (effects, s') \<Longrightarrow>
     s' = s\<lparr>sb_subscribed := False, sb_handle_guard := True\<rparr> \<and> (\<exists>e. effects = [e] \<and> is_drop e) \<and>
     \<not> (\<exists>e \<in> set effects. is_event e \<or> is_dropped e)"
  by (auto simp: unsubscribe_def Let_def split: if_splits Option.bind_splits)

interpretation persistent_sub: derived_subscription "\<lambda>s. s" "persistent_on_package codec creds" for codec creds
  by unfold_locales
     (auto simp: persistent_on_package_def Let_def dest!: unsubscribe_id
       split: if_splits Option.bind_splits option.splits prod.splits sum.splits)

section \<open>Properties\<close>

definition sample_volatile :: volatile_subscription where
  "sample_volatile = mk_volatile_subscription (replicate 16 1) ''s'' True"

lemma sample_volatile_dropped:
  "\<exists>s. sub_run [] parse (\<lambda>s. s) (volatile_on_package pc pe)
     ([Post_Drop operation_aborted] @ [Erase (replicate 16 1), Dropped operation_aborted]) [] False s"
proof -
  let ?run = "sub_run [] parse (\<lambda>s. s) (volatile_on_package pc pe)"
  have ne: "operation_aborted \<noteq> subscription_error Unsubscribed"
    by (metis not_aborted(4))
  have "?run [] [] True sample_volatile"
    by (rule sub_run.start) (simp add: sample_volatile_def mk_volatile_subscription_def
        subscription_base.defs volatile_subscription.defs mk_subscription_base_def)
  then have "?run ([] @ [Post_Drop operation_aborted]) ([] @ filter is_drop [Post_Drop operation_aborted]) True
      (sample_volatile\<lparr>sb_subscribed := False, sb_handle_guard := True\<rparr>)"
    by (rule sub_run.package [where ec = operation_aborted and v = null_view])
       (simp add: subscription_received_def unsubscribe_def ne sample_volatile_def mk_volatile_subscription_def
          subscription_base.defs volatile_subscription.defs mk_subscription_base_def)
  then have r: "?run [Post_Drop operation_aborted] ([] @ Post_Drop operation_aborted # []) True
      (sample_volatile\<lparr>sb_subscribed := False, sb_handle_guard := True\<rparr>)"
    by simp
  from sub_run.complete [OF r, of success "[Erase (replicate 16 1), Dropped operation_aborted]"
      "sample_volatile\<lparr>sb_subscribed := False, sb_handle_guard := True\<rparr>"] show ?thesis
    by (auto simp: drop_task_def sample_volatile_def mk_volatile_subscription_def subscription_base.defs
        volatile_subscription.defs mk_subscription_base_def)
qed

text \<open>Reasons a subscription ignores.  When the server drops a volatile subscription because a
  persistent subscription was deleted, because the number of subscribers is exhausted, or for a reason
  the client does not know, nothing happens: the subscription stays subscribed and registered, and the
  user is never told.\<close>

theorem drop_reasons_ignored:
  assumes "view_command v = Some Subscription_Dropped_Command" and "view_message v = Some m"
    and "sd_reason (parse m) \<notin> {SD_Unsubscribed, SD_AccessDenied, SD_NotFound}"
  shows "subscription_received ser parse (\<lambda>s. s) (volatile_on_package pc pe) success v s = Some (Inr ([], s))"
  using assms
  by (cases "sd_reason (parse m)")
     (simp_all add: subscription_received_def volatile_on_package_def base_package_def)

definition sample_frame_of :: "tcp_command \<Rightarrow> bytes" where
  "sample_frame_of c = unauthenticated_frame c flags_none (replicate 16 1) []"

lemma sample_frame_view:
  assumes "is_named c"
  shows "view_command (frame_view (sample_frame_of c) 22) = Some c"
    and "view_message (frame_view (sample_frame_of c) 22) = Some []"
proof -
  have "is_guid (replicate 16 (1 :: byte))" "and flags_none flags_authenticated = 0"
    by (simp_all add: is_guid_def flags_none_def)
  note F = unauthenticated_frame_ok [OF this, of c "[]"]
  have ok: "frame_ok (sample_frame_of c) 22"
    using F(1) by (simp add: sample_frame_of_def)
  show "view_command (frame_view (sample_frame_of c) 22) = Some c"
    using F(2) frame_view_command [OF ok] command_of_code [OF assms] by (simp only: sample_frame_of_def)
  show "view_message (frame_view (sample_frame_of c) 22) = Some []"
    using F(5) frame_view_message [OF ok] length_unauthenticated_frame [of "replicate 16 1"]
    by (simp add: sample_frame_of_def is_guid_def)
qed

lemma sample_dropped_named: "is_named Subscription_Dropped_Command"
  by (simp add: is_named_def)

theorem drop_reasons_ignored_witness:
  "subscription_received [] (\<lambda>_. \<lparr>sd_reason = SD_SubscriberMaxCountReached\<rparr>) (\<lambda>s. s)
     (volatile_on_package (\<lambda>_. \<lparr>sc_last_commit_position = 0, sc_last_event_number = None\<rparr>)
       (\<lambda>_. \<lparr>sea_event = \<lparr>re_event = None, re_link = None, re_commit_position = 0, re_prepare_position = 0\<rparr>\<rparr>))
     success (frame_view (sample_frame_of Subscription_Dropped_Command) 22) sample_volatile = Some (Inr ([], sample_volatile))"
  by (rule drop_reasons_ignored [OF sample_frame_view [OF sample_dropped_named]]) simp

text \<open>C29: events of a persistent subscription.  A resolved event that can be read and has an original event, a link or an
  event, is handed to the user exactly once, with the server's retry count; with automatic acknowledgement it is then acknowledged by exactly one
  frame, which names the subscription and the id of the original event (the link, when there is one),
  and without it nothing is sent.  The subscription itself is unchanged.\<close>

theorem persistent_event_acknowledged:
  assumes "view_command v = Some Persistent_Subscription_Stream_Event_Appeared_Command"
    and "view_message v = Some m" and "mk_resolved_indexed_event (pse_event (pk_event codec m)) = Some (e, e')"
    and "original_event e = Some r" and "\<not> sb_handle_guard s" and "is_guid (sb_key s)"
  shows "\<exists>effects. subscription_received ser parse (\<lambda>s. s) (persistent_on_package codec creds) success v s =
      Some (Inr (effects, s)) \<and>
    filter is_event effects = [Event_Appeared e (Some (case pse_retryCount (pk_event codec m) of None \<Rightarrow> 0 | Some n \<Rightarrow> int32_of n))] \<and>
    (if pp_auto_ack s
     then \<exists>p. effects = filter is_event effects @ [Send_Package p] \<and>
       request_package Persistent_Subscription_Ack_Events_Command creds (sb_key s)
         (to_bytes (pk_ack codec \<lparr>pa_subscription_id = pp_subscription_id s, pa_processed_event_ids = [from_bytes (event_id r)]\<rparr>)) = Some p
     else effects = filter is_event effects)"
proof -
  have "\<exists>p. request_package c creds (sb_key s) msg = Some p" for c msg
    using unauthenticated_package_frame [of flags_none "sb_key s" c msg]
      authenticated_package_frame [of flags_authenticated "sb_key s" c "username creds" "password creds" msg] assms(6)
    by (auto simp: request_package_def flags_none_def flags_authenticated_def)
  then obtain p where p: "ack_package (pk_ack codec) creds s [from_bytes (event_id r)] = Some p"
    by (auto simp: ack_package_def)
  then have "acknowledge_event (pk_ack codec) creds s e = Some (Inr p)"
    using assms(4) by (simp add: acknowledge_event_def processed_id_def)
  then show ?thesis
    using assms p
    by (cases "pp_auto_ack s")
       (simp_all add: subscription_received_def persistent_on_package_def Let_def ack_package_def)
qed

definition sample_record :: event_record where
  "sample_record = \<lparr>er_event_stream_id = ''s'', er_event_number = 4, er_event_id = replicate 16 (CHR ''a''),
     er_event_type = ''t'', er_data_content_type = 1, er_metadata_content_type = 0, er_data = ''x'',
     er_metadata = None, er_created = None, er_created_epoch = None\<rparr>"

definition sample_persistent_codec :: persistent_codec where
  "sample_persistent_codec = \<lparr>pk_confirmation = (\<lambda>_. \<lparr>pc_last_commit_position = 0, pc_subscription_id = [], pc_last_event_number = None\<rparr>),
     pk_event = (\<lambda>_. \<lparr>pse_event = \<lparr>ri_event = Some sample_record, ri_link = None\<rparr>, pse_retryCount = Some 2\<rparr>),
     pk_dropped = (\<lambda>_. \<lparr>sd_reason = SD_NotFound\<rparr>), pk_ack = (\<lambda>a. concat (pa_processed_event_ids a)), pk_unsubscribe = []\<rparr>"

definition sample_persistent :: persistent_subscription where
  "sample_persistent = \<lparr>sb_key = replicate 16 1, sb_stream = ''s'', sb_last_event_number = None,
     sb_last_commit_position = None, sb_subscribed = True, sb_handle_guard = False, pp_group_name = ''g'',
     pp_subscription_id = ''g'', pp_allowed_in_flight_messages = 10, pp_auto_ack = True\<rparr>"

theorem persistent_event_acknowledged_witness:
  "\<exists>e p. subscription_received [] (\<lambda>_. \<lparr>sd_reason = SD_NotFound\<rparr>) (\<lambda>s. s)
     (persistent_on_package sample_persistent_codec credentials_default) success
     (frame_view (sample_frame_of Persistent_Subscription_Stream_Event_Appeared_Command) 22) sample_persistent =
   Some (Inr ([Event_Appeared e (Some 2), Send_Package p], sample_persistent))"
proof -
  have n: "is_named Persistent_Subscription_Stream_Event_Appeared_Command"
    by (simp add: is_named_def)
  have "mk_resolved_indexed_event (pse_event (pk_event sample_persistent_codec [])) \<noteq> None"
    unfolding mk_resolved_indexed_event_Some
    by (simp add: sample_persistent_codec_def sample_record_def readable_id_def)
  then obtain e e' where e: "mk_resolved_indexed_event (pse_event (pk_event sample_persistent_codec [])) = Some (e, e')"
    by auto
  obtain r where r: "original_event e = Some r"
    using resolved_indexed_shows [OF e] by (auto simp: sample_persistent_codec_def option_rel_Some2)
  have "\<not> sb_handle_guard sample_persistent" "is_guid (sb_key sample_persistent)" "pp_auto_ack sample_persistent"
      "pse_retryCount (pk_event sample_persistent_codec []) = Some 2" "int32_of 2 = 2"
    by (simp_all add: sample_persistent_def is_guid_def sample_persistent_codec_def int32_of_id)
  with persistent_event_acknowledged [OF sample_frame_view [OF n] e r this(1,2),
      of "[]" "\<lambda>_. \<lparr>sd_reason = SD_NotFound\<rparr>" credentials_default] show ?thesis
    by auto
qed

end
