(* ===== verification/Subscription_Client.thy ===== *)
theory Subscription_Client
  imports Client_Operations Live_Subscriptions
begin

text \<open>
  A subscription on the connection itself.  \<open>Subscription_Base\<close> models what a subscription does as a list of
  effects; here the effects are carried out: the lambda of the subscription is registered in the map of
  subscriptions, the request to unsubscribe is an operation with a deadline in the map of operations, under
  the same id, the packages go to the send queue, and the task that drops the subscription is posted to
  the event loop.  The lambdas are called by the dispatch of the connection with the bytes of the
  frames it reads, among any other traffic of the connection.

  Every run of the connection is a run of \<open>Subscription_Base\<close>, so that its facts hold for the bytes on
  the socket.
\<close>

section \<open>State\<close>

text \<open>The lambda of the subscription, the handler of its unsubscription, and everything else.\<close>

datatype sub_handler = Package_Handler | Unsubscribed_Handler error_code | Other_Handler

text \<open>\<open>su_log\<close> records the effects, \<open>su_tasks\<close> the posted tasks that drop the subscription.\<close>

record 's sub_client = "sub_handler client" +
  su_sub :: 's
  su_log :: "sub_effect list"
  su_tasks :: "error_code list"
  su_undefined :: bool

definition mk_sub_client :: "connection_settings \<Rightarrow> string \<Rightarrow> 's \<Rightarrow> 's sub_client" where
  "mk_sub_client cs guid_string s = client.extend (mk_client cs guid_string)
     \<lparr>su_sub = s, su_log = [], su_tasks = [], su_undefined = False\<rparr>"

text \<open>What a derived class gives, and the parts of the protocol library it uses.\<close>

record 's subscription_class =
  dc_unsubscribe :: string
  dc_parse_dropped :: "bytes \<Rightarrow> subscription_dropped"
  dc_shutdown :: "'s \<Rightarrow> 's"
  dc_on_package :: "tcp_package_view \<Rightarrow> 's \<Rightarrow> (exn + bool \<times> sub_effect list \<times> 's) option"

section \<open>Operations\<close>

text \<open>An effect on the connection.  The events and the end of the subscription go to the user, whose handlers
  do not use the connection; the reads of the catch-up subscriptions are modelled with them.\<close>

fun perform :: "sub_effect \<Rightarrow> 's sub_client \<Rightarrow> 's sub_client option" where
  "perform (Send_Package p) c = Some (async_send p c)"
| "perform (Send_Unsubscribe p ec) c = client_send p (Unsubscribed_Handler ec) c"
| "perform (Post_Drop ec) c = Some (c\<lparr>su_tasks := su_tasks c @ [ec]\<rparr>)"
| "perform (Register k) c =
     Some (c\<lparr>subscriptions_map := register_op k (Sub_Handler Package_Handler) (subscriptions_map c)\<rparr>)"
| "perform (Erase k) c = Some (c\<lparr>subscriptions_map := om_erase k (subscriptions_map c)\<rparr>)"
| "perform _ c = Some c"

fun perform_all :: "sub_effect list \<Rightarrow> 's sub_client \<Rightarrow> 's sub_client option" where
  "perform_all [] c = Some c"
| "perform_all (e # es) c = do { c \<leftarrow> perform e c; perform_all es c }"

text \<open>A function of the subscription runs on the connection.\<close>

definition run_sub :: "('s \<Rightarrow> (exn + sub_effect list \<times> 's) option) \<Rightarrow> 's sub_client \<Rightarrow> 's sub_client" where
  "run_sub f c =
    (case f (su_sub c) of
       None \<Rightarrow> c\<lparr>su_undefined := True\<rparr>
     | Some (Inl e) \<Rightarrow> c\<lparr>cl_thrown := Some e\<rparr>
     | Some (Inr (es, s)) \<Rightarrow>
         (case perform_all es (c\<lparr>su_sub := s, su_log := su_log c @ es\<rparr>) of
            None \<Rightarrow> c\<lparr>su_undefined := True\<rparr>
          | Some c' \<Rightarrow> c'))"

text \<open>A call of what is registered.\<close>

definition sub_lambda ::
  "('b subscription_base_scheme) subscription_class \<Rightarrow> error_code \<Rightarrow> tcp_package_view \<Rightarrow>
     ('b subscription_base_scheme) \<Rightarrow> (exn + sub_effect list \<times> ('b subscription_base_scheme)) option"
where
  "sub_lambda d = subscription_received (dc_unsubscribe d) (dc_parse_dropped d) (dc_shutdown d) (dc_on_package d)"

definition unsub_lambda ::
  "('b subscription_base_scheme) subscription_class \<Rightarrow> error_code \<Rightarrow> error_code \<Rightarrow>
     ('b subscription_base_scheme) \<Rightarrow> (exn + sub_effect list \<times> ('b subscription_base_scheme)) option"
where
  "unsub_lambda d ec err s = map_option Inr (unsubscribe_answered (dc_unsubscribe d) (dc_shutdown d) ec err s)"

fun sub_call ::
  "('b subscription_base_scheme) subscription_class \<Rightarrow> sub_handler registered \<Rightarrow> error_code \<Rightarrow> tcp_package_view \<Rightarrow>
     ('b subscription_base_scheme) sub_client \<Rightarrow> ('b subscription_base_scheme) sub_client"
where
  "sub_call d (Op_Handler k h) ec v c =
    (let c = client_call (Op_Handler k h) ec v c in
     case h of Unsubscribed_Handler e \<Rightarrow> run_sub (unsub_lambda d e ec) c | _ \<Rightarrow> c)"
| "sub_call d (Sub_Handler h) ec v c =
    (let c = client_call (Sub_Handler h) ec v c in
     case h of Package_Handler \<Rightarrow> run_sub (sub_lambda d ec v) c | _ \<Rightarrow> c)"

text \<open>\<open>operation_op::operator()\<close>, the completion of a deadline.\<close>

definition sub_call_and_erase ::
  "('b subscription_base_scheme) subscription_class \<Rightarrow> guid \<Rightarrow> error_code \<Rightarrow> tcp_package_view \<Rightarrow>
     ('b subscription_base_scheme) sub_client \<Rightarrow> ('b subscription_base_scheme) sub_client"
where
  "sub_call_and_erase d key ec v c =
    (case om_at key (operations_map c) of
       Inl e \<Rightarrow> c\<lparr>cl_thrown := Some e\<rparr>
     | Inr r \<Rightarrow> (let c = sub_call d r ec v c in c\<lparr>operations_map := om_erase key (operations_map c)\<rparr>))"

definition sub_deadline_completed ::
  "('b subscription_base_scheme) subscription_class \<Rightarrow> guid \<Rightarrow> error_code \<Rightarrow>
     ('b subscription_base_scheme) sub_client \<Rightarrow> ('b subscription_base_scheme) sub_client"
where
  "sub_deadline_completed d key ec c =
    (if \<not> failed ec then sub_call_and_erase d key (connection_error Operation_Timeout) null_view c
     else if ec = operation_aborted then c
     else if om_contains key (operations_map c) then sub_call_and_erase d key ec null_view c
     else c)"

text \<open>The posted task, the user's \<open>unsubscribe()\<close>, and \<open>async_start\<close>.\<close>

definition run_drop_task ::
  "error_code \<Rightarrow> ('b subscription_base_scheme) sub_client \<Rightarrow> ('b subscription_base_scheme) sub_client"
where
  "run_drop_task ec = run_sub (\<lambda>s. Some (Inr (drop_task ec s, s)))"

definition call_unsubscribe ::
  "('b subscription_base_scheme) subscription_class \<Rightarrow> ('b subscription_base_scheme) sub_client \<Rightarrow>
     ('b subscription_base_scheme) sub_client"
where
  "call_unsubscribe d c =
     run_sub (user_unsubscribe (om_contains (sb_key (su_sub c)) (subscriptions_map c)) (dc_unsubscribe d)
       (dc_parse_dropped d) (dc_shutdown d) (dc_on_package d)) c"

definition start_sub :: "('s \<Rightarrow> (sub_effect list \<times> 's) option) \<Rightarrow> 's sub_client \<Rightarrow> 's sub_client option" where
  "start_sub async_start c = do {
     (es, s) \<leftarrow> async_start (su_sub c);
     perform_all es (c\<lparr>su_sub := s\<rparr>) }"

section \<open>Runs\<close>

text \<open>A connection on which the subscription has not been started; other operations may wait on it, and other
  subscriptions, under other ids.\<close>

definition sub_idle :: "('b subscription_base_scheme) sub_client \<Rightarrow> bool" where
  "sub_idle c \<longleftrightarrow> cl_thrown c = None \<and> \<not> su_undefined c \<and> su_log c = [] \<and> su_tasks c = [] \<and>
     (\<forall>(h, _) \<in> set (cl_sub_calls c). h = Other_Handler) \<and>
     (\<forall>(k, r) \<in> set (operations_map c). r = Op_Handler k Other_Handler \<and> k \<noteq> sb_key (su_sub c)) \<and>
     (\<forall>(k, r) \<in> set (subscriptions_map c). r = Sub_Handler Other_Handler \<and> k \<noteq> sb_key (su_sub c))"

text \<open>What can happen next: frames and errors arrive, the send queue works, the deadlines of the operations expire
  or fail, a posted task drops the subscription, the user unsubscribes, and others use the connection
  under their own ids.  Nothing happens after an exception has left a handler.  The error of a failed wait is
  Asio's.\<close>

inductive sub_step ::
  "('b subscription_base_scheme) subscription_class \<Rightarrow> ('b subscription_base_scheme) sub_client \<Rightarrow>
     ('b subscription_base_scheme) sub_client \<Rightarrow> bool"
  for d
where
  receive: "cl_thrown c = None \<Longrightarrow> package_read (sub_call d) g success f n c = Some (c', reads_on) \<Longrightarrow> sub_step d c c'"
| receive_error: "cl_thrown c = None \<Longrightarrow> failed ec \<Longrightarrow> package_read (sub_call d) g ec f n c = Some (c', reads_on) \<Longrightarrow>
    sub_step d c c'"
| task: "cl_thrown c = None \<Longrightarrow> posted c = xs @ p # ys \<Longrightarrow> enqueue_task p (c\<lparr>posted := xs @ ys\<rparr>) = Some c' \<Longrightarrow>
    sub_step d c c'"
| written: "cl_thrown c = None \<Longrightarrow> writing c = Some b \<Longrightarrow> write_completed ec c = Some c' \<Longrightarrow> sub_step d c c'"
| expire: "cl_thrown c = None \<Longrightarrow> map_of (cl_deadlines c) k = Some Waiting \<Longrightarrow>
    sub_step d c (set_timer k (Queued success) c)"
| wait_fails: "cl_thrown c = None \<Longrightarrow> map_of (cl_deadlines c) k = Some Waiting \<Longrightarrow> failed ec \<Longrightarrow>
    ec \<noteq> operation_aborted \<Longrightarrow> ec \<noteq> subscription_error Unsubscribed \<Longrightarrow> sub_step d c (set_timer k (Queued ec) c)"
| deadline: "cl_thrown c = None \<Longrightarrow> map_of (cl_deadlines c) k = Some (Queued ec) \<Longrightarrow>
    sub_step d c (sub_deadline_completed d k ec (set_timer k Completed c))"
| drop: "cl_thrown c = None \<Longrightarrow> su_tasks c = xs @ ec # ys \<Longrightarrow>
    sub_step d c (run_drop_task ec (c\<lparr>su_tasks := xs @ ys\<rparr>))"
| user: "cl_thrown c = None \<Longrightarrow> sub_step d c (call_unsubscribe d c)"
| send: "cl_thrown c = None \<Longrightarrow> package_key p = Some k \<Longrightarrow> k \<noteq> sb_key (su_sub c) \<Longrightarrow>
    map_of (cl_deadlines c) k = None \<Longrightarrow> client_send p Other_Handler c = Some c' \<Longrightarrow> sub_step d c c'"
| notify: "cl_thrown c = None \<Longrightarrow> sub_step d c (async_send p c)"
| subscribe: "cl_thrown c = None \<Longrightarrow> k \<noteq> sb_key (su_sub c) \<Longrightarrow>
    sub_step d c (c\<lparr>subscriptions_map := register_op k (Sub_Handler Other_Handler) (subscriptions_map c)\<rparr>)"
| unsubscribe: "cl_thrown c = None \<Longrightarrow> k \<noteq> sb_key (su_sub c) \<Longrightarrow>
    sub_step d c (c\<lparr>subscriptions_map := om_erase k (subscriptions_map c)\<rparr>)"

text \<open>Of these, what the event loop does on its own: deadlines expire and complete, posted tasks run.\<close>

inductive loop_step ::
  "('b subscription_base_scheme) subscription_class \<Rightarrow> ('b subscription_base_scheme) sub_client \<Rightarrow>
     ('b subscription_base_scheme) sub_client \<Rightarrow> bool"
  for d
where
  expire: "cl_thrown c = None \<Longrightarrow> map_of (cl_deadlines c) k = Some Waiting \<Longrightarrow>
    loop_step d c (set_timer k (Queued success) c)"
| deadline: "cl_thrown c = None \<Longrightarrow> map_of (cl_deadlines c) k = Some (Queued ec) \<Longrightarrow>
    loop_step d c (sub_deadline_completed d k ec (set_timer k Completed c))"
| drop: "cl_thrown c = None \<Longrightarrow> su_tasks c = xs @ ec # ys \<Longrightarrow>
    loop_step d c (run_drop_task ec (c\<lparr>su_tasks := xs @ ys\<rparr>))"

lemma loop_step_sub: "loop_step d c c' \<Longrightarrow> sub_step d c c'"
  by (auto elim!: loop_step.cases intro: sub_step.intros)

inductive sub_client_run ::
  "('b subscription_base_scheme) subscription_class \<Rightarrow>
     (('b subscription_base_scheme) \<Rightarrow> (sub_effect list \<times> ('b subscription_base_scheme)) option) \<Rightarrow>
     ('b subscription_base_scheme) sub_client \<Rightarrow> bool"
  for d async_start
where
  start: "sub_idle c \<Longrightarrow> is_guid (sb_key (su_sub c)) \<Longrightarrow> start_sub async_start c = Some c' \<Longrightarrow>
    sub_client_run d async_start c'"
| step: "sub_client_run d async_start c \<Longrightarrow> sub_step d c c' \<Longrightarrow> \<not> su_undefined c' \<Longrightarrow>
    sub_client_run d async_start c'"

section \<open>What a step leaves alone\<close>

text \<open>The same for the subscription: only the queue of the connection may differ.\<close>

definition same_sub :: "'s sub_client \<Rightarrow> 's sub_client \<Rightarrow> bool" where
  "same_sub c c' \<longleftrightarrow> operations_map c' = operations_map c \<and> subscriptions_map c' = subscriptions_map c \<and>
     cl_deadlines c' = cl_deadlines c \<and> cl_sub_calls c' = cl_sub_calls c \<and> cl_thrown c' = cl_thrown c \<and>
     su_sub c' = su_sub c \<and> su_log c' = su_log c \<and> su_tasks c' = su_tasks c \<and> su_undefined c' = su_undefined c"

lemma same_sub_refl [simp]: "same_sub c c"
  by (simp add: same_sub_def)

lemma same_sub_trans: "same_sub c c' \<Longrightarrow> same_sub c' c'' \<Longrightarrow> same_sub c c''"
  by (simp add: same_sub_def)

lemma do_async_send_sub: "do_async_send c = Some c' \<Longrightarrow> same_sub c c'"
  by (auto simp: do_async_send_def same_sub_def split: list.splits Option.bind_splits)

lemma sending_sub:
  "same_sub c (async_send p c)" "same_sub c (c\<lparr>package_no := n\<rparr>)" "same_sub c (close_connection c)"
  "enqueue_task p (c\<lparr>posted := q\<rparr>) = Some c' \<Longrightarrow> same_sub c c'"
  "write_completed ec c = Some c' \<Longrightarrow> same_sub c c'"
proof -
  show "same_sub c (async_send p c)" "same_sub c (c\<lparr>package_no := n\<rparr>)" "same_sub c (close_connection c)"
    by (simp_all add: async_send_def close_connection_def same_sub_def)
  show "enqueue_task p (c\<lparr>posted := q\<rparr>) = Some c' \<Longrightarrow> same_sub c c'"
    by (auto simp: enqueue_task_def same_sub_def Let_def split: if_splits dest!: do_async_send_sub)
  show "write_completed ec c = Some c' \<Longrightarrow> same_sub c c'"
    by (auto simp: write_completed_def close_connection_def same_sub_def Let_def
        split: if_splits list.splits dest!: do_async_send_sub)
qed

lemma client_call_op:
  "client_call (Op_Handler k h) err v c =
     c\<lparr>cl_deadlines := cl_deadlines (client_cancel k c), cl_calls := cl_calls c @ [(k, h, err, v)]\<rparr>"
  by (simp add: client_cancel_def set_timer_def Let_def)

section \<open>Carrying out effects\<close>

fun calm_effect :: "guid \<Rightarrow> sub_effect \<Rightarrow> bool" where
  "calm_effect key (Register _) = False"
| "calm_effect key (Erase _) = False"
| "calm_effect key (Send_Unsubscribe p _) \<longleftrightarrow> package_key p = Some key"
| "calm_effect key _ = True"

text \<open>How a pending drop will complete, and with which code.\<close>

fun drop_code :: "sub_effect \<Rightarrow> bool \<times> error_code" where
  "drop_code (Send_Unsubscribe _ ec) = (True, ec)"
| "drop_code (Post_Drop ec) = (False, ec)"
| "drop_code _ = (False, success)"

lemma perform_calm:
  assumes "perform e c = Some c'" and "calm_effect key e" and "\<not> is_drop e"
  shows "same_sub c c'"
  using assms by (cases e) (auto simp: sending_sub)

lemma perform_all_calm:
  assumes "perform_all es c = Some c'" and "\<forall>e \<in> set es. calm_effect key e" and "drops es = 0"
  shows "same_sub c c'"
  using assms
proof (induction es arbitrary: c)
  case (Cons e es)
  then obtain c1 where c1: "perform e c = Some c1" "perform_all es c1 = Some c'"
    by (auto split: Option.bind_splits)
  with Cons show ?case
    using perform_calm [OF c1(1), of key] same_sub_trans [of c c1 c'] by (auto split: if_splits)
qed simp

lemma perform_all_append: "perform_all (xs @ ys) c = Option.bind (perform_all xs c) (perform_all ys)"
  by (induction xs arbitrary: c) (auto split: Option.bind_splits)

text \<open>The effects of a package that causes a drop: it is waited for, or posted.\<close>

lemma perform_all_drop:
  assumes "perform_all es c = Some c'" and "\<forall>e \<in> set es. calm_effect key e" and "drops es = 1"
  obtains (sent) ec c1 where "map drop_code (filter is_drop es) = [(True, ec)]"
      and "c1 = client_initiate key (Unsubscribed_Handler ec) c" and "same_sub c1 c'"
  | (posted) ec where "map drop_code (filter is_drop es) = [(False, ec)]"
      and "same_sub (c\<lparr>su_tasks := su_tasks c @ [ec]\<rparr>) c'"
proof -
  have "filter is_drop es \<noteq> []"
    using assms(3) by (auto simp: drops_def)
  then obtain e where e: "e \<in> set es" "is_drop e"
    by (auto simp: filter_empty_conv)
  then obtain xs ys where es: "es = xs @ e # ys"
    using split_list by metis
  then have d: "drops xs = 0" "drops ys = 0"
    using assms(3) e by auto
  then have f: "filter is_drop es = [e]"
    using e es by (simp add: drops_def)
  obtain c1 c2 where c: "perform_all xs c = Some c1" "perform e c1 = Some c2" "perform_all ys c2 = Some c'"
    using assms(1) by (auto simp: es perform_all_append split: Option.bind_splits)
  have 1: "same_sub c c1" and 2: "same_sub c2 c'"
    using perform_all_calm [OF c(1), of key] perform_all_calm [OF c(3), of key] assms(2) d es by auto
  show thesis
  proof (cases e)
    case (Send_Unsubscribe p ec)
    then have c2: "c2 = client_initiate key (Unsubscribed_Handler ec) (async_send p c1)"
      using c(2) assms(2) es by (auto simp: client_send_def)
    have "same_sub (client_initiate key (Unsubscribed_Handler ec) c) c2"
      using 1 by (simp add: c2 same_sub_def client_initiate_def set_timer_def async_send_def)
    with 2 same_sub_trans show thesis
      by (intro sent [OF _ refl]) (auto simp: f Send_Unsubscribe)
  next
    case (Post_Drop ec)
    then have "same_sub (c\<lparr>su_tasks := su_tasks c @ [ec]\<rparr>) c2"
      using c(2) 1 by (auto simp: same_sub_def)
    with 2 same_sub_trans show thesis
      by (intro posted) (auto simp: f Post_Drop)
  qed (use e in auto)
qed

lemma run_sub_cases:
  assumes "\<not> su_undefined (run_sub f c)"
  obtains (thrown) e where "f (su_sub c) = Some (Inl e)" and "run_sub f c = c\<lparr>cl_thrown := Some e\<rparr>"
  | (performed) es s where "f (su_sub c) = Some (Inr (es, s))"
      and "perform_all es (c\<lparr>su_sub := s, su_log := su_log c @ es\<rparr>) = Some (run_sub f c)"
  using assms by (auto simp: run_sub_def split: option.splits sum.splits prod.splits)

section \<open>The dispatch\<close>

text \<open>A frame goes to the operation with its id, which is erased after the call, or else to the subscription with
  its id, or is answered or ignored.\<close>

lemma received_cases:
  assumes "package_read call g success f n c = Some (c', reads_on)"
  obtains (operation) k v r where "view_correlation_id v = Some k" and "map_of (operations_map c) k = Some r"
      and "c' = (let c = call r success v (c\<lparr>package_no := package_no c + 1\<rparr>)
            in c\<lparr>operations_map := om_erase k (operations_map c)\<rparr>)"
  | (subscription) k v r where "view_correlation_id v = Some k" and "map_of (operations_map c) k = None"
      and "map_of (subscriptions_map c) k = Some r" and "c' = call r success v (c\<lparr>package_no := package_no c + 1\<rparr>)"
  | (reply) p where "c' = async_send p (c\<lparr>package_no := package_no c + 1\<rparr>)"
  | (other) "c' = c\<lparr>package_no := package_no c + 1\<rparr>"
proof -
  obtain v where v: "on_package_received call g success v c = Some c'"
    using assms by (auto simp: package_read_def split: Option.bind_splits)
  then obtain i k where i: "view_correlation_id v = Some i" "guid_of i = Some k"
    by (auto simp: on_package_received_def Let_def split: Option.bind_splits)
  then have k: "k = i"
    by (rule view_correlation_id_guid)
  show thesis
  proof (cases "map_of (operations_map c) k")
    case (Some r)
    with v i k show thesis
      by (intro operation [of v k r]) (simp_all add: on_package_received_def om_contains_iff om_at_map_of Let_def)
  next
    case none: None
    show thesis
    proof (cases "map_of (subscriptions_map c) k")
      case (Some r)
      with none v i k show thesis
        by (intro subscription [of v k r]) (simp_all add: on_package_received_def om_contains_iff om_at_map_of Let_def)
    next
      case None
      with none v i have "c' = c\<lparr>package_no := package_no c + 1\<rparr> \<or> (\<exists>p. c' = async_send p (c\<lparr>package_no := package_no c + 1\<rparr>))"
        by (auto simp: on_package_received_def om_contains_iff Let_def split: if_splits Option.bind_splits)
      with reply other show thesis
        by blast
    qed
  qed
qed

section \<open>The invariant\<close>

text \<open>The drop that is waited for.\<close>

definition waiting :: "guid \<Rightarrow> sub_handler registered operations_map \<Rightarrow> (bool \<times> error_code) list" where
  "waiting key m =
    (case map_of m key of Some (Op_Handler _ (Unsubscribed_Handler ec)) \<Rightarrow> [(True, ec)] | _ \<Rightarrow> [])"

definition handlers_ok :: "guid \<Rightarrow> 's sub_client \<Rightarrow> bool" where
  "handlers_ok key c \<longleftrightarrow>
     (\<forall>(k, r) \<in> set (operations_map c).
        \<exists>h. r = Op_Handler k h \<and> (if k = key then \<exists>ec. h = Unsubscribed_Handler ec else h = Other_Handler)) \<and>
     (\<forall>(k, r) \<in> set (subscriptions_map c). r = Sub_Handler (if k = key then Package_Handler else Other_Handler))"

text \<open>A deadline that can still end the wait: with an error that is reported as it is.\<close>

definition deadline_live :: "timer option \<Rightarrow> bool" where
  "deadline_live t \<longleftrightarrow> t = Some Waiting \<or>
     (\<exists>ec. t = Some (Queued ec) \<and> ec \<noteq> operation_aborted \<and> ec \<noteq> subscription_error Unsubscribed)"

text \<open>The subscription is at the end of a run of \<open>Subscription_Base\<close> whose effects are the log; what is pending
  there is what is registered in the map of operations or posted; and the lambda is registered exactly as long
  as the user has not been told.\<close>

definition sub_coupled ::
  "('b subscription_base_scheme) subscription_class \<Rightarrow> guid \<Rightarrow> ('b subscription_base_scheme) sub_client \<Rightarrow> bool"
where
  "sub_coupled d key c \<longleftrightarrow> is_guid key \<and> sb_key (su_sub c) = key \<and> handlers_ok key c \<and>
     (om_contains key (subscriptions_map c) \<longleftrightarrow> dropped_calls (su_log c) = 0) \<and>
     (waiting key (operations_map c) \<noteq> [] \<longrightarrow> deadline_live (map_of (cl_deadlines c) key)) \<and>
     (\<exists>pending. sub_run (dc_unsubscribe d) (dc_parse_dropped d) (dc_shutdown d) (dc_on_package d) (su_log c) pending
          (om_contains key (subscriptions_map c)) (su_sub c) \<and>
        map drop_code pending = waiting key (operations_map c) @ map (Pair False) (su_tasks c))"

lemma sub_coupled_same: "same_sub c c' \<Longrightarrow> sub_coupled d key c' = sub_coupled d key c"
  by (simp add: same_sub_def sub_coupled_def handlers_ok_def)

lemma handlers_ok_fields [simp]:
  "handlers_ok key (c\<lparr>cl_deadlines := dl\<rparr>) = handlers_ok key c" "handlers_ok key (c\<lparr>su_tasks := ts\<rparr>) = handlers_ok key c"
  "handlers_ok key (c\<lparr>su_log := log\<rparr>) = handlers_ok key c" "handlers_ok key (c\<lparr>su_sub := s\<rparr>) = handlers_ok key c"
  by (simp_all add: handlers_ok_def)

lemma sub_coupled_fields [simp]:
  "sub_coupled d key (c\<lparr>cl_thrown := e\<rparr>) = sub_coupled d key c"
  "sub_coupled d key (c\<lparr>cl_sub_calls := xs\<rparr>) = sub_coupled d key c"
  "sub_coupled d key (c\<lparr>cl_calls := ys\<rparr>) = sub_coupled d key c"
  "sub_coupled d key (c\<lparr>cl_calls := ys, cl_deadlines := dl\<rparr>) = sub_coupled d key (c\<lparr>cl_deadlines := dl\<rparr>)"
  by (simp_all add: sub_coupled_def handlers_ok_def)

lemma map_of_register_other: "map_of (register_op k r m) j = (if j = k \<and> map_of m k = None then Some r else map_of m j)"
  by (simp add: map_of_register_op)

lemma handlers_at:
  assumes "handlers_ok key c"
  shows "map_of (operations_map c) key = Some r \<Longrightarrow> \<exists>ec. r = Op_Handler key (Unsubscribed_Handler ec)"
    and "k \<noteq> key \<Longrightarrow> map_of (operations_map c) k = Some r \<Longrightarrow> r = Op_Handler k Other_Handler"
    and "map_of (subscriptions_map c) k = Some r \<Longrightarrow> r = Sub_Handler (if k = key then Package_Handler else Other_Handler)"
    and "waiting key (operations_map c) = [] \<longleftrightarrow> map_of (operations_map c) key = None"
proof -
  show at: "map_of (operations_map c) key = Some r \<Longrightarrow> \<exists>ec. r = Op_Handler key (Unsubscribed_Handler ec)" for r
    using assms by (fastforce simp: handlers_ok_def dest: map_of_SomeD)
  show "k \<noteq> key \<Longrightarrow> map_of (operations_map c) k = Some r \<Longrightarrow> r = Op_Handler k Other_Handler"
    using assms by (fastforce simp: handlers_ok_def dest: map_of_SomeD)
  show "map_of (subscriptions_map c) k = Some r \<Longrightarrow> r = Sub_Handler (if k = key then Package_Handler else Other_Handler)"
    using assms by (fastforce simp: handlers_ok_def dest: map_of_SomeD)
  show "waiting key (operations_map c) = [] \<longleftrightarrow> map_of (operations_map c) key = None"
    using at by (cases "map_of (operations_map c) key") (fastforce simp: waiting_def)+
qed

lemma sub_coupledI:
  assumes "is_guid key" and "sb_key (su_sub c) = key" and "handlers_ok key c"
    and "om_contains key (subscriptions_map c) \<longleftrightarrow> dropped_calls (su_log c) = 0"
    and "waiting key (operations_map c) \<noteq> [] \<Longrightarrow> deadline_live (map_of (cl_deadlines c) key)"
    and "sub_run (dc_unsubscribe d) (dc_parse_dropped d) (dc_shutdown d) (dc_on_package d) (su_log c) pending
          (om_contains key (subscriptions_map c)) (su_sub c)"
    and "map drop_code pending = waiting key (operations_map c) @ map (Pair False) (su_tasks c)"
  shows "sub_coupled d key c"
  using assms unfolding sub_coupled_def by blast

lemma register_op_new: "map_of m k = None \<Longrightarrow> register_op k r m = (k, r) # m"
  using om_contains_iff [of k m] by (simp add: register_op_def om_contains_def)

text \<open>Maps and deadlines of others.\<close>

lemma sub_coupled_cong:
  assumes "sub_coupled d key c" and "su_sub c' = su_sub c" and "su_log c' = su_log c" and "su_tasks c' = su_tasks c"
    and "map_of (operations_map c') key = map_of (operations_map c) key"
    and "map_of (subscriptions_map c') key = map_of (subscriptions_map c) key"
    and "map_of (cl_deadlines c') key = map_of (cl_deadlines c) key" and "handlers_ok key c'"
  shows "sub_coupled d key c'"
proof -
  have eqs: "waiting key (operations_map c') = waiting key (operations_map c)"
      "om_contains key (subscriptions_map c') = om_contains key (subscriptions_map c)"
    using assms(5,6) by (simp_all add: waiting_def om_contains_iff)
  show ?thesis
    using assms(1,8) unfolding sub_coupled_def assms(2-4,7) eqs by blast
qed

lemma sub_coupled_handlers: "sub_coupled d key c \<Longrightarrow> handlers_ok key c"
  by (simp add: sub_coupled_def)

lemma map_of_set_timer: "map_of (cl_deadlines (set_timer k t c)) j = (if j = k then Some t else map_of (cl_deadlines c) j)"
proof -
  have "map_of (filter (\<lambda>e. fst e \<noteq> k) xs) j = (if j = k then None else map_of xs j)" for xs :: "(guid \<times> timer) list"
    by (induction xs) auto
  then show ?thesis
    by (simp add: set_timer_def)
qed

lemma sub_coupled_deadlines:
  assumes "sub_coupled d key c" and "waiting key (operations_map c) \<noteq> [] \<Longrightarrow> deadline_live (map_of dl key)"
  shows "sub_coupled d key (c\<lparr>cl_deadlines := dl\<rparr>)"
proof -
  obtain pending where "sub_run (dc_unsubscribe d) (dc_parse_dropped d) (dc_shutdown d) (dc_on_package d) (su_log c) pending
          (om_contains key (subscriptions_map c)) (su_sub c)"
      "map drop_code pending = waiting key (operations_map c) @ map (Pair False) (su_tasks c)"
    using assms(1) unfolding sub_coupled_def by blast
  then show ?thesis
    using assms by (intro sub_coupledI [where pending = pending]) (simp_all add: sub_coupled_def)
qed

lemma sub_coupled_others:
  assumes "sub_coupled d key c" and "k \<noteq> key"
  shows "sub_coupled d key (set_timer k t c)"
    and "sub_coupled d key (c\<lparr>operations_map := om_erase k (operations_map c)\<rparr>)"
    and "sub_coupled d key (c\<lparr>subscriptions_map := om_erase k (subscriptions_map c)\<rparr>)"
    and "sub_coupled d key (c\<lparr>subscriptions_map := register_op k (Sub_Handler Other_Handler) (subscriptions_map c)\<rparr>)"
    and "sub_coupled d key (c\<lparr>operations_map := register_op k (Op_Handler k Other_Handler) (operations_map c)\<rparr>)"
proof -
  note h = sub_coupled_handlers [OF assms(1)]
  show "sub_coupled d key (set_timer k t c)"
    by (rule sub_coupled_cong [OF assms(1)]) (use assms(2) h in \<open>simp_all add: map_of_set_timer\<close>,
       simp_all add: set_timer_def handlers_ok_def)
  show "sub_coupled d key (c\<lparr>operations_map := om_erase k (operations_map c)\<rparr>)"
    by (rule sub_coupled_cong [OF assms(1)])
       (use assms(2) h in \<open>auto simp: map_of_om_erase\<close>, auto simp: handlers_ok_def om_erase_def)
  show "sub_coupled d key (c\<lparr>subscriptions_map := om_erase k (subscriptions_map c)\<rparr>)"
    by (rule sub_coupled_cong [OF assms(1)])
       (use assms(2) h in \<open>auto simp: map_of_om_erase\<close>, auto simp: handlers_ok_def om_erase_def)
  show "sub_coupled d key (c\<lparr>subscriptions_map := register_op k (Sub_Handler Other_Handler) (subscriptions_map c)\<rparr>)"
    by (rule sub_coupled_cong [OF assms(1)])
       (use assms(2) h in \<open>auto simp: map_of_register_other\<close>, auto simp: handlers_ok_def register_op_def)
  show "sub_coupled d key (c\<lparr>operations_map := register_op k (Op_Handler k Other_Handler) (operations_map c)\<rparr>)"
    by (rule sub_coupled_cong [OF assms(1)])
       (use assms(2) h in \<open>auto simp: map_of_register_other\<close>, auto simp: handlers_ok_def register_op_def)
qed

text \<open>The frames handed to the lambda, and the events of them that were handed to the user: those of the frames
  before the subscription began to end, each once and in order.\<close>

definition sub_frames :: "'s sub_client \<Rightarrow> tcp_package_view list" where
  "sub_frames c = map (\<lambda>(h, ec, v). v) (filter (\<lambda>(h, ec, v). h = Package_Handler) (cl_sub_calls c))"

definition events_told ::
  "(tcp_package_view \<Rightarrow> sub_effect list) \<Rightarrow> guid \<Rightarrow> ('b subscription_base_scheme) sub_client \<Rightarrow> bool"
where
  "events_told events_of key c \<longleftrightarrow> (\<forall>v \<in> set (sub_frames c). view_correlation_id v = Some key) \<and>
     (cl_thrown c = None \<longrightarrow> (\<exists>seen ignored. sub_frames c = seen @ ignored \<and>
        filter is_event (su_log c) = concat (map events_of seen) \<and>
        (ignored \<noteq> [] \<longrightarrow> sb_handle_guard (su_sub c))))"

section \<open>The contract of a class on the connection\<close>

definition class_fits :: "'s subscription_class \<Rightarrow> bool" where
  "class_fits d \<longleftrightarrow> 22 + length (dc_unsubscribe d) < 2 ^ 32"

lemma unsubscribe_calm:
  assumes "unsubscribe ser shutdown ec s = Some (es, s')" and "is_guid (sb_key s)" and "22 + length ser < 2 ^ 32"
    and "\<And>s. sb_key (shutdown s) = sb_key s"
  shows "\<forall>e \<in> set es. calm_effect (sb_key s) e"
proof -
  have z: "and flags_none flags_authenticated = 0" "is_named Unsubscribe_From_Stream_Command"
    by (simp_all add: flags_none_def is_named_def)
  from unauthenticated_package_view [OF z(2,1) assms(2), of "to_bytes ser"] assms(2,3)
  have "package_key p = Some (sb_key s)"
    if "unauthenticated_package Unsubscribe_From_Stream_Command flags_none (sb_key s) (to_bytes ser) = Some p" for p
    using that by (auto simp: package_key_def)
  then show ?thesis
    using assms(1,4) by (auto simp: unsubscribe_def Let_def split: if_splits Option.bind_splits)
qed

locale wired_subscription = derived_subscription "dc_shutdown d" "dc_on_package d"
  for d :: "('b subscription_base_scheme) subscription_class" +
  fixes async_start :: "('b subscription_base_scheme) \<Rightarrow> (sub_effect list \<times> ('b subscription_base_scheme)) option"
    and events_of :: "tcp_package_view \<Rightarrow> sub_effect list"
  assumes starts: "async_start s = Some (es, s') \<Longrightarrow>
        \<exists>p. es = [Register (sb_key s), Send_Package p] \<and> \<not> sb_handle_guard s' \<and> sb_key s' = sb_key s"
    and calm: "dc_on_package d v s = Some (Inr (h, es, s')) \<Longrightarrow> class_fits d \<Longrightarrow> is_guid (sb_key s) \<Longrightarrow>
        \<not> sb_handle_guard s \<Longrightarrow> \<forall>e \<in> set es. calm_effect (sb_key s) e"
    and events: "dc_on_package d v s = Some (Inr (h, es, s')) \<Longrightarrow> \<not> sb_handle_guard s \<Longrightarrow>
        filter is_event es = events_of v"
begin

lemma lambda_spec:
  assumes "sub_lambda d ec v s = Some (Inr (es, s'))" and "\<not> sb_handle_guard s" and "class_fits d" and "is_guid (sb_key s)"
  shows "\<forall>e \<in> set es. calm_effect (sb_key s) e"
    and "drops es = (if sb_handle_guard s' then 1 else 0)" and "sb_key s' = sb_key s" and "dropped_calls es = 0"
    and "\<not> failed ec \<Longrightarrow> filter is_event es = events_of v" and "failed ec \<Longrightarrow> filter is_event es = []"
proof -
  note L = received_locks [OF assms(1) [unfolded sub_lambda_def] assms(2)]
  then show "drops es = (if sb_handle_guard s' then 1 else 0)" "sb_key s' = sb_key s" "dropped_calls es = 0"
    by (simp_all add: dropped_calls_none)
  have unsub: "(\<forall>e \<in> set es. calm_effect (sb_key s) e) \<and> filter is_event es = []"
    if "unsubscribe (dc_unsubscribe d) (dc_shutdown d) ec s = Some (es, s')" for ec es s'
    using unsubscribe_calm [OF that assms(4) _ shutdown_base(2)] assms(3) unsubscribe_locks [OF that]
    by (auto simp: class_fits_def filter_empty_conv)
  have base: "(\<forall>e \<in> set es. calm_effect (sb_key s) e) \<and> filter is_event es = []"
    if "base_package (dc_unsubscribe d) parse (dc_shutdown d) v s = Some (es, s')" for parse es s'
    using that by (auto simp: base_package_def dest!: unsub split: if_splits option.splits Option.bind_splits)
  show "failed ec \<Longrightarrow> filter is_event es = []"
    using assms(1,2) by (auto simp: sub_lambda_def subscription_received_def dest: unsub)
  have "(\<forall>e \<in> set es. calm_effect (sb_key s) e) \<and> filter is_event es = events_of v" if nf: "\<not> failed ec"
  proof -
    obtain h es1 s1 where p: "dc_on_package d v s = Some (Inr (h, es1, s1))"
      using assms(1,2) nf by (auto simp: sub_lambda_def subscription_received_def split: Option.bind_splits sum.splits)
    note C = calm [OF p assms(3,4,2)] events [OF p assms(2)]
    show ?thesis
    proof (cases h)
      case True
      then show ?thesis
        using C p assms(1,2) nf by (simp add: sub_lambda_def subscription_received_def)
    next
      case False
      then have "es1 = []" "s1 = s"
        using refused p by auto
      then show ?thesis
        using C p False assms(1,2) nf base
        by (auto simp: sub_lambda_def subscription_received_def)
    qed
  qed
  then show "\<not> failed ec \<Longrightarrow> filter is_event es = events_of v" "\<forall>e \<in> set es. calm_effect (sb_key s) e"
    using assms(1,2) unsub
    by (blast, cases "failed ec") (fastforce simp: sub_lambda_def subscription_received_def)+
qed

text \<open>A frame for the lambda, or the user's call of it.\<close>

lemma coupled_lambda:
  assumes "sub_coupled d key c" and "class_fits d" and "om_contains key (subscriptions_map c)"
    and "c' = run_sub (sub_lambda d ec v) c" and "\<not> su_undefined c'"
  shows "sub_coupled d key c' \<and> cl_sub_calls c' = cl_sub_calls c \<and>
    (cl_thrown c' = None \<longrightarrow>
      (if sb_handle_guard (su_sub c) then su_log c' = su_log c \<and> sb_handle_guard (su_sub c')
       else filter is_event (su_log c') = filter is_event (su_log c) @ (if failed ec then [] else events_of v)))"
proof -
  let ?sub_run = "sub_run (dc_unsubscribe d) (dc_parse_dropped d) (dc_shutdown d) (dc_on_package d)"
  from assms(1) obtain pending where C: "is_guid key" "sb_key (su_sub c) = key" "handlers_ok key c"
      "dropped_calls (su_log c) = 0" "waiting key (operations_map c) \<noteq> [] \<longrightarrow> deadline_live (map_of (cl_deadlines c) key)"
      and R: "?sub_run (su_log c) pending True (su_sub c)"
      and P: "map drop_code pending = waiting key (operations_map c) @ map (Pair False) (su_tasks c)"
    using assms(3) unfolding sub_coupled_def by auto
  from assms(5) [unfolded assms(4)] show ?thesis
  proof (cases rule: run_sub_cases)
    case (thrown e)
    then show ?thesis
      using assms(1,4) by simp
  next
    case (performed es s)
    define c0 where "c0 = c\<lparr>su_sub := s, su_log := su_log c @ es\<rparr>"
    have c': "perform_all es c0 = Some c'"
      using performed(2) by (simp add: c0_def assms(4))
    have R': "?sub_run (su_log c @ es) (pending @ filter is_drop es) True s"
      using performed(1) by (auto intro: sub_run.package [OF R] simp: sub_lambda_def)
    show ?thesis
    proof (cases "sb_handle_guard (su_sub c)")
      case True
      then have es: "es = []" "s = su_sub c"
        using performed(1) received_guarded [OF True] by (auto simp: sub_lambda_def)
      then have "same_sub c c'"
        using c' by (simp add: c0_def)
      then show ?thesis
        using True assms(1) by (auto simp: sub_coupled_same) (auto simp: same_sub_def)
    next
      case False
      note L = lambda_spec [OF performed(1) False assms(2)]
      have p: "pending = []"
        using run_inv [OF R] False by simp
      then have none: "waiting key (operations_map c) = []" "su_tasks c = []" "map_of (operations_map c) key = None"
        using P handlers_at(4) [OF C(3)] by auto
      have calm: "\<forall>e \<in> set es. calm_effect key e" and key: "sb_key s = key" and none_dropped: "dropped_calls es = 0"
        using L C(1,2) by auto
      have sub: "cl_sub_calls c' = cl_sub_calls c \<and> su_log c' = su_log c @ es \<and> sub_coupled d key c'"
      proof (cases "sb_handle_guard s")
        case False
        then have "same_sub c0 c'" and "filter is_drop es = []"
          using perform_all_calm [OF c' calm] L(2) C(1,2) by (auto simp: drops_def)
        moreover have "sub_coupled d key c0"
          using R' p C key none none_dropped assms(3) \<open>filter is_drop es = []\<close>
          by (auto simp: sub_coupled_def c0_def handlers_ok_def)
        ultimately show ?thesis
          by (auto simp: sub_coupled_same) (auto simp: same_sub_def c0_def)
      next
        case True
        then have "drops es = 1"
          using L(2) C(1,2) by simp
        from c' calm this show ?thesis
        proof (cases rule: perform_all_drop)
          case (sent e c1)
          have "operations_map c1 = (key, Op_Handler key (Unsubscribed_Handler e)) # operations_map c"
            using none(3) by (simp add: sent(2) c0_def client_initiate_def set_timer_def register_op_new)
          then have "sub_coupled d key c1"
            using R' p C key none none_dropped assms(3) sent(1)
            by (intro sub_coupledI [where pending = "filter is_drop es"])
               (simp_all add: sent(2) c0_def client_initiate_def set_timer_def handlers_ok_def waiting_def deadline_live_def)
          with sent(2,3) show ?thesis
            by (auto simp: sub_coupled_same) (auto simp: same_sub_def c0_def client_initiate_def set_timer_def)
        next
          case (posted e)
          have "sub_coupled d key (c0\<lparr>su_tasks := su_tasks c0 @ [e]\<rparr>)"
            using R' p C key none none_dropped assms(3) posted(1)
            by (auto simp: sub_coupled_def c0_def handlers_ok_def waiting_def)
          with posted(2) show ?thesis
            by (auto simp: sub_coupled_same) (auto simp: same_sub_def c0_def)
        qed
      qed
      moreover have "filter is_event es = (if failed ec then [] else events_of v)"
        using L(5,6) C(1,2) by simp
      ultimately show ?thesis
        using False assms(4) by simp
    qed
  qed
qed

text \<open>A pending drop that is waited for or posted is the only one.\<close>

lemma coupled_pending:
  assumes "sub_coupled d key c"
  shows "length (waiting key (operations_map c) @ map (Pair False) (su_tasks c)) + dropped_calls (su_log c) =
      (if sb_handle_guard (su_sub c) then 1 else 0)"
    and "\<not> sb_handle_guard (su_sub c) \<Longrightarrow> dropped_calls (su_log c) = 0"
    and "\<exists>pending. sub_run (dc_unsubscribe d) (dc_parse_dropped d) (dc_shutdown d) (dc_on_package d) (su_log c) pending
          (om_contains key (subscriptions_map c)) (su_sub c) \<and> (\<forall>p \<in> set pending. is_drop p) \<and>
        map drop_code pending = waiting key (operations_map c) @ map (Pair False) (su_tasks c)"
proof -
  obtain pending where R: "sub_run (dc_unsubscribe d) (dc_parse_dropped d) (dc_shutdown d) (dc_on_package d) (su_log c) pending
          (om_contains key (subscriptions_map c)) (su_sub c)"
      and P: "map drop_code pending = waiting key (operations_map c) @ map (Pair False) (su_tasks c)"
    using assms unfolding sub_coupled_def by blast
  note I = run_inv [OF R]
  have "length (waiting key (operations_map c) @ map (Pair False) (su_tasks c)) = length pending"
    using P by (metis length_map)
  with I show "length (waiting key (operations_map c) @ map (Pair False) (su_tasks c)) + dropped_calls (su_log c) =
      (if sb_handle_guard (su_sub c) then 1 else 0)"
    by (auto split: if_splits)
  show "\<not> sb_handle_guard (su_sub c) \<Longrightarrow> dropped_calls (su_log c) = 0"
    using I by simp
  from I have "\<forall>p \<in> set pending. is_drop p"
    by (auto split: if_splits)
  with R P show "\<exists>pending. sub_run (dc_unsubscribe d) (dc_parse_dropped d) (dc_shutdown d) (dc_on_package d) (su_log c) pending
          (om_contains key (subscriptions_map c)) (su_sub c) \<and> (\<forall>p \<in> set pending. is_drop p) \<and>
        map drop_code pending = waiting key (operations_map c) @ map (Pair False) (su_tasks c)"
    by blast
qed

lemma drop_code_cases:
  "is_drop e \<Longrightarrow> drop_code e = (True, ec) \<Longrightarrow> \<exists>p. e = Send_Unsubscribe p ec"
  "is_drop e \<Longrightarrow> drop_code e = (False, ec) \<Longrightarrow> e = Post_Drop ec"
  by (cases e; simp)+

definition sub_keeps :: "('b subscription_base_scheme) sub_client \<Rightarrow> ('b subscription_base_scheme) sub_client \<Rightarrow> bool" where
  "sub_keeps c c' \<longleftrightarrow> cl_sub_calls c' = cl_sub_calls c \<and> filter is_event (su_log c') = filter is_event (su_log c) \<and>
     (sb_handle_guard (su_sub c) \<longrightarrow> sb_handle_guard (su_sub c'))"

text \<open>The answer to the unsubscription, or its failure.  Its deadline may have been cancelled.\<close>

lemma coupled_unsub:
  assumes "sub_coupled d key (c\<lparr>cl_deadlines := dl\<rparr>)" and "map_of (operations_map c) key = Some (Op_Handler k (Unsubscribed_Handler e))"
    and "failed err \<Longrightarrow> err \<noteq> subscription_error Unsubscribed" and "c' = run_sub (unsub_lambda d e err) c"
  shows "sub_coupled d key (c'\<lparr>operations_map := om_erase key (operations_map c')\<rparr>) \<and> sub_keeps c c' \<and>
    cl_thrown c' = cl_thrown c \<and> su_undefined c' = su_undefined c \<and>
    (if failed err then su_tasks c' = [err] \<and> su_log c' = su_log c @ [Post_Drop err]
     else su_log c' = su_log c @ [Erase key, Dropped e])"
proof -
  let ?sub_run = "sub_run (dc_unsubscribe d) (dc_parse_dropped d) (dc_shutdown d) (dc_on_package d)"
  have w: "waiting key (operations_map c) = [(True, e)]"
    using assms(2) by (simp add: waiting_def)
  from coupled_pending(3) [OF assms(1)] obtain pending where
    R: "?sub_run (su_log c) pending (om_contains key (subscriptions_map c)) (su_sub c)" "\<forall>p \<in> set pending. is_drop p"
      "map drop_code pending = (True, e) # map (Pair False) (su_tasks c)"
    by (auto simp: w)
  have guard: "sb_handle_guard (su_sub c)" "dropped_calls (su_log c) = 0" "su_tasks c = []"
    using coupled_pending(1) [OF assms(1)] by (auto simp: w split: if_splits)
  then obtain x where x: "pending = [x]" "is_drop x" "drop_code x = (True, e)"
    using R(2,3) by (auto simp: map_eq_Cons_conv)
  then obtain p where p: "pending = [] @ Send_Unsubscribe p e # []"
    using drop_code_cases(1) by (metis append_Nil)
  have C: "is_guid key" "sb_key (su_sub c) = key" "handlers_ok key c" "om_contains key (subscriptions_map c)"
    using assms(1) guard(2) by (simp_all add: sub_coupled_def)
  have none: "waiting key (om_erase key m) = []" for m :: "sub_handler registered operations_map"
    by (simp add: waiting_def map_of_om_erase)
  have handlers: "handlers_ok key (c\<lparr>operations_map := om_erase key (operations_map c), subscriptions_map := m\<rparr>)"
    if "m = subscriptions_map c \<or> m = om_erase key (subscriptions_map c)" for m
    using C(3) that by (auto simp: handlers_ok_def om_erase_def)
  show ?thesis
  proof (cases "failed err")
    case False
    then have f: "unsub_lambda d e err (su_sub c) = Some (Inr ([Erase key, Dropped e], su_sub c))"
      using C(2) by (simp add: unsub_lambda_def unsubscribe_answered_def)
    then have c': "c' = c\<lparr>su_log := su_log c @ [Erase key, Dropped e], subscriptions_map := om_erase key (subscriptions_map c)\<rparr>"
      by (simp add: assms(4) run_sub_def)
    have "?sub_run (su_log c @ [Erase key, Dropped e]) ([] @ [] @ filter is_drop [Erase key, Dropped e]) False (su_sub c)"
      using sub_run.complete [OF R(1) [unfolded p], of err "[Erase key, Dropped e]" "su_sub c"] f C(2,4) False
      by (simp add: unsubscribe_answered_def)
    then have "sub_coupled d key (c'\<lparr>operations_map := om_erase key (operations_map c')\<rparr>)"
      using C guard none handlers [of "om_erase key (subscriptions_map c)"]
      by (intro sub_coupledI [where pending = "[]"])
         (simp_all add: c' om_contains_iff map_of_om_erase dropped_calls_def handlers_ok_def)
    then show ?thesis
      using False c' guard by (simp add: sub_keeps_def)
  next
    case True
    let ?s = "dc_shutdown d ((su_sub c)\<lparr>sb_subscribed := False, sb_handle_guard := True\<rparr>)"
    have "unsubscribe_answered (dc_unsubscribe d) (dc_shutdown d) e err (su_sub c) = Some ([Post_Drop err], ?s)"
      using True assms(3) by (simp add: unsubscribe_answered_def unsubscribe_def)
    then have c': "c' = c\<lparr>su_sub := ?s, su_log := su_log c @ [Post_Drop err], su_tasks := [err]\<rparr>"
      and R': "?sub_run (su_log c @ [Post_Drop err]) [Post_Drop err] (om_contains key (subscriptions_map c)) ?s"
      using sub_run.complete [OF R(1) [unfolded p], of err "[Post_Drop err]" ?s] guard
      by (simp_all add: assms(4) run_sub_def unsub_lambda_def)
    then have "sub_coupled d key (c'\<lparr>operations_map := om_erase key (operations_map c')\<rparr>)"
      using C guard none handlers [of "subscriptions_map c"]
      by (intro sub_coupledI [where pending = "[Post_Drop err]"])
         (simp_all add: c' shutdown_base handlers_ok_def dropped_calls_def)
    then show ?thesis
      using True c' guard by (simp add: sub_keeps_def shutdown_base)
  qed
qed

text \<open>The posted task.\<close>

lemma coupled_task:
  assumes "sub_coupled d key c" and "su_tasks c = xs @ ec # ys" and "c' = run_drop_task ec (c\<lparr>su_tasks := xs @ ys\<rparr>)"
  shows "sub_coupled d key c' \<and> sub_keeps c c' \<and> cl_thrown c' = cl_thrown c \<and> su_undefined c' = su_undefined c \<and>
    su_log c' = su_log c @ [Erase key, Dropped ec]"
proof -
  let ?sub_run = "sub_run (dc_unsubscribe d) (dc_parse_dropped d) (dc_shutdown d) (dc_on_package d)"
  have one: "xs = []" "ys = []" "waiting key (operations_map c) = []" "dropped_calls (su_log c) = 0"
      "sb_handle_guard (su_sub c)"
    using coupled_pending(1) [OF assms(1)] assms(2) by (auto split: if_splits)
  from coupled_pending(3) [OF assms(1)] obtain pending where
    R: "?sub_run (su_log c) pending (om_contains key (subscriptions_map c)) (su_sub c)" "\<forall>p \<in> set pending. is_drop p"
      "map drop_code pending = [(False, ec)]"
    using one assms(2) by auto
  then have p: "pending = [] @ Post_Drop ec # []"
    by (auto simp: map_eq_Cons_conv dest: drop_code_cases(2))
  have C: "is_guid key" "sb_key (su_sub c) = key" "handlers_ok key c" "om_contains key (subscriptions_map c)"
    using assms(1) one(4) by (simp_all add: sub_coupled_def)
  have c': "c' = c\<lparr>su_tasks := [], su_log := su_log c @ [Erase key, Dropped ec], subscriptions_map := om_erase key (subscriptions_map c)\<rparr>"
    using C(2) one by (simp add: assms(3) run_drop_task_def run_sub_def drop_task_def)
  have "?sub_run (su_log c @ [Erase key, Dropped ec]) ([] @ [] @ filter is_drop [Erase key, Dropped ec]) False (su_sub c)"
    using sub_run.complete [OF R(1) [unfolded p], of success "[Erase key, Dropped ec]" "su_sub c"] C(2,4)
    by (simp add: drop_task_def)
  moreover have "handlers_ok key c'"
    using C(3) by (auto simp: c' handlers_ok_def om_erase_def)
  ultimately have "sub_coupled d key c'"
    using C one by (intro sub_coupledI [where pending = "[]"])
      (simp_all add: c' om_contains_iff map_of_om_erase dropped_calls_def)
  then show ?thesis
    by (simp add: c' sub_keeps_def)
qed

text \<open>The call of a registered operation, which is erased after it.\<close>

lemma coupled_operation:
  assumes "sub_coupled d key (c\<lparr>cl_deadlines := dl\<rparr>)" and "k \<noteq> key \<Longrightarrow> sub_coupled d key c"
    and "map_of (operations_map c) k = Some r"
    and "failed err \<Longrightarrow> k = key \<Longrightarrow> err \<noteq> subscription_error Unsubscribed" and "c1 = sub_call d r err v c"
    and "c' = c1\<lparr>operations_map := om_erase k (operations_map c1)\<rparr>"
  shows "sub_coupled d key c' \<and> sub_keeps c c' \<and> cl_thrown c' = cl_thrown c \<and> su_undefined c' = su_undefined c"
    and "k = key \<Longrightarrow> if failed err then su_tasks c' = [err] \<and> dropped_calls (su_log c') = 0
      else dropped_calls (su_log c') = 1"
proof -
  note h = handlers_at [OF sub_coupled_handlers [OF assms(1)], simplified]
  have "(sub_coupled d key c' \<and> sub_keeps c c' \<and> cl_thrown c' = cl_thrown c \<and> su_undefined c' = su_undefined c) \<and>
    (k = key \<longrightarrow> (if failed err then su_tasks c' = [err] \<and> dropped_calls (su_log c') = 0 else dropped_calls (su_log c') = 1))"
  proof (cases "k = key")
    case True
    then obtain e where r: "r = Op_Handler key (Unsubscribed_Handler e)"
      using h(1) assms(3) by blast
    define c0 where "c0 = client_call r err v c"
    have c0: "c0 = c\<lparr>cl_deadlines := cl_deadlines (client_cancel key c), cl_calls := cl_calls c @ [(key, Unsubscribed_Handler e, err, v)]\<rparr>"
      by (simp add: c0_def r client_call_op del: client_call.simps)
    have "sub_coupled d key (c0\<lparr>cl_deadlines := dl\<rparr>)"
      using assms(1) by (simp add: c0)
    moreover have "map_of (operations_map c0) key = Some (Op_Handler key (Unsubscribed_Handler e))"
      using True assms(3) r by (simp add: c0)
    ultimately have U: "sub_coupled d key ((run_sub (unsub_lambda d e err) c0)\<lparr>operations_map :=
          om_erase key (operations_map (run_sub (unsub_lambda d e err) c0))\<rparr>)"
        "sub_keeps c0 (run_sub (unsub_lambda d e err) c0)" "cl_thrown (run_sub (unsub_lambda d e err) c0) = cl_thrown c0"
        "su_undefined (run_sub (unsub_lambda d e err) c0) = su_undefined c0"
        "if failed err then su_tasks (run_sub (unsub_lambda d e err) c0) = [err] \<and>
           su_log (run_sub (unsub_lambda d e err) c0) = su_log c0 @ [Post_Drop err]
         else su_log (run_sub (unsub_lambda d e err) c0) = su_log c0 @ [Erase key, Dropped e]"
      using coupled_unsub [where c = c0 and dl = dl and key = key and e = e and k = key and err = err, OF _ _ _ refl]
        assms(4) True by blast+
    have "c1 = run_sub (unsub_lambda d e err) c0"
      by (simp add: assms(5) r c0_def Let_def del: client_call.simps)
    moreover have "dropped_calls (su_log c) = 0"
      using coupled_pending(1) [OF assms(1)] True assms(3) r by (auto simp: waiting_def split: if_splits)
    ultimately show ?thesis
      using U True by (auto simp: assms(6) sub_keeps_def c0 dropped_calls_def split: if_splits)
  next
    case False
    then have c1: "c1 = client_call (Op_Handler k Other_Handler) err v c"
      using h(2) [OF False assms(3)] by (simp add: assms(5) Let_def del: client_call.simps)
    have "sub_coupled d key (client_cancel k c)"
      using sub_coupled_others(1) [OF assms(2) False] assms(2) False by (simp add: client_cancel_def)
    moreover have "c1 = (client_cancel k c)\<lparr>cl_calls := cl_calls c @ [(k, Other_Handler, err, v)]\<rparr>"
      by (simp add: c1 client_call_op client_cancel_def set_timer_def del: client_call.simps)
    ultimately have "sub_coupled d key c1"
      by simp
    from sub_coupled_others(2) [OF this False] False show ?thesis
      by (simp add: assms(6) sub_keeps_def c1 client_call_op del: client_call.simps)
  qed
  then show "sub_coupled d key c' \<and> sub_keeps c c' \<and> cl_thrown c' = cl_thrown c \<and> su_undefined c' = su_undefined c"
    "k = key \<Longrightarrow> if failed err then su_tasks c' = [err] \<and> dropped_calls (su_log c') = 0 else dropped_calls (su_log c') = 1"
    by simp_all
qed

text \<open>The completion of a deadline.\<close>

lemma coupled_deadline:
  assumes "sub_coupled d key c" and "map_of (cl_deadlines c) k = Some (Queued ec)" and "cl_thrown c = None"
    and "c' = sub_deadline_completed d k ec (set_timer k Completed c)"
  shows "sub_coupled d key c' \<and> sub_keeps c c' \<and> su_undefined c' = su_undefined c"
    and "k = key \<Longrightarrow> waiting key (operations_map c) \<noteq> [] \<Longrightarrow> cl_thrown c' = None \<and> su_tasks c' \<noteq> [] \<and> dropped_calls (su_log c') = 0"
proof -
  let ?c = "set_timer k Completed c"
  have fields: "operations_map ?c = operations_map c" "cl_thrown ?c = cl_thrown c" "su_undefined ?c = su_undefined c"
      "sub_keeps c ?c"
    by (simp_all add: set_timer_def sub_keeps_def)
  note h = handlers_at(4) [OF sub_coupled_handlers [OF assms(1)]]
  have live: "map_of (operations_map c) key \<noteq> None \<Longrightarrow> deadline_live (map_of (cl_deadlines c) key)"
    using assms(1) h by (simp add: sub_coupled_def)
  have called: "sub_coupled d key (sub_call_and_erase d k err null_view ?c) \<and> sub_keeps c (sub_call_and_erase d k err null_view ?c) \<and>
      su_undefined (sub_call_and_erase d k err null_view ?c) = su_undefined c \<and>
      cl_thrown (sub_call_and_erase d k err null_view ?c) = None \<and>
      (k = key \<longrightarrow> su_tasks (sub_call_and_erase d k err null_view ?c) \<noteq> [] \<and>
         dropped_calls (su_log (sub_call_and_erase d k err null_view ?c)) = 0)"
    if r: "map_of (operations_map c) k = Some r" and err: "failed err" "k = key \<longrightarrow> err \<noteq> subscription_error Unsubscribed" for r err
  proof -
    have e: "sub_call_and_erase d k err null_view ?c = (sub_call d r err null_view ?c)
        \<lparr>operations_map := om_erase k (operations_map (sub_call d r err null_view ?c))\<rparr>"
      using r by (simp add: sub_call_and_erase_def om_at_map_of fields Let_def)
    have "sub_coupled d key (?c\<lparr>cl_deadlines := cl_deadlines c\<rparr>)" "map_of (operations_map ?c) k = Some r"
      using assms(1) r by (simp_all add: set_timer_def)
    from coupled_operation [OF this(1) sub_coupled_others(1) [OF assms(1)] this(2) _ refl e] err fields assms(3)
    show ?thesis
      by (auto simp: sub_keeps_def)
  qed
  have miss: "sub_coupled d key ?c" if "k \<noteq> key \<or> map_of (operations_map c) k = None"
  proof (cases "k = key")
    case False
    then show ?thesis
      using sub_coupled_others(1) [OF assms(1)] by blast
  next
    case True
    then have "waiting key (operations_map c) = []"
      using that h by simp
    then show ?thesis
      using sub_coupled_deadlines [OF assms(1)] by (simp add: set_timer_def)
  qed
  have cond: "ec \<noteq> operation_aborted \<and> ec \<noteq> subscription_error Unsubscribed" if "k = key" "map_of (operations_map c) k \<noteq> None"
    using live that assms(2) by (auto simp: deadline_live_def)
  have "connection_error Operation_Timeout \<noteq> subscription_error Unsubscribed"
    by simp
  then have "(sub_coupled d key c' \<and> sub_keeps c c' \<and> su_undefined c' = su_undefined c) \<and>
    (k = key \<and> map_of (operations_map c) k \<noteq> None \<longrightarrow> cl_thrown c' = None \<and> su_tasks c' \<noteq> [] \<and> dropped_calls (su_log c') = 0)"
  proof (cases "map_of (operations_map c) k")
    case None
    have "c' = ?c \<or> c' = ?c\<lparr>cl_thrown := Some Out_Of_Range\<rparr>"
      using None by (simp add: assms(4) sub_deadline_completed_def sub_call_and_erase_def om_at_map_of om_contains_iff fields)
    then show ?thesis
      using miss None fields by (auto simp: sub_keeps_def)
  next
    case (Some r)
    note call = called [OF Some]
    show ?thesis
    proof (cases "failed ec")
      case False
      then show ?thesis
        using call [of "connection_error Operation_Timeout"] by (auto simp: assms(4) sub_deadline_completed_def)
    next
      case True
      show ?thesis
      proof (cases "ec = operation_aborted")
        case True
        then have "k \<noteq> key"
          using cond Some by auto
        then show ?thesis
          using True miss fields by (auto simp: assms(4) sub_deadline_completed_def)
      next
        case False
        then have "c' = sub_call_and_erase d k ec null_view ?c"
          using \<open>failed ec\<close> Some by (simp add: assms(4) sub_deadline_completed_def om_contains_iff fields)
        then show ?thesis
          using \<open>failed ec\<close> call [of ec] cond Some by auto
      qed
    qed
  qed
  then show "sub_coupled d key c' \<and> sub_keeps c c' \<and> su_undefined c' = su_undefined c"
    "k = key \<Longrightarrow> waiting key (operations_map c) \<noteq> [] \<Longrightarrow> cl_thrown c' = None \<and> su_tasks c' \<noteq> [] \<and> dropped_calls (su_log c') = 0"
    using h by auto
qed

lemma events_told_keeps:
  assumes "events_told events_of key c" and "sub_keeps c c'" and "cl_thrown c = None"
  shows "events_told events_of key c'"
proof -
  obtain seen ignored where "sub_frames c = seen @ ignored" "filter is_event (su_log c) = concat (map events_of seen)"
      "ignored \<noteq> [] \<longrightarrow> sb_handle_guard (su_sub c)"
    using assms(1,3) unfolding events_told_def by blast
  moreover have "sub_frames c' = sub_frames c" "filter is_event (su_log c') = filter is_event (su_log c)"
      "sb_handle_guard (su_sub c) \<longrightarrow> sb_handle_guard (su_sub c')"
    using assms(2) by (simp_all add: sub_keeps_def sub_frames_def)
  ultimately show ?thesis
    using assms(1) unfolding events_told_def by metis
qed

lemma same_sub_keeps: "same_sub c c' \<Longrightarrow> sub_keeps c c'"
  by (simp add: same_sub_def sub_keeps_def)

text \<open>A frame.\<close>

lemma coupled_receive:
  assumes "sub_coupled d key c" and "events_told events_of key c" and "class_fits d" and "cl_thrown c = None"
    and "package_read (sub_call d) g success f n c = Some (c', reads_on)" and "\<not> su_undefined c'"
  shows "sub_coupled d key c' \<and> events_told events_of key c'"
proof -
  let ?c = "c\<lparr>package_no := package_no c + 1\<rparr>"
  have same: "same_sub c ?c"
    by (simp add: sending_sub)
  have C: "sub_coupled d key ?c" and E: "events_told events_of key ?c"
    using assms(1,2) sub_coupled_same [OF same] events_told_keeps [OF assms(2) same_sub_keeps [OF same] assms(4)] by simp_all
  from assms(5) show ?thesis
  proof (cases rule: received_cases)
    case (operation k v r)
    from operation(2) have "map_of (operations_map ?c) k = Some r"
      by simp
    note O = coupled_operation(1) [where dl = "cl_deadlines ?c" and c = ?c and k = k and r = r and err = success and v = v,
        OF _ C this _ refl]
    have "sub_coupled d key c' \<and> sub_keeps ?c c'"
      using O [of c'] C operation(3) by (simp add: Let_def)
    then show ?thesis
      using events_told_keeps [OF E] assms(4) by simp
  next
    case (subscription k v r)
    have r: "r = Sub_Handler (if k = key then Package_Handler else Other_Handler)"
      using handlers_at(3) [OF sub_coupled_handlers [OF C]] subscription(3) by simp
    show ?thesis
    proof (cases "k = key")
      case False
      then have "c' = ?c\<lparr>cl_sub_calls := cl_sub_calls c @ [(Other_Handler, success, v)]\<rparr>"
        using subscription(4) r by simp
      then show ?thesis
        using C E assms(4) by (simp add: events_told_def sub_frames_def)
    next
      case True
      let ?d = "?c\<lparr>cl_sub_calls := cl_sub_calls c @ [(Package_Handler, success, v)]\<rparr>"
      have c': "c' = run_sub (sub_lambda d success v) ?d"
        using subscription(4) r True by simp
      have "sub_coupled d key ?d" "om_contains key (subscriptions_map ?d)"
        using C True subscription(3) by (simp_all add: om_contains_iff)
      note L = coupled_lambda [OF this(1) assms(3) this(2) c' assms(6)]
      have frames: "sub_frames c' = sub_frames c @ [v]"
        using L by (simp add: sub_frames_def)
      obtain seen ignored where S: "sub_frames c = seen @ ignored" "filter is_event (su_log c) = concat (map events_of seen)"
          "ignored \<noteq> [] \<longrightarrow> sb_handle_guard (su_sub c)"
        using assms(2,4) unfolding events_told_def by blast
      have "\<exists>seen ignored. sub_frames c' = seen @ ignored \<and> filter is_event (su_log c') = concat (map events_of seen) \<and>
          (ignored \<noteq> [] \<longrightarrow> sb_handle_guard (su_sub c'))" if "cl_thrown c' = None"
      proof (cases "sb_handle_guard (su_sub c)")
        case True
        then show ?thesis
          using L S that frames by (intro exI [of _ seen] exI [of _ "ignored @ [v]"]) simp
      next
        case False
        then show ?thesis
          using L S that frames by (intro exI [of _ "seen @ [v]"] exI [of _ "[]"]) simp
      qed
      then show ?thesis
        using L frames assms(2) True subscription(1) by (auto simp: events_told_def)
    qed
  next
    case (reply p)
    have "same_sub c c'"
      using reply same sending_sub(1) same_sub_trans by blast
    then show ?thesis
      using assms(1) sub_coupled_same events_told_keeps [OF assms(2) same_sub_keeps assms(4)] by blast
  next
    case other
    then show ?thesis
      using C E by simp
  qed
qed

lemma coupled_step:
  assumes "sub_step d c c'" and "sub_coupled d key c" and "events_told events_of key c" and "class_fits d"
    and "\<not> su_undefined c'"
  shows "sub_coupled d key c' \<and> events_told events_of key c'"
proof -
  have key: "sb_key (su_sub c) = key"
    using assms(2) by (simp add: sub_coupled_def)
  have told: "events_told events_of key c'" if "sub_keeps c c'"
    using assms(1) events_told_keeps [OF assms(3) that] by (auto elim: sub_step.cases)
  have same: ?thesis if "same_sub c c'"
    using sub_coupled_same [OF that] assms(2) told [OF same_sub_keeps [OF that]] by simp
  from assms(1) show ?thesis
  proof cases
    case (receive g f n reads_on)
    then show ?thesis
      using coupled_receive [OF assms(2-4) _ _ assms(5)] by blast
  next
    case (receive_error ec g f n reads_on)
    then have "c' = close_connection c"
      by (simp add: package_read_def)
    then have "same_sub c c'"
      by (simp add: sending_sub)
    then show ?thesis
      by (rule same)
  next
    case (task xs p ys)
    then show ?thesis
      using same sending_sub(4) by blast
  next
    case (written b ec)
    then show ?thesis
      using same sending_sub(5) by blast
  next
    case (expire k)
    have "sub_coupled d key c'"
    proof (cases "k = key")
      case True
      have "success \<noteq> operation_aborted" "success \<noteq> subscription_error Unsubscribed"
        by (metis failed_aborted not_failed_success, metis failed_subscription not_failed_success)
      then show ?thesis
        using True sub_coupled_deadlines [OF assms(2)] expire(1) by (simp add: set_timer_def deadline_live_def)
    next
      case False
      then show ?thesis
        using sub_coupled_others(1) [OF assms(2)] expire(1) by simp
    qed
    moreover have "sub_keeps c c'"
      by (simp add: expire(1) sub_keeps_def set_timer_def)
    ultimately show ?thesis
      using told by simp
  next
    case (wait_fails k ec)
    have "sub_coupled d key c'"
    proof (cases "k = key")
      case True
      then show ?thesis
        using sub_coupled_deadlines [OF assms(2)] wait_fails by (simp add: set_timer_def deadline_live_def)
    next
      case False
      then show ?thesis
        using sub_coupled_others(1) [OF assms(2)] wait_fails(1) by simp
    qed
    moreover have "sub_keeps c c'"
      by (simp add: wait_fails(1) sub_keeps_def set_timer_def)
    ultimately show ?thesis
      using told by simp
  next
    case (deadline k ec)
    then show ?thesis
      using coupled_deadline(1) [OF assms(2) deadline(3,2,1)] told by simp
  next
    case (drop xs ec ys)
    then show ?thesis
      using coupled_task [OF assms(2) drop(3,1)] told by simp
  next
    case user
    show ?thesis
    proof (cases "om_contains key (subscriptions_map c)")
      case True
      then have c': "c' = run_sub (sub_lambda d (subscription_error Unsubscribed) null_view) c"
        using user(1) by (simp add: call_unsubscribe_def key user_unsubscribe_def [abs_def] sub_lambda_def)
      note L = coupled_lambda [OF assms(2,4) True c' assms(5)]
      show ?thesis
      proof (cases "cl_thrown c' = None")
        case True
        then have "sub_keeps c c'"
          using L by (auto simp: sub_keeps_def split: if_splits)
        then show ?thesis
          using L told by simp
      next
        case False
        moreover have "sub_frames c' = sub_frames c"
          using L by (simp add: sub_frames_def)
        ultimately show ?thesis
          using L assms(3) by (auto simp: events_told_def)
      qed
    next
      case False
      then have "c' = c\<lparr>cl_thrown := Some Out_Of_Range\<rparr>"
        using user(1) by (simp add: call_unsubscribe_def key user_unsubscribe_def run_sub_def)
      then show ?thesis
        using assms(2,3) by (simp add: events_told_def sub_frames_def)
    qed
  next
    case (send p k)
    then have c': "c' = client_initiate k Other_Handler (async_send p c)"
      by (auto simp: client_send_def)
    have "sub_coupled d key (async_send p c)"
      using sub_coupled_same [OF sending_sub(1)] assms(2) by blast
    from sub_coupled_others(1) [OF sub_coupled_others(5) [OF this]] send(3) key
    have "sub_coupled d key c'"
      by (simp add: c' client_initiate_def)
    moreover have "sub_keeps c c'"
      by (simp add: c' client_initiate_def sub_keeps_def set_timer_def async_send_def)
    ultimately show ?thesis
      using told by simp
  next
    case (notify p)
    then show ?thesis
      using same sending_sub(1) by blast
  next
    case (subscribe k)
    then show ?thesis
      using sub_coupled_others(4) [OF assms(2)] key told by (simp add: sub_keeps_def)
  next
    case (unsubscribe k)
    then show ?thesis
      using sub_coupled_others(3) [OF assms(2)] key told by (simp add: sub_keeps_def)
  qed
qed

text \<open>The start, and every run.\<close>

lemma coupled_start:
  assumes "sub_idle c" and "is_guid (sb_key (su_sub c))" and "start_sub async_start c = Some c'"
  shows "sub_coupled d (sb_key (su_sub c')) c' \<and> events_told events_of (sb_key (su_sub c')) c' \<and> \<not> su_undefined c'"
proof -
  let ?key = "sb_key (su_sub c)"
  obtain es s where "async_start (su_sub c) = Some (es, s)"
    using assms(3) by (auto simp: start_sub_def split: Option.bind_splits)
  from starts [OF this] this obtain p where
    s: "async_start (su_sub c) = Some ([Register ?key, Send_Package p], s)" "\<not> sb_handle_guard s" "sb_key s = ?key"
    by blast
  define c1 where "c1 = c\<lparr>su_sub := s, subscriptions_map := register_op ?key (Sub_Handler Package_Handler) (subscriptions_map c)\<rparr>"
  have c': "c' = async_send p c1"
    using assms(3) s by (simp add: start_sub_def c1_def)
  have none: "map_of (operations_map c) ?key = None" "map_of (subscriptions_map c) ?key = None"
    using assms(1) by (auto simp: sub_idle_def map_of_eq_None_iff)
  have "sub_run (dc_unsubscribe d) (dc_parse_dropped d) (dc_shutdown d) (dc_on_package d) [] [] True s"
    by (rule sub_run.start [OF s(2)])
  moreover have "handlers_ok ?key c1"
    using assms(1) none by (auto simp: c1_def handlers_ok_def sub_idle_def register_op_new)
  ultimately have "sub_coupled d ?key c1"
    using assms(1,2) s none
    by (intro sub_coupledI [where pending = "[]"])
       (simp_all add: c1_def sub_idle_def om_contains_iff register_op_new waiting_def)
  moreover have "sub_frames c = []" and "filter is_event (su_log c) = []"
    using assms(1) by (auto simp: sub_frames_def sub_idle_def filter_empty_conv)
  then have "events_told events_of ?key c'"
    unfolding events_told_def by (auto simp: c' c1_def async_send_def sub_frames_def)
  moreover have "sub_coupled d ?key c'" if "sub_coupled d ?key c1"
    using sub_coupled_same [OF sending_sub(1)] that unfolding c' by blast
  moreover have "sb_key (su_sub c') = ?key" "\<not> su_undefined c'"
    using assms(1) s(3) by (simp_all add: c' c1_def async_send_def sub_idle_def)
  ultimately show ?thesis
    by simp
qed

lemma run_coupled:
  assumes "sub_client_run d async_start c" and "class_fits d"
  shows "sub_coupled d (sb_key (su_sub c)) c \<and> events_told events_of (sb_key (su_sub c)) c \<and> \<not> su_undefined c"
  using assms(1)
proof (induction rule: sub_client_run.induct)
  case (start c c')
  then show ?case
    by (rule coupled_start)
next
  case (step c c')
  then have "sub_coupled d (sb_key (su_sub c)) c' \<and> events_told events_of (sb_key (su_sub c)) c'"
    using coupled_step [OF step.hyps(2) _ _ assms(2)] by blast
  moreover from this have "sb_key (su_sub c') = sb_key (su_sub c)"
    by (simp add: sub_coupled_def)
  ultimately show ?case
    using step.hyps(3) by simp
qed

text \<open>What holds of the log and the maps in every run.\<close>

lemma run_told:
  assumes "sub_client_run d async_start c" and "class_fits d" and "key = sb_key (su_sub c)"
  shows "dropped_calls (su_log c) \<le> 1" and "orderly False (su_log c)"
    and "om_contains key (subscriptions_map c) \<longleftrightarrow> dropped_calls (su_log c) = 0"
    and "sb_handle_guard (su_sub c) \<longleftrightarrow> dropped_calls (su_log c) = 1 \<or> su_tasks c \<noteq> [] \<or> om_contains key (operations_map c)"
    and "dropped_calls (su_log c) = 1 \<Longrightarrow> su_tasks c = [] \<and> \<not> om_contains key (operations_map c)"
    and "events_told events_of key c" and "sb_handle_guard (su_sub c) \<longleftrightarrow> 0 < drops (su_log c)"
proof -
  note C = run_coupled [OF assms(1,2), folded assms(3)]
  then have c: "sub_coupled d key c"
    by simp
  obtain pending where "sub_run (dc_unsubscribe d) (dc_parse_dropped d) (dc_shutdown d) (dc_on_package d) (su_log c) pending
      (om_contains key (subscriptions_map c)) (su_sub c)"
    using c unfolding sub_coupled_def by blast
  from run_inv [OF this] show "orderly False (su_log c)" "sb_handle_guard (su_sub c) \<longleftrightarrow> 0 < drops (su_log c)"
    by simp_all
  note P = coupled_pending(1,2) [OF c]
  have w: "waiting key (operations_map c) = [] \<longleftrightarrow> \<not> om_contains key (operations_map c)"
    using handlers_at(4) [OF sub_coupled_handlers [OF c]] by (simp add: om_contains_iff)
  show "dropped_calls (su_log c) \<le> 1"
    using P by (auto split: if_splits)
  show "sb_handle_guard (su_sub c) \<longleftrightarrow> dropped_calls (su_log c) = 1 \<or> su_tasks c \<noteq> [] \<or> om_contains key (operations_map c)"
    using P w by (cases "sb_handle_guard (su_sub c)") auto
  show "dropped_calls (su_log c) = 1 \<Longrightarrow> su_tasks c = [] \<and> \<not> om_contains key (operations_map c)"
    using P w by (auto split: if_splits)
  show "om_contains key (subscriptions_map c) \<longleftrightarrow> dropped_calls (su_log c) = 0"
    using c by (simp add: sub_coupled_def)
  show "events_told events_of key c"
    using C by simp
qed

text \<open>Once a subscription began to end, the event loop alone gets to the point where the user has been told: the
  deadline of the unsubscription expires, its completion posts the task, the task runs.\<close>

lemma drop_tells:
  assumes "sub_coupled d key c" and "cl_thrown c = None" and "su_tasks c \<noteq> []"
  shows "\<exists>c'. loop_step d c c' \<and> dropped_calls (su_log c') = 1 \<and> cl_thrown c' = None \<and> su_undefined c' = su_undefined c"
proof -
  obtain ec ts where t: "su_tasks c = [] @ ec # ts"
    using assms(3) by (cases "su_tasks c") auto
  have "dropped_calls (su_log c) = 0"
    using coupled_pending(1) [OF assms(1)] t by (auto split: if_splits)
  then show ?thesis
    using loop_step.drop [OF assms(2) t] coupled_task [OF assms(1) t refl] assms(2)
    by (intro exI [of _ "run_drop_task ec (c\<lparr>su_tasks := [] @ ts\<rparr>)"]) (simp add: dropped_calls_def)
qed

lemma end_reported:
  assumes "sub_client_run d async_start c" and "class_fits d" and "sb_handle_guard (su_sub c)" and "cl_thrown c = None"
  shows "\<exists>n c'. n \<le> 3 \<and> (loop_step d ^^ n) c c' \<and> dropped_calls (su_log c') = 1 \<and> cl_thrown c' = None"
proof -
  let ?key = "sb_key (su_sub c)"
  note C = run_coupled [OF assms(1,2)]
  note T = run_told [OF assms(1,2) refl]
  have "dropped_calls (su_log c) = 1 \<or> su_tasks c \<noteq> [] \<or> waiting ?key (operations_map c) \<noteq> []"
    using T(4) assms(3) handlers_at(4) [OF sub_coupled_handlers, of d ?key c] C by (auto simp: om_contains_iff)
  then consider (told) "dropped_calls (su_log c) = 1" | (task) "su_tasks c \<noteq> []"
    | (waits) "waiting ?key (operations_map c) \<noteq> []"
    by blast
  then show ?thesis
  proof cases
    case told
    then show ?thesis
      using assms(4) by (intro exI [of _ 0] exI [of _ c]) simp
  next
    case task
    from drop_tells [OF _ assms(4) task, of ?key] C obtain c' where
      "loop_step d c c'" "dropped_calls (su_log c') = 1" "cl_thrown c' = None"
      by blast
    then show ?thesis
      by (intro exI [of _ 1] exI [of _ c']) (simp only: relpowp_1, simp)
  next
    case waits
    have queued: "\<exists>n c'. n \<le> 2 \<and> (loop_step d ^^ n) b c' \<and> dropped_calls (su_log c') = 1 \<and> cl_thrown c' = None"
      if "sub_coupled d ?key b" and waiting_b: "waiting ?key (operations_map b) \<noteq> []" and "map_of (cl_deadlines b) ?key = Some (Queued ec)"
        and "cl_thrown b = None" for b ec
    proof -
      let ?b = "sub_deadline_completed d ?key ec (set_timer ?key Completed b)"
      note D = coupled_deadline [OF that(1,3,4) refl]
      have "loop_step d b ?b"
        by (rule loop_step.deadline [OF that(4,3)])
      moreover obtain c' where "loop_step d ?b c'" "dropped_calls (su_log c') = 1" "cl_thrown c' = None"
        using drop_tells [OF conjunct1 [OF D(1)]] D(2) [OF refl waiting_b] by (elim conjE) blast
      ultimately show ?thesis
        by (intro exI [of _ 2] exI [of _ c']) (auto simp: numeral_2_eq_2)
    qed
    have "deadline_live (map_of (cl_deadlines c) ?key)"
      using C waits by (simp add: sub_coupled_def)
    then consider (runs) "map_of (cl_deadlines c) ?key = Some Waiting" | (ready) ec where "map_of (cl_deadlines c) ?key = Some (Queued ec)"
      by (auto simp: deadline_live_def)
    then show ?thesis
    proof cases
      case (ready ec)
      with queued [of c ec] C waits assms(4) obtain n c' where "n \<le> 2" "(loop_step d ^^ n) c c'"
          "dropped_calls (su_log c') = 1" "cl_thrown c' = None"
        by blast
      then show ?thesis
        by (intro exI [of _ n] exI [of _ c']) simp
    next
      case runs
      let ?b = "set_timer ?key (Queued success) c"
      have step: "loop_step d c ?b"
        by (rule loop_step.expire [OF assms(4) runs])
      have fields: "operations_map ?b = operations_map c" "cl_thrown ?b = None" "su_undefined ?b = su_undefined c"
        using assms(4) by (simp_all add: set_timer_def)
      have "sub_coupled d ?key ?b"
        using coupled_step [OF loop_step_sub [OF step] _ _ assms(2)] C fields(3) by simp
      with queued [of ?b success] waits fields obtain n c' where "n \<le> 2" "(loop_step d ^^ n) ?b c'"
          "dropped_calls (su_log c') = 1" "cl_thrown c' = None"
        by (auto simp: map_of_set_timer)
      moreover from this step have "(loop_step d ^^ Suc n) c c'"
        by (metis relpowp_Suc_I2)
      ultimately show ?thesis
        by (intro exI [of _ "Suc n"] exI [of _ c']) simp
    qed
  qed
qed

end

section \<open>Volatile and persistent subscriptions\<close>

definition volatile_class ::
  "string \<Rightarrow> (bytes \<Rightarrow> subscription_dropped) \<Rightarrow> (bytes \<Rightarrow> subscription_confirmation) \<Rightarrow> (bytes \<Rightarrow> stream_event_appeared) \<Rightarrow>
     volatile_subscription subscription_class"
where
  "volatile_class serialized parse_dropped parse_confirmation parse_event =
     \<lparr>dc_unsubscribe = serialized, dc_parse_dropped = parse_dropped, dc_shutdown = (\<lambda>s. s),
      dc_on_package = volatile_on_package parse_confirmation parse_event\<rparr>"

definition persistent_class :: "persistent_codec \<Rightarrow> user_credentials \<Rightarrow> persistent_subscription subscription_class" where
  "persistent_class codec creds =
     \<lparr>dc_unsubscribe = pk_unsubscribe codec, dc_parse_dropped = pk_dropped codec, dc_shutdown = (\<lambda>s. s),
      dc_on_package = persistent_on_package codec creds\<rparr>"

text \<open>The events of a frame, as the user's handler is to be called with them.\<close>

definition volatile_events :: "(bytes \<Rightarrow> stream_event_appeared) \<Rightarrow> tcp_package_view \<Rightarrow> sub_effect list" where
  "volatile_events parse_event v =
    (if view_command v = Some Stream_Event_Appeared_Command
     then (case Option.bind (view_message v) (\<lambda>m. mk_resolved_event (sea_event (parse_event m))) of
         None \<Rightarrow> [] | Some (e, _) \<Rightarrow> [Event_Appeared e None])
     else [])"

definition persistent_events :: "persistent_codec \<Rightarrow> tcp_package_view \<Rightarrow> sub_effect list" where
  "persistent_events codec v =
    (if view_command v = Some Persistent_Subscription_Stream_Event_Appeared_Command
     then (case view_message v of None \<Rightarrow> []
       | Some m \<Rightarrow> (case mk_resolved_indexed_event (pse_event (pk_event codec m)) of
           None \<Rightarrow> []
         | Some (e, _) \<Rightarrow> [Event_Appeared e (Some (case pse_retryCount (pk_event codec m) of None \<Rightarrow> 0 | Some n \<Rightarrow> int32_of n))]))
     else [])"

lemma class_fields [simp]:
  "dc_shutdown (volatile_class ser pd pc pe) = (\<lambda>s. s)" "dc_unsubscribe (volatile_class ser pd pc pe) = ser"
  "dc_parse_dropped (volatile_class ser pd pc pe) = pd" "dc_on_package (volatile_class ser pd pc pe) = volatile_on_package pc pe"
  "dc_shutdown (persistent_class codec creds) = (\<lambda>s. s)" "dc_unsubscribe (persistent_class codec creds) = pk_unsubscribe codec"
  "dc_on_package (persistent_class codec creds) = persistent_on_package codec creds"
  by (simp_all add: volatile_class_def persistent_class_def)

interpretation volatile_wire:
  wired_subscription "volatile_class ser pd pc pe" "volatile_async_start serialize creds" "volatile_events pe"
  for ser pd pc pe serialize creds
proof (intro wired_subscription.intro wired_subscription_axioms.intro)
  show "derived_subscription (dc_shutdown (volatile_class ser pd pc pe)) (dc_on_package (volatile_class ser pd pc pe))"
    using volatile_sub.derived_subscription_axioms by simp
  show "\<exists>p. es = [Register (sb_key s), Send_Package p] \<and> \<not> sb_handle_guard s' \<and> sb_key s' = sb_key s"
    if "volatile_async_start serialize creds s = Some (es, s')" for s es s'
    using that by (auto simp: volatile_async_start_def base_async_start_def Let_def split: Option.bind_splits)
qed (auto simp: volatile_on_package_def volatile_events_def Let_def
      split: if_splits Option.bind_splits option.splits prod.splits)

lemma persistent_calm:
  assumes "persistent_on_package codec creds v s = Some (Inr (h, es, s'))" and "22 + length (pk_unsubscribe codec) < 2 ^ 32"
    and "is_guid (sb_key s)"
  shows "\<forall>e \<in> set es. calm_effect (sb_key s) e"
  using assms unsubscribe_calm [OF _ assms(3,2), of "\<lambda>s. s"]
  by (auto simp: persistent_on_package_def Let_def split: if_splits Option.bind_splits option.splits prod.splits sum.splits)

interpretation persistent_wire:
  wired_subscription "persistent_class codec creds" "persistent_async_start serialize creds" "persistent_events codec"
  for codec serialize creds
proof (intro wired_subscription.intro wired_subscription_axioms.intro)
  show "derived_subscription (dc_shutdown (persistent_class codec creds)) (dc_on_package (persistent_class codec creds))"
    using persistent_sub.derived_subscription_axioms by simp
  show "\<exists>p. es = [Register (sb_key s), Send_Package p] \<and> \<not> sb_handle_guard s' \<and> sb_key s' = sb_key s"
    if "persistent_async_start serialize creds s = Some (es, s')" for s es s'
    using that by (auto simp: persistent_async_start_def base_async_start_def Let_def split: Option.bind_splits)
  show "\<forall>e \<in> set es. calm_effect (sb_key s) e"
    if "dc_on_package (persistent_class codec creds) v s = Some (Inr (h, es, s'))" "class_fits (persistent_class codec creds)"
      "is_guid (sb_key s)" for v s h es s'
    using persistent_calm [of codec creds v s h es s'] that by (simp add: class_fits_def)
  show "filter is_event es = persistent_events codec v"
    if "dc_on_package (persistent_class codec creds) v s = Some (Inr (h, es, s'))" for v s h es s'
    using that
    by (auto simp: persistent_on_package_def persistent_events_def Let_def filter_empty_conv dest!: unsubscribe_id
        split: if_splits Option.bind_splits option.splits prod.splits sum.splits)
qed

section \<open>From the subscription to its end\<close>

lemma package_read_frame:
  assumes "frame_ok f n" and "n < 2 ^ 32"
  shows "package_read call g success f n c =
    map_option (\<lambda>c'. (c', True)) (on_package_received call g success (frame_view f n) c)"
  using mk_view_ok [OF assms(1)] assms(2)
  by (simp add: package_read_def frame_view_command [OF assms(1)] frame_view_message [OF assms] map_option_case
      split: option.splits)

lemma perform_unsubscribe:
  assumes "package_key p = Some key" and "map_of (operations_map c) key = None"
  shows "\<exists>c'. perform (Send_Unsubscribe p ec) c = Some c' \<and> posted c' = posted c @ [p] \<and>
    operations_map c' = (key, Op_Handler key (Unsubscribed_Handler ec)) # operations_map c \<and>
    subscriptions_map c' = subscriptions_map c \<and> su_sub c' = su_sub c \<and> su_log c' = su_log c \<and>
    cl_thrown c' = cl_thrown c \<and> su_undefined c' = su_undefined c"
  using assms by (simp add: client_send_def client_initiate_def set_timer_def async_send_def register_op_new)

text \<open>The four steps: \<open>async_start\<close>, an event, the user's \<open>unsubscribe()\<close>, and the answer, which may be any frame
  with the id of the subscription.\<close>

definition new_volatile :: "connection_settings \<Rightarrow> string \<Rightarrow> guid \<Rightarrow> string \<Rightarrow> bool \<Rightarrow> volatile_subscription sub_client" where
  "new_volatile cs name key stream resolve_link_tos =
     mk_sub_client cs name (mk_volatile_subscription key stream resolve_link_tos)"

lemma new_volatile_fields [simp]:
  "sb_key (su_sub (new_volatile cs name key stream resolve)) = key"
  "sb_stream (su_sub (new_volatile cs name key stream resolve)) = stream"
  "vs_resolve_link_tos (su_sub (new_volatile cs name key stream resolve)) = resolve"
  "operations_map (new_volatile cs name key stream resolve) = []" "subscriptions_map (new_volatile cs name key stream resolve) = []"
  "posted (new_volatile cs name key stream resolve) = []" "su_log (new_volatile cs name key stream resolve) = []"
  "cl_thrown (new_volatile cs name key stream resolve) = None" "\<not> su_undefined (new_volatile cs name key stream resolve)"
  "sub_idle (new_volatile cs name key stream resolve)"
  by (simp_all add: new_volatile_def mk_sub_client_def mk_client_def mk_connection_def client.defs connection.defs
      mk_volatile_subscription_def subscription_base.defs volatile_subscription.defs mk_subscription_base_def om_empty_def
      sub_idle_def)

lemma volatile_starts:
  assumes "is_guid key" and "length (username creds) < 256" and "length (password creds) < 256"
    and "request = serialize \<lparr>ss_event_stream_id = stream, ss_resolve_link_tos = resolve\<rparr>"
    and "24 + length (username creds) + length (password creds) + length request < 2 ^ 32"
  shows "\<exists>p v c. start_sub (volatile_async_start serialize creds) (new_volatile cs name key stream resolve) = Some c \<and>
    posted c = [p] \<and> to_view p = Some v \<and> view_command v = Some Subscribe_To_Stream_Command \<and>
    view_correlation_id v = Some key \<and> view_message v = Some (to_bytes request) \<and>
    operations_map c = [] \<and> subscriptions_map c = [(key, Sub_Handler Package_Handler)] \<and> su_log c = [] \<and>
    sb_key (su_sub c) = key \<and> \<not> sb_handle_guard (su_sub c) \<and> cl_thrown c = None \<and> \<not> su_undefined c"
proof -
  let ?c = "new_volatile cs name key stream resolve"
  have "is_named Subscribe_To_Stream_Command"
    by (simp add: is_named_def)
  from request_package_view [OF this assms(1-3), of "to_bytes request"] assms(5) obtain p v where
    p: "request_package Subscribe_To_Stream_Command creds key (to_bytes request) = Some p" "to_view p = Some v"
      "view_command v = Some Subscribe_To_Stream_Command" "view_correlation_id v = Some key" "view_message v = Some (to_bytes request)"
    by auto
  have "volatile_async_start serialize creds (su_sub ?c) =
      Some ([Register key, Send_Package p], (su_sub ?c)\<lparr>sb_handle_guard := False\<rparr>)"
    using p(1) by (simp add: volatile_async_start_def base_async_start_def assms(4) Let_def)
  with p show ?thesis
    by (simp add: start_sub_def async_send_def register_op_new)
qed

lemma volatile_event_step:
  assumes "is_guid key" and "22 + length m < 2 ^ 32" and "mk_resolved_event (sea_event (pe m)) = Some (e, e')"
    and "operations_map c = []" and "subscriptions_map c = [(key, Sub_Handler Package_Handler)]" and "\<not> sb_handle_guard (su_sub c)"
  shows "\<exists>c'. package_read (sub_call (volatile_class ser pd pc pe)) g success
      (unauthenticated_frame Stream_Event_Appeared_Command flags_none key m) (22 + length m) c = Some (c', True) \<and>
    su_log c' = su_log c @ [Event_Appeared e None] \<and> posted c' = posted c \<and> operations_map c' = [] \<and>
    subscriptions_map c' = subscriptions_map c \<and> su_sub c' = su_sub c \<and> cl_thrown c' = cl_thrown c \<and> su_undefined c' = su_undefined c"
proof -
  let ?f = "unauthenticated_frame Stream_Event_Appeared_Command flags_none key m" and ?n = "22 + length m"
  have z: "and flags_none flags_authenticated = 0" and nm: "is_named Stream_Event_Appeared_Command"
    by (simp_all add: flags_none_def is_named_def)
  note F = unauthenticated_frame_ok [OF assms(1) z, of Stream_Event_Appeared_Command m]
  have v: "view_command (frame_view ?f ?n) = Some Stream_Event_Appeared_Command" "view_message (frame_view ?f ?n) = Some m"
    using frame_view_command [OF F(1)] F(2) nm frame_view_message [OF F(1) assms(2)] F(5,6) length_unauthenticated_frame [OF assms(1)]
    by (simp_all only: command_of_code) simp
  let ?c = "c\<lparr>package_no := package_no c + 1, cl_sub_calls := cl_sub_calls c @ [(Package_Handler, success, frame_view ?f ?n)]\<rparr>"
  have "sub_lambda (volatile_class ser pd pc pe) success (frame_view ?f ?n) (su_sub c) = Some (Inr ([Event_Appeared e None], su_sub c))"
    using v assms(3,6) by (simp add: sub_lambda_def subscription_received_def volatile_on_package_def)
  then have "run_sub (sub_lambda (volatile_class ser pd pc pe) success (frame_view ?f ?n)) ?c = ?c\<lparr>su_log := su_log c @ [Event_Appeared e None]\<rparr>"
    by (simp add: run_sub_def)
  with dispatch_subscription [where g = g and ec = success and call = "sub_call (volatile_class ser pd pc pe)" and c = c, OF F(1)] F(4) assms(4,5)
  show ?thesis
    by (simp add: package_read_frame [OF F(1) assms(2)])
qed

lemma volatile_unsubscribe_step:
  assumes "is_guid key" and "22 + length ser < 2 ^ 32" and "operations_map c = []" and "sb_key (su_sub c) = key"
    and "subscriptions_map c = [(key, Sub_Handler Package_Handler)]" and "\<not> sb_handle_guard (su_sub c)"
    and "c' = call_unsubscribe (volatile_class ser pd pc pe) c"
  shows "\<exists>p v. posted c' = posted c @ [p] \<and> to_view p = Some v \<and> view_command v = Some Unsubscribe_From_Stream_Command \<and>
    view_correlation_id v = Some key \<and> view_message v = Some (to_bytes ser) \<and>
    su_log c' = su_log c @ [Send_Unsubscribe p (subscription_error Unsubscribed)] \<and>
    operations_map c' = [(key, Op_Handler key (Unsubscribed_Handler (subscription_error Unsubscribed)))] \<and>
    subscriptions_map c' = subscriptions_map c \<and> sb_key (su_sub c') = key \<and> cl_thrown c' = cl_thrown c \<and> su_undefined c' = su_undefined c"
proof -
  let ?e = "subscription_error Unsubscribed" and ?s = "(su_sub c)\<lparr>sb_subscribed := False, sb_handle_guard := True\<rparr>"
  have z: "and flags_none flags_authenticated = 0" and nm: "is_named Unsubscribe_From_Stream_Command"
    by (simp_all add: flags_none_def is_named_def)
  from unauthenticated_package_view [OF nm z assms(1), of "to_bytes ser"] assms(1,2) obtain p v where
    p: "unauthenticated_package Unsubscribe_From_Stream_Command flags_none key (to_bytes ser) = Some p" "to_view p = Some v"
      "view_command v = Some Unsubscribe_From_Stream_Command" "view_correlation_id v = Some key" "view_message v = Some (to_bytes ser)"
    by auto
  then have key: "package_key p = Some key"
    using assms(1) by (simp add: package_key_def)
  let ?f = "user_unsubscribe (om_contains (sb_key (su_sub c)) (subscriptions_map c)) ser pd (\<lambda>s. s) (volatile_on_package pc pe)"
  have f: "?f (su_sub c) = Some (Inr ([Send_Unsubscribe p ?e], ?s))"
    using p(1) assms(4-6) by (simp add: user_unsubscribe_def om_contains_def subscription_received_def unsubscribe_def Let_def)
  from perform_unsubscribe [OF key, of "c\<lparr>su_sub := ?s, su_log := su_log c @ [Send_Unsubscribe p ?e]\<rparr>" ?e] assms(3) obtain c1 where
    c1: "perform (Send_Unsubscribe p ?e) (c\<lparr>su_sub := ?s, su_log := su_log c @ [Send_Unsubscribe p ?e]\<rparr>) = Some c1"
      "posted c1 = posted c @ [p]" "operations_map c1 = [(key, Op_Handler key (Unsubscribed_Handler ?e))]"
      "subscriptions_map c1 = subscriptions_map c" "su_sub c1 = ?s" "su_log c1 = su_log c @ [Send_Unsubscribe p ?e]"
      "cl_thrown c1 = cl_thrown c" "su_undefined c1 = su_undefined c"
    by auto
  have "c' = c1"
    using f c1(1) by (simp add: assms(7) call_unsubscribe_def run_sub_def del: perform.simps)
  with c1 p assms(4) show ?thesis
    by auto
qed

lemma volatile_answer_step:
  assumes "frame_ok f n" and "n < 2 ^ 32" and "take 16 (drop 6 f) = key" and "sb_key (su_sub c) = key"
    and "operations_map c = [(key, Op_Handler key (Unsubscribed_Handler ec))]"
    and "subscriptions_map c = [(key, Sub_Handler Package_Handler)]"
  shows "\<exists>c'. package_read (sub_call (volatile_class ser pd pc pe)) g success f n c = Some (c', True) \<and>
    su_log c' = su_log c @ [Erase key, Dropped ec] \<and> posted c' = posted c \<and> operations_map c' = [] \<and> subscriptions_map c' = [] \<and>
    cl_thrown c' = cl_thrown c \<and> su_undefined c' = su_undefined c"
proof -
  let ?d = "volatile_class ser pd pc pe" and ?v = "frame_view f n" and ?r = "Op_Handler key (Unsubscribed_Handler ec)"
  let ?c = "client_call ?r success ?v (c\<lparr>package_no := package_no c + 1\<rparr>)"
  have c: "su_sub ?c = su_sub c" "su_log ?c = su_log c" "posted ?c = posted c" "operations_map ?c = operations_map c"
      "subscriptions_map ?c = subscriptions_map c" "cl_thrown ?c = cl_thrown c" "su_undefined ?c = su_undefined c"
    by (simp_all add: client_call_op del: client_call.simps)
  have "unsub_lambda ?d ec success (su_sub c) = Some (Inr ([Erase key, Dropped ec], su_sub c))"
    using assms(4) by (simp add: unsub_lambda_def unsubscribe_answered_def)
  then have run: "run_sub (unsub_lambda ?d ec success) ?c = ?c\<lparr>su_log := su_log c @ [Erase key, Dropped ec], subscriptions_map := []\<rparr>"
    using assms(6) c by (simp add: run_sub_def om_erase_def del: client_call.simps)
  have "map_of (operations_map c) (take 16 (drop 6 f)) = Some ?r"
    using assms(3,5) by simp
  from dispatch_operation [OF assms(1) this, where call = "sub_call ?d" and ec = success and g = g, OF refl] run c assms(3,5)
  show ?thesis
    by (simp add: package_read_frame [OF assms(1,2)] om_erase_def Let_def del: client_call.simps)
qed

section \<open>Properties\<close>

text \<open>What the user of a subscription can rely on: its frames carry its id; the events handed over are those of its
  frames, in order and once each, up to the frame with which its end began; the dropped handler is called at
  most once and nothing is handed over after the end began; the lambda is registered until the user has
  been told; and an end that began has been reported or is waiting, for the answer or in a posted task.\<close>

definition told_faithfully ::
  "(tcp_package_view \<Rightarrow> sub_effect list) \<Rightarrow> ('b subscription_base_scheme) sub_client \<Rightarrow> bool"
where
  "told_faithfully events_of c \<longleftrightarrow>
     (\<forall>v \<in> set (sub_frames c). view_correlation_id v = Some (sb_key (su_sub c))) \<and>
     (cl_thrown c = None \<longrightarrow> (\<exists>seen ignored. sub_frames c = seen @ ignored \<and>
        filter is_event (su_log c) = concat (map events_of seen) \<and>
        (ignored \<noteq> [] \<longrightarrow> sb_handle_guard (su_sub c)))) \<and>
     dropped_calls (su_log c) \<le> 1 \<and> orderly False (su_log c) \<and>
     (om_contains (sb_key (su_sub c)) (subscriptions_map c) \<longleftrightarrow> dropped_calls (su_log c) = 0) \<and>
     (sb_handle_guard (su_sub c) \<longleftrightarrow>
        dropped_calls (su_log c) = 1 \<or> su_tasks c \<noteq> [] \<or> om_contains (sb_key (su_sub c)) (operations_map c)) \<and>
     (dropped_calls (su_log c) = 1 \<longrightarrow> su_tasks c = [] \<and> \<not> om_contains (sb_key (su_sub c)) (operations_map c))"

text \<open>C3: Subscriptions on the wire.  Whatever frames a connection reads and however its deadlines, its send queue, the
  posted tasks, the user and the other users of the connection interleave, a volatile and a persistent
  subscription hand over exactly the events of the frames that reached them before their end, in order and
  once (as long as no exception leaves a handler), report the end at most once, after all events, and are registered exactly until it is reported.  A
  \<open>subscription_dropped\<close> with a reason that the base class ignores is no end in this sense: nothing is reported.\<close>

theorem subscriptions_on_the_wire:
  assumes "22 + length ser < 2 ^ 32" and "22 + length (pk_unsubscribe codec) < 2 ^ 32"
  shows "(sub_client_run (volatile_class ser pd pc pe) (volatile_async_start serialize creds) c \<longrightarrow>
      told_faithfully (volatile_events pe) c) \<and>
    (sub_client_run (persistent_class codec creds) (persistent_async_start connect creds) c' \<longrightarrow>
      told_faithfully (persistent_events codec) c')"
proof (intro conjI impI)
  assume r: "sub_client_run (volatile_class ser pd pc pe) (volatile_async_start serialize creds) c"
  have "class_fits (volatile_class ser pd pc pe)"
    using assms(1) by (simp add: class_fits_def)
  from volatile_wire.run_told [OF r this refl] show "told_faithfully (volatile_events pe) c"
    unfolding told_faithfully_def events_told_def by blast
next
  assume r: "sub_client_run (persistent_class codec creds) (persistent_async_start connect creds) c'"
  have "class_fits (persistent_class codec creds)"
    using assms(2) by (simp add: class_fits_def)
  from persistent_wire.run_told [OF r this refl] show "told_faithfully (persistent_events codec) c'"
    unfolding told_faithfully_def events_told_def by blast
qed

text \<open>The four steps of a volatile subscription in one.\<close>

lemma volatile_steps:
  assumes "is_guid key" and "is_guid g" and "length (username creds) < 256" and "length (password creds) < 256"
    and "request = serialize \<lparr>ss_event_stream_id = stream, ss_resolve_link_tos = resolve\<rparr>"
    and "24 + length (username creds) + length (password creds) + length request < 2 ^ 32"
    and "22 + length m < 2 ^ 32" and "mk_resolved_event (sea_event (pe m)) = Some (e, e')" and "22 + length ser < 2 ^ 32"
    and "frame_ok f n" and "n < 2 ^ 32" and "take 16 (drop 6 f) = key"
    and "d = volatile_class ser pd pc pe" and "c0 = new_volatile cs name key stream resolve"
  shows "\<exists>p1 v1 p2 v2 c1 c2 c3 c4. start_sub (volatile_async_start serialize creds) c0 = Some c1 \<and>
      posted c1 = [p1] \<and> to_view p1 = Some v1 \<and> view_command v1 = Some Subscribe_To_Stream_Command \<and>
      view_correlation_id v1 = Some key \<and> view_message v1 = Some (to_bytes request) \<and>
    package_read (sub_call d) g success (unauthenticated_frame Stream_Event_Appeared_Command flags_none key m) (22 + length m) c1 =
      Some (c2, True) \<and> su_log c2 = [Event_Appeared e None] \<and> posted c2 = [p1] \<and>
    c3 = call_unsubscribe d c2 \<and> posted c3 = [p1, p2] \<and> to_view p2 = Some v2 \<and>
      view_command v2 = Some Unsubscribe_From_Stream_Command \<and> view_correlation_id v2 = Some key \<and>
      om_contains key (subscriptions_map c3) \<and>
      su_log c3 = [Event_Appeared e None, Send_Unsubscribe p2 (subscription_error Unsubscribed)] \<and>
    package_read (sub_call d) g success f n c3 = Some (c4, True) \<and>
    su_log c4 = [Event_Appeared e None, Send_Unsubscribe p2 (subscription_error Unsubscribed),
      Erase key, Dropped (subscription_error Unsubscribed)] \<and>
    posted c4 = [p1, p2] \<and> operations_map c4 = [] \<and> subscriptions_map c4 = [] \<and>
    cl_thrown c1 = None \<and> cl_thrown c2 = None \<and> cl_thrown c3 = None \<and> cl_thrown c4 = None \<and>
    \<not> su_undefined c1 \<and> \<not> su_undefined c2 \<and> \<not> su_undefined c3 \<and> \<not> su_undefined c4"
proof -
  obtain p1 v1 c1 where 1: "start_sub (volatile_async_start serialize creds) c0 = Some c1" "posted c1 = [p1]"
      "to_view p1 = Some v1" "view_command v1 = Some Subscribe_To_Stream_Command" "view_correlation_id v1 = Some key"
      "view_message v1 = Some (to_bytes request)" "operations_map c1 = []" "subscriptions_map c1 = [(key, Sub_Handler Package_Handler)]"
      "su_log c1 = []" "sb_key (su_sub c1) = key" "\<not> sb_handle_guard (su_sub c1)" "cl_thrown c1 = None" "\<not> su_undefined c1"
    using volatile_starts [where serialize = serialize and stream = stream and resolve = resolve and cs = cs and name = name,
        OF assms(1,3-6)]
    unfolding assms(14) by blast
  obtain c2 where 2: "package_read (sub_call d) g success (unauthenticated_frame Stream_Event_Appeared_Command flags_none key m)
        (22 + length m) c1 = Some (c2, True)" "su_log c2 = [Event_Appeared e None]" "posted c2 = [p1]" "operations_map c2 = []"
      "subscriptions_map c2 = [(key, Sub_Handler Package_Handler)]" "su_sub c2 = su_sub c1" "cl_thrown c2 = None" "\<not> su_undefined c2"
    using volatile_event_step [where pe = pe, OF assms(1,7,8) 1(7,8,11), of ser pd pc g] 1 unfolding assms(13) by auto
  have key2: "sb_key (su_sub c2) = key" "\<not> sb_handle_guard (su_sub c2)"
    using 1 2 by simp_all
  obtain p2 v2 where 3: "posted (call_unsubscribe d c2) = posted c2 @ [p2]" "to_view p2 = Some v2"
      "view_command v2 = Some Unsubscribe_From_Stream_Command" "view_correlation_id v2 = Some key"
      "su_log (call_unsubscribe d c2) = su_log c2 @ [Send_Unsubscribe p2 (subscription_error Unsubscribed)]"
      "operations_map (call_unsubscribe d c2) = [(key, Op_Handler key (Unsubscribed_Handler (subscription_error Unsubscribed)))]"
      "subscriptions_map (call_unsubscribe d c2) = subscriptions_map c2" "sb_key (su_sub (call_unsubscribe d c2)) = key"
      "cl_thrown (call_unsubscribe d c2) = cl_thrown c2" "su_undefined (call_unsubscribe d c2) = su_undefined c2"
    using volatile_unsubscribe_step [OF assms(1,9) 2(4) key2(1) 2(5) key2(2) refl, of pd pc pe] unfolding assms(13) by blast
  have subs3: "subscriptions_map (call_unsubscribe d c2) = [(key, Sub_Handler Package_Handler)]"
    using 3 2 by simp
  obtain c4 where 4: "package_read (sub_call d) g success f n (call_unsubscribe d c2) = Some (c4, True)"
      "su_log c4 = su_log (call_unsubscribe d c2) @ [Erase key, Dropped (subscription_error Unsubscribed)]"
      "posted c4 = posted (call_unsubscribe d c2)" "operations_map c4 = []" "subscriptions_map c4 = []"
      "cl_thrown c4 = cl_thrown (call_unsubscribe d c2)" "su_undefined c4 = su_undefined (call_unsubscribe d c2)"
    using volatile_answer_step [OF assms(10-12) 3(8,6) subs3, of ser pd pc pe g] unfolding assms(13) by blast
  show ?thesis
    using 1 2 3 4
    by (intro exI [of _ p1] exI [of _ v1] exI [of _ p2] exI [of _ v2] exI [of _ c1] exI [of _ c2]
        exI [of _ "call_unsubscribe d c2"] exI [of _ c4]) (simp add: om_contains_def)
qed

text \<open>C7: A subscription from its start to its end.  Starting it posts one package, the request with the name of the
  stream under the id of the subscription.  The bytes of the frame of an event call the user's handler with
  that event.  The user's \<open>unsubscribe()\<close> posts one more package, under the same id, and tells nobody yet.  The
  next frame with this id is taken for its answer, whatever its command and its body, so that an event
  that was on its way is not handed over: the user is told, and both maps are empty again.\<close>

theorem subscription_end_to_end:
  assumes "is_guid key" and "is_guid g" and "length (username creds) < 256" and "length (password creds) < 256"
    and "request = serialize \<lparr>ss_event_stream_id = stream, ss_resolve_link_tos = resolve\<rparr>"
    and "24 + length (username creds) + length (password creds) + length request < 2 ^ 32"
    and "22 + length m < 2 ^ 32" and "mk_resolved_event (sea_event (pe m)) = Some (e, e')" and "22 + length ser < 2 ^ 32"
    and "frame_ok f n" and "n < 2 ^ 32" and "take 16 (drop 6 f) = key"
    and "d = volatile_class ser pd pc pe" and "c0 = new_volatile cs name key stream resolve"
  shows "\<exists>p1 v1 p2 v2 c1 c2 c3 c4. start_sub (volatile_async_start serialize creds) c0 = Some c1 \<and>
      posted c1 = [p1] \<and> to_view p1 = Some v1 \<and> view_command v1 = Some Subscribe_To_Stream_Command \<and>
      view_correlation_id v1 = Some key \<and> view_message v1 = Some (to_bytes request) \<and>
    package_read (sub_call d) g success (unauthenticated_frame Stream_Event_Appeared_Command flags_none key m) (22 + length m) c1 =
      Some (c2, True) \<and> su_log c2 = [Event_Appeared e None] \<and>
    c3 = call_unsubscribe d c2 \<and> posted c3 = [p1, p2] \<and> to_view p2 = Some v2 \<and>
      view_command v2 = Some Unsubscribe_From_Stream_Command \<and> view_correlation_id v2 = Some key \<and>
      om_contains key (subscriptions_map c3) \<and>
      su_log c3 = [Event_Appeared e None, Send_Unsubscribe p2 (subscription_error Unsubscribed)] \<and>
    package_read (sub_call d) g success f n c3 = Some (c4, True) \<and>
    su_log c4 = [Event_Appeared e None, Send_Unsubscribe p2 (subscription_error Unsubscribed),
      Erase key, Dropped (subscription_error Unsubscribed)] \<and>
    posted c4 = [p1, p2] \<and> operations_map c4 = [] \<and> subscriptions_map c4 = [] \<and> cl_thrown c4 = None \<and> \<not> su_undefined c4"
  using volatile_steps [where serialize = serialize and stream = stream and resolve = resolve and pe = pe and pd = pd and pc = pc and
      cs = cs and name = name, OF assms] by blast

text \<open>A concrete one.\<close>

definition wire_confirmation :: "bytes \<Rightarrow> subscription_confirmation" where
  "wire_confirmation = (\<lambda>_. \<lparr>sc_last_commit_position = 0, sc_last_event_number = None\<rparr>)"

definition wire_appeared :: "bytes \<Rightarrow> stream_event_appeared" where
  "wire_appeared = (\<lambda>_. \<lparr>sea_event = \<lparr>re_event = None, re_link = None, re_commit_position = 5, re_prepare_position = 5\<rparr>\<rparr>)"

definition wire_class :: "volatile_subscription subscription_class" where
  "wire_class = volatile_class [] (\<lambda>_. \<lparr>sd_reason = SD_Unsubscribed\<rparr>) wire_confirmation wire_appeared"

definition wire_event :: resolved_event where
  "wire_event = fst (the (mk_resolved_event (sea_event (wire_appeared []))))"

lemma wire_fits:
  defines "key \<equiv> replicate 16 1"
  shows "is_guid key" and "is_guid (replicate 16 (9 :: byte))" and "length (username credentials_default) < 256"
    and "length (password credentials_default) < 256"
    and "''x'' = (\<lambda>_ :: subscribe_to_stream. ''x'') \<lparr>ss_event_stream_id = ''s'', ss_resolve_link_tos = True\<rparr>"
    and "24 + length (username credentials_default) + length (password credentials_default) + length ''x'' < 2 ^ 32"
    and "22 + length ([] :: bytes) < 2 ^ 32"
    and "mk_resolved_event (sea_event (wire_appeared [])) = Some (wire_event, snd (the (mk_resolved_event (sea_event (wire_appeared [])))))"
    and "22 + length ([] :: string) < 2 ^ 32"
    and "frame_ok (unauthenticated_frame Stream_Event_Appeared_Command flags_none key []) 22" and "(22 :: nat) < 2 ^ 32"
    and "take 16 (drop 6 (unauthenticated_frame Stream_Event_Appeared_Command flags_none key [])) = key"
proof -
  have z: "and flags_none flags_authenticated = 0" and k: "is_guid key"
    by (simp_all add: flags_none_def key_def is_guid_def)
  note F = unauthenticated_frame_ok [OF k z, of Stream_Event_Appeared_Command "[]"]
  show "frame_ok (unauthenticated_frame Stream_Event_Appeared_Command flags_none key []) 22"
    using F(1) by simp
  show "take 16 (drop 6 (unauthenticated_frame Stream_Event_Appeared_Command flags_none key [])) = key"
    by (rule F(4))
qed (simp_all add: key_def is_guid_def wire_event_def wire_appeared_def mk_resolved_event_def emplace_event_def
      credentials_default_def)

theorem subscription_end_to_end_witness:
  "\<exists>c1 c2 c4 p. start_sub (volatile_async_start (\<lambda>_. ''x'') credentials_default)
      (new_volatile connection_settings_default ''c'' (replicate 16 1) ''s'' True) = Some c1 \<and>
    package_read (sub_call wire_class) (replicate 16 9) success
      (unauthenticated_frame Stream_Event_Appeared_Command flags_none (replicate 16 1) []) 22 c1 = Some (c2, True) \<and>
    package_read (sub_call wire_class) (replicate 16 9) success
      (unauthenticated_frame Stream_Event_Appeared_Command flags_none (replicate 16 1) []) 22 (call_unsubscribe wire_class c2) = Some (c4, True) \<and>
    su_log c4 = [Event_Appeared wire_event None, Send_Unsubscribe p (subscription_error Unsubscribed),
      Erase (replicate 16 1), Dropped (subscription_error Unsubscribed)]"
  using subscription_end_to_end [where serialize = "\<lambda>_. ''x''" and stream = "''s''" and resolve = True and pe = wire_appeared and
      pd = "\<lambda>_. \<lparr>sd_reason = SD_Unsubscribed\<rparr>" and pc = wire_confirmation and
      cs = connection_settings_default and name = "''c''", OF wire_fits wire_class_def refl]
  unfolding list.size add_0_right by blast

text \<open>The same run, as the runs above are built.\<close>

lemma wire_run:
  "\<exists>c3 c4 p. sub_client_run wire_class (volatile_async_start (\<lambda>_. ''x'') credentials_default) c3 \<and>
     sub_client_run wire_class (volatile_async_start (\<lambda>_. ''x'') credentials_default) c4 \<and>
     sb_handle_guard (su_sub c3) \<and> dropped_calls (su_log c3) = 0 \<and> cl_thrown c3 = None \<and> cl_thrown c4 = None \<and>
     su_log c4 = [Event_Appeared wire_event None, Send_Unsubscribe p (subscription_error Unsubscribed),
       Erase (replicate 16 1), Dropped (subscription_error Unsubscribed)]"
proof -
  let ?key = "replicate 16 (1 :: byte)" and ?g = "replicate 16 (9 :: byte)"
    and ?f = "unauthenticated_frame Stream_Event_Appeared_Command flags_none (replicate 16 1) []"
    and ?run = "sub_client_run wire_class (volatile_async_start (\<lambda>_. ''x'') credentials_default)"
  obtain c1 c2 c3 c4 p where c: "start_sub (volatile_async_start (\<lambda>_. ''x'') credentials_default)
        (new_volatile connection_settings_default ''c'' ?key ''s'' True) = Some c1"
      "package_read (sub_call wire_class) ?g success ?f 22 c1 = Some (c2, True)" "c3 = call_unsubscribe wire_class c2"
      "package_read (sub_call wire_class) ?g success ?f 22 c3 = Some (c4, True)"
      "su_log c3 = [Event_Appeared wire_event None, Send_Unsubscribe p (subscription_error Unsubscribed)]"
      "su_log c4 = [Event_Appeared wire_event None, Send_Unsubscribe p (subscription_error Unsubscribed),
         Erase ?key, Dropped (subscription_error Unsubscribed)]"
    and ok: "cl_thrown c1 = None" "cl_thrown c2 = None" "cl_thrown c3 = None" "cl_thrown c4 = None"
      "\<not> su_undefined c2" "\<not> su_undefined c3" "\<not> su_undefined c4"
    using volatile_steps [where serialize = "\<lambda>_. ''x''" and stream = "''s''" and resolve = True and pe = wire_appeared and
        pd = "\<lambda>_. \<lparr>sd_reason = SD_Unsubscribed\<rparr>" and pc = wire_confirmation and
        cs = connection_settings_default and name = "''c''", OF wire_fits wire_class_def refl]
    unfolding list.size add_0_right by (elim exE conjE) simp
  have 1: "?run c1"
    using wire_fits(1) by (intro sub_client_run.start [OF _ _ c(1)]) simp_all
  have 2: "?run c2"
    by (rule sub_client_run.step [OF 1 sub_step.receive [OF ok(1) c(2)] ok(5)])
  have 3: "?run c3"
    using sub_client_run.step [OF 2 sub_step.user [OF ok(2)]] ok(6) unfolding c(3) by blast
  have 4: "?run c4"
    by (rule sub_client_run.step [OF 3 sub_step.receive [OF ok(3) c(4)] ok(7)])
  have "sb_handle_guard (su_sub c3)"
    using volatile_wire.run_told(7) [OF 3 [unfolded wire_class_def] _ refl] c(5) by (simp add: class_fits_def)
  moreover have "dropped_calls (su_log c3) = 0"
    by (simp add: c(5) dropped_calls_def)
  ultimately show ?thesis
    using 3 4 c(6) ok(3,4) by blast
qed

theorem subscriptions_on_the_wire_witness:
  "\<exists>c :: volatile_subscription sub_client. dropped_calls (su_log c) = 1 \<and> told_faithfully (volatile_events wire_appeared) c \<and>
     filter is_event (su_log c) = [Event_Appeared wire_event None]"
proof -
  obtain c p where c: "sub_client_run wire_class (volatile_async_start (\<lambda>_. ''x'') credentials_default) c"
      "su_log c = [Event_Appeared wire_event None, Send_Unsubscribe p (subscription_error Unsubscribed),
         Erase (replicate 16 1), Dropped (subscription_error Unsubscribed)]"
    using wire_run by blast
  have "22 + length (pk_unsubscribe sample_persistent_codec) < 2 ^ 32"
    by (simp add: sample_persistent_codec_def)
  from conjunct1 [OF subscriptions_on_the_wire [OF wire_fits(9) this], THEN mp, OF c(1) [unfolded wire_class_def]] c(2)
  show ?thesis
    by (intro exI [of _ c]) (simp add: dropped_calls_def)
qed

text \<open>C8: An end that began is reported.  In whatever state a run leaves a volatile or a persistent subscription whose end
  began, the event loop gets to the user in at most three steps of its own, if no exception has stopped
  it: the deadline of the unsubscription expires, its completion posts the task, and the task tells the
  user.  The server is not needed for it.\<close>

theorem subscription_end_reported:
  assumes "22 + length ser < 2 ^ 32" and "22 + length (pk_unsubscribe codec) < 2 ^ 32"
  shows "(sub_client_run (volatile_class ser pd pc pe) (volatile_async_start serialize creds) c \<and>
        sb_handle_guard (su_sub c) \<and> cl_thrown c = None \<longrightarrow>
      (\<exists>n c'. n \<le> 3 \<and> (loop_step (volatile_class ser pd pc pe) ^^ n) c c' \<and> dropped_calls (su_log c') = 1 \<and> cl_thrown c' = None)) \<and>
    (sub_client_run (persistent_class codec creds) (persistent_async_start connect creds) b \<and>
        sb_handle_guard (su_sub b) \<and> cl_thrown b = None \<longrightarrow>
      (\<exists>n b'. n \<le> 3 \<and> (loop_step (persistent_class codec creds) ^^ n) b b' \<and> dropped_calls (su_log b') = 1 \<and> cl_thrown b' = None))"
  using volatile_wire.end_reported [of ser pd pc pe serialize creds c] persistent_wire.end_reported [of codec creds connect b] assms
  by (simp add: class_fits_def)

theorem subscription_end_reported_witness:
  "\<exists>n c c'. n \<le> 3 \<and> (loop_step wire_class ^^ n) c c' \<and> dropped_calls (su_log c) = 0 \<and> dropped_calls (su_log c') = 1"
proof -
  obtain c where c: "sub_client_run wire_class (volatile_async_start (\<lambda>_. ''x'') credentials_default) c"
      "sb_handle_guard (su_sub c)" "dropped_calls (su_log c) = 0" "cl_thrown c = None"
    using wire_run by blast
  have "22 + length (pk_unsubscribe sample_persistent_codec) < 2 ^ 32"
    by (simp add: sample_persistent_codec_def)
  from conjunct1 [OF subscription_end_reported [OF wire_fits(9) this], THEN mp, OF conjI [OF c(1) [unfolded wire_class_def] conjI [OF c(2,4)]]] c(3)
  show ?thesis
    unfolding wire_class_def by blast
qed

end
