(* ===== verification/Catchup_Subscriptions.thy ===== *)
theory Catchup_Subscriptions
  imports Live_Subscriptions Buffer_Queue Read_Operations
begin

text \<open>
  \<open>subscription/catchup_subscription.hpp\<close> and \<open>subscription/catchup_all_subscription.hpp\<close>: subscriptions
  that first read the past events in slices, then subscribe, read what was written in between, and
  only then hand over the live events, which are buffered meanwhile in a \<open>buffer_queue\<close> with chunks of 25.

  The reads and the posted task are effects (\<open>Catch_Up_Stream\<close>, \<open>Catch_Up_Missed\<close>, \<open>Post_Read_Buffer\<close>, and
  the two of the \<open>all\<close> stream); the handlers they later run are the definitions here.  The
  handlers of the missed reads hold references into the registered package handler: they are
  considered while it is registered.  The queue is used through the facts of \<open>bq\<close>, the interpretation
  of the interface \<open>fifo_queue\<close>.
\<close>

section \<open>catchup_subscription\<close>

record catchup_subscription = subscription_base +
  cg_current_event_number :: int
  cg_settings :: catchup_subscription_settings
  cg_event_buffer :: "resolved_event buffer_queue"

record catchup_codec =
  ck_subscribe :: "subscribe_to_stream \<Rightarrow> string"
  ck_unsubscribe :: string
  ck_confirmation :: "bytes \<Rightarrow> subscription_confirmation"
  ck_event :: "bytes \<Rightarrow> stream_event_appeared"

definition mk_catchup_subscription ::
  "guid \<Rightarrow> string \<Rightarrow> int \<Rightarrow> catchup_subscription_settings \<Rightarrow> catchup_subscription"
where
  "mk_catchup_subscription key stream from_event_number cfg =
     subscription_base.extend (mk_subscription_base key stream)
       (catchup_subscription.fields from_event_number cfg bq_empty)"

definition catchup_shutdown :: "catchup_subscription \<Rightarrow> catchup_subscription" where
  "catchup_shutdown s = s\<lparr>cg_event_buffer := bq_clear (cg_event_buffer s)\<rparr>"

text \<open>The request of \<open>catch_up_events\<close>; the count is cast to \<open>int\<close>.\<close>

definition catch_up_events ::
  "(read_stream_events_msg \<Rightarrow> string) \<Rightarrow> user_credentials \<Rightarrow> bool \<Rightarrow> guid \<Rightarrow> catchup_subscription \<Rightarrow> int \<Rightarrow> int \<Rightarrow>
     tcp_package option"
where
  "catch_up_events serialize creds require_master corr_id s from_number n =
     read_stream_events_request serialize creds require_master corr_id (sb_stream s) Forward from_number
       (int32_of n) (cu_resolve_link_tos (cg_settings s))"

text \<open>\<open>async_start\<close> starts the reads; \<open>do_async_start\<close> subscribes.\<close>

definition catchup_async_start :: "catchup_subscription \<Rightarrow> sub_effect list \<times> catchup_subscription" where
  "catchup_async_start s =
     ([Catch_Up_Stream (cg_current_event_number s) (cu_read_batch_size (cg_settings s))], s)"

definition catchup_do_async_start ::
  "catchup_codec \<Rightarrow> user_credentials \<Rightarrow> catchup_subscription \<Rightarrow> (sub_effect list \<times> catchup_subscription) option"
where
  "catchup_do_async_start codec creds s =
    (let request = \<lparr>ss_event_stream_id = sb_stream s, ss_resolve_link_tos = cu_resolve_link_tos (cg_settings s)\<rparr> in do {
       p \<leftarrow> request_package Subscribe_To_Stream_Command creds (sb_key s) (to_bytes (ck_subscribe codec request));
       case base_async_start s of (effects, s) \<Rightarrow> Some (effects @ [Send_Package p], s) })"

text \<open>The loops over the events of a slice: each event is handed over and counted.\<close>

fun deliver_slice :: "resolved_event list \<Rightarrow> catchup_subscription \<Rightarrow> sub_effect list \<times> catchup_subscription" where
  "deliver_slice [] s = ([], s)"
| "deliver_slice (e # es) s =
    (case deliver_slice es (s\<lparr>cg_current_event_number := cg_current_event_number s + 1\<rparr>) of
       (effects, s') \<Rightarrow> (Event_Appeared e None # effects, s'))"

text \<open>The handler of the reads started by \<open>async_start\<close>.\<close>

definition catchup_slice_read ::
  "catchup_codec \<Rightarrow> user_credentials \<Rightarrow> error_code \<Rightarrow> stream_events_slice option \<Rightarrow> catchup_subscription \<Rightarrow>
     (exn + sub_effect list \<times> catchup_subscription) option"
where
  "catchup_slice_read codec creds ec result s =
    (if \<not> failed ec then
      (case result of
         None \<Rightarrow> Some (Inl Bad_Optional_Access)
       | Some val \<Rightarrow>
           (case deliver_slice (ses_events val) s of (effects, s) \<Rightarrow>
             if ses_is_end_of_stream val
             then map_option (\<lambda>(effects', s'). Inr (effects @ effects', s')) (catchup_do_async_start codec creds s)
             else (case catchup_async_start s of (effects', s') \<Rightarrow> Some (Inr (effects @ effects', s')))))
     else map_option Inr (unsubscribe (ck_unsubscribe codec) catchup_shutdown
       (subscription_error Subscription_Request_Not_Sent) s))"

text \<open>\<open>read_subscription_events\<close>: at most \<open>max_live_queue_size\<close> events, then the rest in a posted task.\<close>

fun drain_buffer :: "nat \<Rightarrow> catchup_subscription \<Rightarrow> (sub_effect list \<times> catchup_subscription) option" where
  "drain_buffer 0 s = Some ([], s)"
| "drain_buffer (Suc n) s =
    (if bq_is_empty (cg_event_buffer s) then Some ([], s)
     else do {
       e \<leftarrow> bq_front (cg_event_buffer s);
       q \<leftarrow> bq_pop_front 25 (cg_event_buffer s);
       r \<leftarrow> drain_buffer n (s\<lparr>cg_event_buffer := q, cg_current_event_number := cg_current_event_number s + 1\<rparr>);
       Some (Event_Appeared e None # fst r, snd r) })"

definition read_subscription_events :: "catchup_subscription \<Rightarrow> (sub_effect list \<times> catchup_subscription) option" where
  "read_subscription_events s = do {
     (effects, s) \<leftarrow> drain_buffer (nat (cu_max_live_queue_size (cg_settings s))) s;
     Some (if bq_is_empty (cg_event_buffer s) then (effects, s) else (effects @ [Post_Read_Buffer], s)) }"

definition catch_up_missed_events :: "int \<Rightarrow> catchup_subscription \<Rightarrow> sub_effect list \<times> catchup_subscription" where
  "catch_up_missed_events n s = ([Catch_Up_Missed (cg_current_event_number s) n], s)"

text \<open>The handler of the reads of \<open>catch_up_missed_events\<close>.  It does not look at the guard.\<close>

definition missed_slice_read ::
  "catchup_codec \<Rightarrow> int \<Rightarrow> error_code \<Rightarrow> stream_events_slice option \<Rightarrow> catchup_subscription \<Rightarrow>
     (exn + sub_effect list \<times> catchup_subscription) option"
where
  "missed_slice_read codec n ec result s =
    (if \<not> failed ec then
      (case result of
         None \<Rightarrow> Some (Inl Bad_Optional_Access)
       | Some val \<Rightarrow>
           (case deliver_slice (ses_events val) s of (effects, s) \<Rightarrow>
             let mutable_count = n - int (length (ses_events val)) in
             if mutable_count > 0
             then (case catch_up_missed_events mutable_count s of (effects', s') \<Rightarrow> Some (Inr (effects @ effects', s')))
             else Some (Inr (effects @ [Post_Read_Buffer], s))))
     else map_option Inr (unsubscribe (ck_unsubscribe codec) catchup_shutdown ec s))"

definition catchup_on_package ::
  "catchup_codec \<Rightarrow> tcp_package_view \<Rightarrow> catchup_subscription \<Rightarrow>
     (exn + bool \<times> sub_effect list \<times> catchup_subscription) option"
where
  "catchup_on_package codec v s = do {
     c \<leftarrow> view_command v;
     if c = Subscription_Confirmation_Command
     then do {
       m \<leftarrow> view_message v;
       let response = ck_confirmation codec m;
       let s = s\<lparr>sb_last_commit_position := Some (sc_last_commit_position response), sb_subscribed := True\<rparr>;
       case sc_last_event_number response of
         None \<Rightarrow> map_option (\<lambda>(effects, s'). Inr (True, effects, s'))
           (unsubscribe (ck_unsubscribe codec) catchup_shutdown (subscription_error Bad_Subscription_Confirmation) s)
       | Some l \<Rightarrow>
           (let s = s\<lparr>sb_last_event_number := Some l\<rparr> in
            if l > cg_current_event_number s
            then (case catch_up_missed_events (l - cg_current_event_number s) s of
              (effects, s') \<Rightarrow> Some (Inr (True, effects, s')))
            else Some (Inr (True, [], s))) }
     else if c = Stream_Event_Appeared_Command
     then do {
       m \<leftarrow> view_message v;
       (e, _) \<leftarrow> mk_resolved_event (sea_event (ck_event codec m));
       q \<leftarrow> bq_push_back 25 e (cg_event_buffer s);
       let s = s\<lparr>cg_event_buffer := q\<rparr>;
       f \<leftarrow> bq_front q;
       case (event f, sb_last_event_number s) of
         (Some r, Some l) \<Rightarrow>
           (if l > cg_current_event_number s then Some (Inr (True, [], s))
            else if bq_size 25 q = 1
            then map_option (\<lambda>(effects, s'). Inr (True, effects, s')) (read_subscription_events s)
            else Some (Inr (True, [], s)))
       | _ \<Rightarrow> Some (Inl Bad_Optional_Access) }
     else Some (Inr (False, [], s)) }"

section \<open>catchup_all_subscription\<close>

record catchup_all_subscription = subscription_base +
  ca_current_position :: position
  ca_settings :: catchup_subscription_settings
  ca_event_buffer :: "resolved_event buffer_queue"
  ca_position_to_catch_up_to :: position

definition mk_catchup_all_subscription ::
  "guid \<Rightarrow> position \<Rightarrow> catchup_subscription_settings \<Rightarrow> catchup_all_subscription"
where
  "mk_catchup_all_subscription key from_position cfg =
     subscription_base.extend (mk_subscription_base key [])
       (catchup_all_subscription.fields from_position cfg bq_empty position_default)"

definition catchup_all_shutdown :: "catchup_all_subscription \<Rightarrow> catchup_all_subscription" where
  "catchup_all_shutdown s = s\<lparr>ca_event_buffer := bq_clear (ca_event_buffer s)\<rparr>"

definition catch_up_all_events ::
  "(read_all_events_msg \<Rightarrow> string) \<Rightarrow> user_credentials \<Rightarrow> bool \<Rightarrow> guid \<Rightarrow> catchup_all_subscription \<Rightarrow> position \<Rightarrow> int \<Rightarrow>
     tcp_package option"
where
  "catch_up_all_events serialize creds require_master corr_id s from_position n =
     read_all_events_request serialize creds require_master corr_id Forward from_position (int32_of n)
       (cu_resolve_link_tos (ca_settings s))"

definition catchup_all_async_start :: "catchup_all_subscription \<Rightarrow> sub_effect list \<times> catchup_all_subscription" where
  "catchup_all_async_start s =
     ([Catch_Up_All (ca_current_position s) (cu_read_batch_size (ca_settings s))], s)"

definition catchup_all_do_async_start ::
  "catchup_codec \<Rightarrow> user_credentials \<Rightarrow> catchup_all_subscription \<Rightarrow>
     (sub_effect list \<times> catchup_all_subscription) option"
where
  "catchup_all_do_async_start codec creds s =
    (let request = \<lparr>ss_event_stream_id = sb_stream s, ss_resolve_link_tos = cu_resolve_link_tos (ca_settings s)\<rparr> in do {
       p \<leftarrow> request_package Subscribe_To_Stream_Command creds (sb_key s) (to_bytes (ck_subscribe codec request));
       case base_async_start s of (effects, s) \<Rightarrow> Some (effects @ [Send_Package p], s) })"

text \<open>The handler of the reads started by \<open>async_start\<close>.\<close>

definition catchup_all_slice_read ::
  "catchup_codec \<Rightarrow> user_credentials \<Rightarrow> error_code \<Rightarrow> all_events_slice option \<Rightarrow> catchup_all_subscription \<Rightarrow>
     (exn + sub_effect list \<times> catchup_all_subscription) option"
where
  "catchup_all_slice_read codec creds ec result s =
    (if \<not> failed ec then
      (case result of
         None \<Rightarrow> Some (Inl Bad_Optional_Access)
       | Some val \<Rightarrow>
           (let effects = map (\<lambda>e. Event_Appeared e None) (aes_events val) in
             if aes_is_end_of_stream val
             then map_option (\<lambda>(effects', s'). Inr (effects @ effects', s')) (catchup_all_do_async_start codec creds s)
             else (case catchup_all_async_start (s\<lparr>ca_current_position := aes_next_position val\<rparr>) of
               (effects', s') \<Rightarrow> Some (Inr (effects @ effects', s')))))
     else map_option Inr (unsubscribe (ck_unsubscribe codec) catchup_all_shutdown
       (subscription_error Subscription_Request_Not_Sent) s))"

text \<open>\<open>read_subscription_events\<close>; \<open>value()\<close> throws for an event without a position.\<close>

fun drain_all_buffer ::
  "nat \<Rightarrow> catchup_all_subscription \<Rightarrow> (exn + sub_effect list \<times> catchup_all_subscription) option"
where
  "drain_all_buffer 0 s = Some (Inr ([], s))"
| "drain_all_buffer (Suc n) s =
    (if bq_is_empty (ca_event_buffer s) then Some (Inr ([], s))
     else do {
       e \<leftarrow> bq_front (ca_event_buffer s);
       case original_position e of
         None \<Rightarrow> Some (Inl Bad_Optional_Access)
       | Some p \<Rightarrow> do {
           q \<leftarrow> bq_pop_front 25 (ca_event_buffer s);
           r \<leftarrow> drain_all_buffer n (s\<lparr>ca_current_position := p, ca_event_buffer := q\<rparr>);
           Some (case r of Inl x \<Rightarrow> Inl x | Inr (es, s') \<Rightarrow> Inr (Event_Appeared e None # es, s')) } })"

definition read_all_subscription_events ::
  "catchup_all_subscription \<Rightarrow> (exn + sub_effect list \<times> catchup_all_subscription) option"
where
  "read_all_subscription_events s = do {
     r \<leftarrow> drain_all_buffer (nat (cu_max_live_queue_size (ca_settings s))) s;
     Some (case r of Inl x \<Rightarrow> Inl x
       | Inr (effects, s) \<Rightarrow>
           Inr (if bq_is_empty (ca_event_buffer s) then (effects, s) else (effects @ [Post_Read_Buffer], s))) }"

definition catch_up_all_missed_events ::
  "int \<Rightarrow> catchup_all_subscription \<Rightarrow> sub_effect list \<times> catchup_all_subscription"
where
  "catch_up_all_missed_events n s = ([Catch_Up_All_Missed (ca_current_position s) n], s)"

text \<open>The loop over a slice of missed events: whether to read on, the events handed over, the state.\<close>

fun deliver_missed ::
  "resolved_event list \<Rightarrow> catchup_all_subscription \<Rightarrow> exn + bool \<times> sub_effect list \<times> catchup_all_subscription"
where
  "deliver_missed [] s = Inr (True, [], s)"
| "deliver_missed (e # es) s =
    (case original_position e of
       None \<Rightarrow> Inl Bad_Optional_Access
     | Some p \<Rightarrow>
         (let s = s\<lparr>ca_current_position := p\<rparr> in
          if position_eq (ca_current_position s) (ca_position_to_catch_up_to s) then Inr (False, [], s)
          else (case deliver_missed es s of Inl x \<Rightarrow> Inl x
            | Inr (continue, effects, s') \<Rightarrow> Inr (continue, Event_Appeared e None # effects, s'))))"

definition all_missed_slice_read ::
  "catchup_codec \<Rightarrow> int \<Rightarrow> error_code \<Rightarrow> all_events_slice option \<Rightarrow> catchup_all_subscription \<Rightarrow>
     (exn + sub_effect list \<times> catchup_all_subscription) option"
where
  "all_missed_slice_read codec n ec result s =
    (if \<not> failed ec then
      (case result of
         None \<Rightarrow> Some (Inl Bad_Optional_Access)
       | Some val \<Rightarrow>
           (case deliver_missed (aes_events val) s of
              Inl x \<Rightarrow> Some (Inl x)
            | Inr (continue_next_batch, effects, s) \<Rightarrow>
                if continue_next_batch
                then (case catch_up_all_missed_events n s of (effects', s') \<Rightarrow> Some (Inr (effects @ effects', s')))
                else map_option (\<lambda>r. case r of Inl x \<Rightarrow> Inl x | Inr (effects', s') \<Rightarrow> Inr (effects @ effects', s'))
                  (read_all_subscription_events s)))
     else map_option Inr (unsubscribe (ck_unsubscribe codec) catchup_all_shutdown ec s))"

text \<open>\<open>return true\<close> after \<open>read_subscription_events\<close>.\<close>

fun handled_package ::
  "exn + sub_effect list \<times> catchup_all_subscription \<Rightarrow> exn + bool \<times> sub_effect list \<times> catchup_all_subscription"
where
  "handled_package (Inl x) = Inl x"
| "handled_package (Inr (effects, s)) = Inr (True, effects, s)"

lemma handled_package_Inr [simp]:
  "handled_package r = Inr (h, effects, s) \<longleftrightarrow> h \<and> r = Inr (effects, s)"
  by (cases r rule: handled_package.cases) auto

definition catchup_all_on_package ::
  "catchup_codec \<Rightarrow> tcp_package_view \<Rightarrow> catchup_all_subscription \<Rightarrow>
     (exn + bool \<times> sub_effect list \<times> catchup_all_subscription) option"
where
  "catchup_all_on_package codec v s = do {
     c \<leftarrow> view_command v;
     if c = Subscription_Confirmation_Command
     then do {
       m \<leftarrow> view_message v;
       let response = ck_confirmation codec m;
       let s = s\<lparr>sb_last_commit_position := Some (sc_last_commit_position response), sb_subscribed := True\<rparr>;
       let s = (case sc_last_event_number response of None \<Rightarrow> s | Some l \<Rightarrow> s\<lparr>sb_last_event_number := Some l\<rparr>);
       let s = s\<lparr>ca_position_to_catch_up_to :=
             Position (sc_last_commit_position response) (sc_last_commit_position response)\<rparr>;
       if position_gt (ca_position_to_catch_up_to s) (ca_current_position s)
       then (case catch_up_all_missed_events (cu_read_batch_size (ca_settings s)) s of
         (effects, s') \<Rightarrow> Some (Inr (True, effects, s')))
       else Some (Inr (True, [], s)) }
     else if c = Stream_Event_Appeared_Command
     then do {
       m \<leftarrow> view_message v;
       (e, _) \<leftarrow> mk_resolved_event (sea_event (ck_event codec m));
       q \<leftarrow> bq_push_back 25 e (ca_event_buffer s);
       let s = s\<lparr>ca_event_buffer := q\<rparr>;
       if position_gt (ca_position_to_catch_up_to s) (ca_current_position s) then Some (Inr (True, [], s))
       else if bq_size 25 q = 1
       then map_option handled_package (read_all_subscription_events s)
       else Some (Inr (True, [], s)) }
     else Some (Inr (False, [], s)) }"

section \<open>Both are derived subscriptions\<close>

lemma catchup_shutdown_simps [simp]:
  "sb_handle_guard (catchup_shutdown s) = sb_handle_guard s" "sb_key (catchup_shutdown s) = sb_key s"
  "sb_handle_guard (catchup_all_shutdown a) = sb_handle_guard a" "sb_key (catchup_all_shutdown a) = sb_key a"
  by (simp_all add: catchup_shutdown_def catchup_all_shutdown_def)

lemma catchup_unsubscribe:
  "unsubscribe ser catchup_shutdown ec s = Some (effects, s') \<Longrightarrow>
     sb_handle_guard s' \<and> sb_key s' = sb_key s \<and> drops effects = 1 \<and> orderly False effects \<and>
     \<not> (\<exists>e \<in> set effects. is_dropped e)"
  by (auto simp: unsubscribe_def Let_def split: if_splits Option.bind_splits)

text \<open>Events only, and perhaps a posted task.\<close>

lemma quiet_effects:
  assumes "\<forall>e \<in> set es. is_event e \<or> e = Post_Read_Buffer"
  shows "drops es = 0 \<and> orderly False es \<and> \<not> (\<exists>e \<in> set es. is_dropped e)"
proof -
  have "\<not> is_drop e \<and> \<not> is_dropped e" if "is_event e \<or> e = Post_Read_Buffer" for e
    using that by (cases e) auto
  with assms show ?thesis
    by (induction es) auto
qed

lemma drain_buffer_effects:
  "drain_buffer n s = Some (es, s') \<Longrightarrow>
     sb_handle_guard s' = sb_handle_guard s \<and> sb_key s' = sb_key s \<and> (\<forall>e \<in> set es. is_event e)"
proof (induction n arbitrary: s es s')
  case (Suc n)
  show ?case
  proof (cases "bq_is_empty (cg_event_buffer s)")
    case False
    then obtain e q es1 where "drain_buffer n (s\<lparr>cg_event_buffer := q, cg_current_event_number := cg_current_event_number s + 1\<rparr>) = Some (es1, s')"
      and "es = Event_Appeared e None # es1"
      using Suc.prems by (auto split: Option.bind_splits)
    with Suc.IH show ?thesis by fastforce
  qed (use Suc.prems in auto)
qed simp

lemma read_subscription_events_effects:
  assumes "read_subscription_events s = Some (es, s')"
  shows "sb_handle_guard s' = sb_handle_guard s \<and> sb_key s' = sb_key s \<and>
    drops es = 0 \<and> orderly False es \<and> \<not> (\<exists>e \<in> set es. is_dropped e)"
proof -
  obtain es1 where "drain_buffer (nat (cu_max_live_queue_size (cg_settings s))) s = Some (es1, s')"
    and "es = es1 \<or> es = es1 @ [Post_Read_Buffer]"
    using assms by (auto simp: read_subscription_events_def split: if_splits Option.bind_splits)
  with drain_buffer_effects [OF this(1)] quiet_effects [of es] show ?thesis
    by auto
qed

interpretation catchup_sub: derived_subscription catchup_shutdown "catchup_on_package codec" for codec
proof unfold_locales
  fix s s' v effects
  assume "catchup_on_package codec v s = Some (Inr (False, effects, s'))"
  then show "effects = [] \<and> s' = s"
    by (auto simp: catchup_on_package_def Let_def catch_up_missed_events_def
        split: if_splits Option.bind_splits option.splits prod.splits)
next
  fix s s' v effects
  assume "catchup_on_package codec v s = Some (Inr (True, effects, s'))" and "\<not> sb_handle_guard s"
  then show "drops effects = (if sb_handle_guard s' then 1 else 0) \<and> sb_key s' = sb_key s \<and>
        \<not> (\<exists>e \<in> set effects. is_dropped e) \<and> orderly False effects"
    by (auto simp: catchup_on_package_def Let_def catch_up_missed_events_def
        split: if_splits Option.bind_splits option.splits prod.splits
        dest!: catchup_unsubscribe read_subscription_events_effects)
qed simp_all

lemma drain_all_buffer_effects:
  "drain_all_buffer n s = Some (Inr (es, s')) \<Longrightarrow>
     sb_handle_guard s' = sb_handle_guard s \<and> sb_key s' = sb_key s \<and> (\<forall>e \<in> set es. is_event e)"
proof (induction n arbitrary: s es s')
  case (Suc n)
  show ?case
  proof (cases "bq_is_empty (ca_event_buffer s)")
    case False
    then obtain e p q es1 where "drain_all_buffer n (s\<lparr>ca_current_position := p, ca_event_buffer := q\<rparr>) = Some (Inr (es1, s'))"
      and "es = Event_Appeared e None # es1"
      using Suc.prems by (auto split: Option.bind_splits option.splits sum.splits)
    with Suc.IH show ?thesis by fastforce
  qed (use Suc.prems in auto)
qed simp

lemma read_all_subscription_events_effects:
  assumes "read_all_subscription_events s = Some (Inr (es, s'))"
  shows "sb_handle_guard s' = sb_handle_guard s \<and> sb_key s' = sb_key s \<and>
    drops es = 0 \<and> orderly False es \<and> \<not> (\<exists>e \<in> set es. is_dropped e)"
proof -
  obtain es1 where "drain_all_buffer (nat (cu_max_live_queue_size (ca_settings s))) s = Some (Inr (es1, s'))"
    and "es = es1 \<or> es = es1 @ [Post_Read_Buffer]"
    using assms by (auto simp: read_all_subscription_events_def split: if_splits Option.bind_splits sum.splits)
  with drain_all_buffer_effects [OF this(1)] quiet_effects [of es] show ?thesis
    by auto
qed

interpretation catchup_all_sub: derived_subscription catchup_all_shutdown "catchup_all_on_package codec" for codec
proof unfold_locales
  fix s s' v effects
  assume "catchup_all_on_package codec v s = Some (Inr (False, effects, s'))"
  then show "effects = [] \<and> s' = s"
    by (auto simp: catchup_all_on_package_def Let_def catch_up_all_missed_events_def
        split: if_splits Option.bind_splits option.splits prod.splits)
next
  fix s s' v effects
  assume "catchup_all_on_package codec v s = Some (Inr (True, effects, s'))" and "\<not> sb_handle_guard s"
  then show "drops effects = (if sb_handle_guard s' then 1 else 0) \<and> sb_key s' = sb_key s \<and>
        \<not> (\<exists>e \<in> set effects. is_dropped e) \<and> orderly False effects"
    by (auto simp: catchup_all_on_package_def Let_def catch_up_all_missed_events_def
        split: if_splits Option.bind_splits option.splits prod.splits
        dest!: read_all_subscription_events_effects)
qed simp_all

section \<open>What the loops do\<close>

abbreviation appeared :: "resolved_event list \<Rightarrow> sub_effect list" where
  "appeared es \<equiv> map (\<lambda>e. Event_Appeared e None) es"

lemma deliver_slice_eq:
  "deliver_slice es s = (appeared es, s\<lparr>cg_current_event_number := cg_current_event_number s + int (length es)\<rparr>)"
  by (induction es arbitrary: s) auto

text \<open>The loop over the buffer is the bounded drain of the queue interface.\<close>

lemma drain_buffer_take_front:
  "drain_buffer n s = map_option (\<lambda>(es, q). (appeared es, s\<lparr>cg_event_buffer := q,
     cg_current_event_number := cg_current_event_number s + int (length es)\<rparr>)) (bq.take_front n (cg_event_buffer s))"
proof (induction n arbitrary: s)
  case (Suc n)
  show ?case
    by (cases "bq_front (cg_event_buffer s)"; cases "bq_pop_front 25 (cg_event_buffer s)")
       (auto simp: Suc.IH option.map_comp split: Option.bind_splits option.splits)
qed simp

lemma read_subscription_events_spec:
  assumes "bq_inv 25 (cg_event_buffer s)"
  defines "k \<equiv> nat (cu_max_live_queue_size (cg_settings s))" and "es \<equiv> bq_items (cg_event_buffer s)"
  shows "\<exists>q. read_subscription_events s =
      Some (appeared (take k es) @ (if drop k es = [] then [] else [Post_Read_Buffer]),
        s\<lparr>cg_event_buffer := q, cg_current_event_number := cg_current_event_number s + int (length (take k es))\<rparr>) \<and>
    bq_inv 25 q \<and> bq_items q = drop k es"
proof -
  from bq.take_front_spec [OF assms(1), of k] obtain q where
    q: "bq.take_front k (cg_event_buffer s) = Some (take k es, q)" "bq_inv 25 q" "bq_items q = drop k es"
    unfolding es_def by blast
  then show ?thesis
    by (auto simp: read_subscription_events_def drain_buffer_take_front k_def bq.is_empty_iff)
qed

section \<open>Running the reads against a server\<close>

text \<open>
  \<open>run_task\<close> runs the handler of an effect that is a read, with the slice the server answers, or of a
  posted task; \<open>settle\<close> runs the pending ones in order, and the ones they cause, until none is left, and gives
  all other effects in order.  Its fuel is the number of handlers that may run.
\<close>

fun is_task :: "sub_effect \<Rightarrow> bool" where
  "is_task (Catch_Up_Stream _ _) = True"
| "is_task (Catch_Up_Missed _ _) = True"
| "is_task (Catch_Up_All _ _) = True"
| "is_task (Catch_Up_All_Missed _ _) = True"
| "is_task Post_Read_Buffer = True"
| "is_task _ = False"

fun run_task ::
  "(int \<Rightarrow> int \<Rightarrow> stream_events_slice) \<Rightarrow> catchup_codec \<Rightarrow> user_credentials \<Rightarrow> sub_effect \<Rightarrow> catchup_subscription \<Rightarrow>
     (exn + sub_effect list \<times> catchup_subscription) option"
where
  "run_task server codec creds (Catch_Up_Stream n c) s =
     catchup_slice_read codec creds success (Some (server n (int32_of c))) s"
| "run_task server codec creds (Catch_Up_Missed n c) s =
     missed_slice_read codec c success (Some (server n (int32_of c))) s"
| "run_task server codec creds Post_Read_Buffer s = map_option Inr (read_subscription_events s)"
| "run_task server codec creds _ s = None"

fun run_all_task ::
  "(position \<Rightarrow> int \<Rightarrow> all_events_slice) \<Rightarrow> catchup_codec \<Rightarrow> user_credentials \<Rightarrow> sub_effect \<Rightarrow> catchup_all_subscription \<Rightarrow>
     (exn + sub_effect list \<times> catchup_all_subscription) option"
where
  "run_all_task server codec creds (Catch_Up_All p c) s =
     catchup_all_slice_read codec creds success (Some (server p (int32_of c))) s"
| "run_all_task server codec creds (Catch_Up_All_Missed p c) s =
     all_missed_slice_read codec c success (Some (server p (int32_of c))) s"
| "run_all_task server codec creds Post_Read_Buffer s = read_all_subscription_events s"
| "run_all_task server codec creds _ s = None"

fun settle ::
  "nat \<Rightarrow> (sub_effect \<Rightarrow> 's \<Rightarrow> (exn + sub_effect list \<times> 's) option) \<Rightarrow> sub_effect list \<Rightarrow> 's \<Rightarrow>
     (exn + sub_effect list \<times> 's) option"
where
  "settle 0 run es s = (if \<exists>e \<in> set es. is_task e then None else Some (Inr (es, s)))"
| "settle (Suc fuel) run es s =
    (case dropWhile (\<lambda>e. \<not> is_task e) es of
       [] \<Rightarrow> Some (Inr (es, s))
     | t # rest \<Rightarrow> do {
         r \<leftarrow> run t s;
         case r of
           Inl x \<Rightarrow> Some (Inl x)
         | Inr (es', s') \<Rightarrow> do {
             r' \<leftarrow> settle fuel run (rest @ es') s';
             Some (case r' of Inl x \<Rightarrow> Inl x
               | Inr (es'', s'') \<Rightarrow> Inr (takeWhile (\<lambda>e. \<not> is_task e) es @ es'', s'')) } })"

text \<open>A server that holds \<open>stream\<close> answers a read with a non-empty part of what was asked for, if
  there is anything, and says whether it reaches the end.\<close>

definition holds_stream :: "(int \<Rightarrow> int \<Rightarrow> stream_events_slice) \<Rightarrow> resolved_event list \<Rightarrow> bool" where
  "holds_stream server stream \<longleftrightarrow> (\<forall>n c. 0 < c \<longrightarrow> (\<exists>k. 0 < k \<and> k \<le> nat c \<and>
     ses_events (server (int n) c) = take k (drop n stream) \<and>
     (ses_is_end_of_stream (server (int n) c) \<longleftrightarrow> length stream \<le> n + k)))"

lemma holds_streamE:
  assumes "holds_stream server stream" and "0 < c" and "0 \<le> n"
  obtains k where "0 < k" "k \<le> nat c" "ses_events (server n c) = take k (drop (nat n) stream)"
    "ses_is_end_of_stream (server n c) \<longleftrightarrow> length stream \<le> nat n + k"
  using assms nat_0_le [OF assms(3)] unfolding holds_stream_def by metis

lemma no_task_simps [simp]:
  "dropWhile (\<lambda>e. \<not> is_task e) (appeared es @ fs) = dropWhile (\<lambda>e. \<not> is_task e) fs"
  "takeWhile (\<lambda>e. \<not> is_task e) (appeared es @ fs) = appeared es @ takeWhile (\<lambda>e. \<not> is_task e) fs"
  by (induction es) auto

text \<open>Effects that are already there come first.\<close>

lemma settle_appeared:
  assumes "settle fuel run fs s = Some (Inr (gs, s'))"
  shows "settle fuel run (appeared es @ fs) s = Some (Inr (appeared es @ gs, s'))"
proof (cases fuel)
  case 0
  then show ?thesis
    using assms by (auto split: if_splits)
next
  case (Suc f)
  show ?thesis
  proof (cases "dropWhile (\<lambda>e. \<not> is_task e) fs")
    case Nil
    then show ?thesis
      using assms Suc by (simp del: dropWhile_eq_Nil_conv)
  next
    case (Cons t rest)
    then show ?thesis
      using assms Suc by (auto split: Option.bind_splits sum.splits)
  qed
qed

lemma settle_task:
  assumes "is_task t" and "run t s = Some (Inr (es, s'))"
    and "settle fuel run es s' = Some (Inr (fs, s''))"
  shows "settle (Suc fuel) run [t] s = Some (Inr (fs, s''))"
  using assms by simp

lemma request_package_defined: "is_guid g \<Longrightarrow> \<exists>p. request_package c creds g m = Some p"
  using unauthenticated_package_frame [of flags_none g c m]
    authenticated_package_frame [of flags_authenticated g c "username creds" "password creds" m]
  by (auto simp: request_package_def flags_none_def flags_authenticated_def)

text \<open>The reads of \<open>async_start\<close>.\<close>

lemma settle_catch_up:
  assumes "holds_stream server stream" and "0 < cu_read_batch_size (cg_settings s)"
    and "cu_read_batch_size (cg_settings s) < 2 ^ 31" and "0 \<le> cg_current_event_number s"
    and "request_package Subscribe_To_Stream_Command creds (sb_key s) (to_bytes (ck_subscribe codec
         \<lparr>ss_event_stream_id = sb_stream s, ss_resolve_link_tos = cu_resolve_link_tos (cg_settings s)\<rparr>)) = Some p"
    and "length stream < fuel + nat (cg_current_event_number s)" and "0 < fuel"
  shows "settle fuel (run_task server codec creds) (fst (catchup_async_start s)) s =
    Some (Inr (appeared (drop (nat (cg_current_event_number s)) stream) @ [Register (sb_key s), Send_Package p],
      s\<lparr>sb_handle_guard := False,
        cg_current_event_number := max (cg_current_event_number s) (int (length stream))\<rparr>))"
  using assms
proof (induction fuel arbitrary: s)
  case (Suc fuel)
  define n where "n = cg_current_event_number s"
  define c where "c = cu_read_batch_size (cg_settings s)"
  have c: "0 < int32_of c" "int32_of c = c"
    using Suc.prems by (simp_all add: c_def int32_of_id)
  obtain k where k: "0 < k" "ses_events (server n c) = take k (drop (nat n) stream)"
      "ses_is_end_of_stream (server n c) \<longleftrightarrow> length stream \<le> nat n + k"
    using holds_streamE [OF Suc.prems(1), of c n] Suc.prems c by (auto simp: n_def)
  define s1 where "s1 = s\<lparr>cg_current_event_number := n + int (length (take k (drop (nat n) stream)))\<rparr>"
  have start: "fst (catchup_async_start s) = [Catch_Up_Stream n c]"
    by (simp add: catchup_async_start_def n_def c_def)
  show ?case
  proof (cases "length stream \<le> nat n + k")
    case True
    then have "run_task server codec creds (Catch_Up_Stream n c) s =
        Some (Inr (appeared (drop (nat n) stream) @ [Register (sb_key s), Send_Package p],
          s1\<lparr>sb_handle_guard := False\<rparr>))"
      using k Suc.prems(5) c
      by (simp add: catchup_slice_read_def deliver_slice_eq catchup_do_async_start_def base_async_start_def
          s1_def n_def)
    moreover have "n + int (length (take k (drop (nat n) stream))) = max n (int (length stream))"
      using True Suc.prems(4) by (auto simp: n_def min_def max_def)
    moreover have "settle fuel (run_task server codec creds) [Register (sb_key s), Send_Package p] t =
        Some (Inr ([Register (sb_key s), Send_Package p], t))" for t
      by (cases fuel) auto
    ultimately show ?thesis
      unfolding start by (intro settle_task) (auto simp: s1_def n_def intro!: settle_appeared)
  next
    case False
    then have len: "length (take k (drop (nat n) stream)) = k"
      by simp
    have run: "run_task server codec creds (Catch_Up_Stream n c) s =
        Some (Inr (appeared (take k (drop (nat n) stream)) @ fst (catchup_async_start s1), s1))"
      using False k c by (simp add: catchup_slice_read_def deliver_slice_eq catchup_async_start_def s1_def n_def)
    have n1: "cg_current_event_number s1 = n + int k" "nat (n + int k) = nat n + k"
      using len Suc.prems(4) by (simp_all add: s1_def n_def nat_add_distrib)
    have split1: "appeared (drop (nat n) stream) =
        appeared (take k (drop (nat n) stream)) @ appeared (drop (nat n + k) stream)"
      by (metis append_take_drop_id drop_drop add.commute map_append)
    have max1: "max (n + int k) (int (length stream)) = max n (int (length stream))"
    proof -
      have "n + int k < int (length stream)"
        using False Suc.prems(4) unfolding n_def by arith
      then show ?thesis by (simp add: max_def)
    qed
    have "settle fuel (run_task server codec creds) (fst (catchup_async_start s1)) s1 =
      Some (Inr (appeared (drop (nat (cg_current_event_number s1)) stream) @ [Register (sb_key s1), Send_Package p],
        s1\<lparr>sb_handle_guard := False,
          cg_current_event_number := max (cg_current_event_number s1) (int (length stream))\<rparr>))"
      using Suc.prems False k n1 by (intro Suc.IH) (auto simp: s1_def n_def)
    then have rest: "settle fuel (run_task server codec creds) (fst (catchup_async_start s1)) s1 =
      Some (Inr (appeared (drop (nat n + k) stream) @ [Register (sb_key s), Send_Package p],
        s\<lparr>sb_handle_guard := False, cg_current_event_number := max n (int (length stream))\<rparr>))"
      unfolding n1 max1 by (simp add: s1_def)
    from settle_task [where run = "run_task server codec creds", OF _ run settle_appeared [OF this]] show ?thesis
      unfolding start by (simp only: is_task.simps split1 append_assoc flip: n_def)
  qed
qed simp

text \<open>Emptying the buffer, in as many posted tasks as it takes.\<close>

lemma settle_drain:
  assumes "bq_inv 25 (cg_event_buffer s)" and "0 < cu_max_live_queue_size (cg_settings s)"
    and "length (bq_items (cg_event_buffer s)) < fuel"
  shows "\<exists>q. settle fuel (run_task server codec creds) [Post_Read_Buffer] s =
      Some (Inr (appeared (bq_items (cg_event_buffer s)), s\<lparr>cg_event_buffer := q,
        cg_current_event_number := cg_current_event_number s + int (length (bq_items (cg_event_buffer s)))\<rparr>)) \<and>
    bq_inv 25 q \<and> bq_items q = []"
  using assms
proof (induction fuel arbitrary: s)
  case (Suc fuel)
  define k where "k = nat (cu_max_live_queue_size (cg_settings s))"
  define es where "es = bq_items (cg_event_buffer s)"
  from read_subscription_events_spec [OF Suc.prems(1)] obtain q where
    r: "read_subscription_events s = Some (appeared (take k es) @ (if drop k es = [] then [] else [Post_Read_Buffer]),
        s\<lparr>cg_event_buffer := q, cg_current_event_number := cg_current_event_number s + int (length (take k es))\<rparr>)"
    and q: "bq_inv 25 q" "bq_items q = drop k es"
    unfolding k_def es_def by blast
  define s1 where "s1 = s\<lparr>cg_event_buffer := q, cg_current_event_number := cg_current_event_number s + int (length (take k es))\<rparr>"
  have run: "run_task server codec creds Post_Read_Buffer s =
      Some (Inr (appeared (take k es) @ (if drop k es = [] then [] else [Post_Read_Buffer]), s1))"
    by (simp add: r s1_def)
  show ?case
  proof (cases "drop k es = []")
    case True
    have fin: "settle fuel (run_task server codec creds) [] s1 = Some (Inr ([], s1))"
      by (cases fuel) simp_all
    show ?thesis
      using settle_task [where run = "run_task server codec creds", OF _ run settle_appeared] fin True q
      by (intro exI [of _ q]) (simp add: s1_def es_def)
  next
    case False
    have "0 < k" and "k < length es"
      using Suc.prems(2) False by (simp_all add: k_def)
    with Suc.prems(3) have "length (drop k es) < fuel"
      by (simp add: es_def)
    with Suc.IH [of s1] Suc.prems(2) q obtain q1 where
      q1: "settle fuel (run_task server codec creds) [Post_Read_Buffer] s1 = Some (Inr (appeared (drop k es),
        s1\<lparr>cg_event_buffer := q1, cg_current_event_number := cg_current_event_number s1 + int (length (drop k es))\<rparr>))"
      "bq_inv 25 q1" "bq_items q1 = []"
      by (auto simp: s1_def)
    have "appeared es = appeared (take k es) @ appeared (drop k es)"
      by (metis append_take_drop_id map_append)
    moreover have "int (length (take k es)) + int (length (drop k es)) = int (length es)"
      using \<open>k < length es\<close> by simp
    ultimately show ?thesis
      using settle_task [where run = "run_task server codec creds", OF _ run settle_appeared] q1 False
      by (intro exI [of _ q1]) (simp add: s1_def algebra_simps flip: es_def)
  qed
qed simp

text \<open>The missed reads: as many events as were asked for, then the buffer.\<close>

lemma settle_missed:
  assumes "holds_stream server stream" and "0 \<le> cg_current_event_number s"
    and "0 < c" and "c < 2 ^ 31" and "cg_current_event_number s + c \<le> int (length stream)"
    and "bq_inv 25 (cg_event_buffer s)" and "0 < cu_max_live_queue_size (cg_settings s)"
    and "nat c + length (bq_items (cg_event_buffer s)) < fuel"
  shows "\<exists>q. settle fuel (run_task server codec creds) (fst (catch_up_missed_events c s)) s =
      Some (Inr (appeared (take (nat c) (drop (nat (cg_current_event_number s)) stream)) @
          appeared (bq_items (cg_event_buffer s)),
        s\<lparr>cg_event_buffer := q,
          cg_current_event_number := cg_current_event_number s + c + int (length (bq_items (cg_event_buffer s)))\<rparr>)) \<and>
    bq_inv 25 q \<and> bq_items q = []"
  using assms
proof (induction fuel arbitrary: s c)
  case (Suc fuel)
  define n where "n = cg_current_event_number s"
  define es where "es = bq_items (cg_event_buffer s)"
  have c: "int32_of c = c"
    using Suc.prems by (simp add: int32_of_id)
  obtain k where k: "0 < k" "k \<le> nat c" "ses_events (server n c) = take k (drop (nat n) stream)"
    using holds_streamE [OF Suc.prems(1), of c n] Suc.prems by (auto simp: n_def)
  have len: "length (take k (drop (nat n) stream)) = k"
    using k Suc.prems(2-5) by (simp add: n_def)
  define s1 where "s1 = s\<lparr>cg_current_event_number := n + int k\<rparr>"
  have start: "fst (catch_up_missed_events c s) = [Catch_Up_Missed n c]"
    by (simp add: catch_up_missed_events_def n_def)
  have run: "run_task server codec creds (Catch_Up_Missed n c) s =
      Some (Inr (appeared (take k (drop (nat n) stream)) @
        (if 0 < c - int k then fst (catch_up_missed_events (c - int k) s1) else [Post_Read_Buffer]), s1))"
    using k len c by (simp add: missed_slice_read_def deliver_slice_eq catch_up_missed_events_def s1_def n_def)
  show ?case
  proof (cases "0 < c - int k")
    case True
    have nn: "nat (n + int k) = nat n + k" "nat (c - int k) = nat c - k"
      using Suc.prems(2) k by (simp_all add: n_def nat_add_distrib nat_diff_distrib)
    have m: "nat c + length es - k < fuel"
      using Suc.prems(8) k(1,2) unfolding es_def by linarith
    obtain q where q: "settle fuel (run_task server codec creds) (fst (catch_up_missed_events (c - int k) s1)) s1 =
        Some (Inr (appeared (take (nat c - k) (drop (nat n + k) stream)) @ appeared es,
          s1\<lparr>cg_event_buffer := q, cg_current_event_number := n + c + int (length es)\<rparr>))"
        "bq_inv 25 q" "bq_items q = []"
      using Suc.IH [of s1 "c - int k"] Suc.prems True k nn m by (auto simp: s1_def n_def es_def)
    have "take (nat c) (drop (nat n) stream) =
        take k (drop (nat n) stream) @ take (nat c - k) (drop (nat n + k) stream)"
      using k(2) by (metis add.commute drop_drop le_add_diff_inverse take_add)
    then show ?thesis
      using settle_task [where run = "run_task server codec creds", OF _ run settle_appeared] q True
      by (intro exI [of _ q]) (simp add: start s1_def flip: n_def es_def)
  next
    case False
    with k Suc.prems(3) have kc: "k = nat c" "int k = c"
      by simp_all
    obtain q where q: "settle fuel (run_task server codec creds) [Post_Read_Buffer] s1 =
        Some (Inr (appeared es, s1\<lparr>cg_event_buffer := q, cg_current_event_number := n + c + int (length es)\<rparr>))"
        "bq_inv 25 q" "bq_items q = []"
      using settle_drain [of s1 fuel server codec creds] Suc.prems kc k(1)
      by (auto simp: s1_def es_def)
    then show ?thesis
      using settle_task [where run = "run_task server codec creds", OF _ run settle_appeared] False kc
      by (intro exI [of _ q]) (simp add: start s1_def flip: n_def es_def)
  qed
qed simp

section \<open>Properties\<close>

text \<open>C2: what a catch-up subscription hands over.  The server holds the events \<open>old\<close> while the subscription reads the
  past from event \<open>n\<close> on, and also the events \<open>new\<close> when it confirms the subscription; it may answer every read
  with fewer events than asked for.  Then the reads end, after at most one per event: the user
  gets every event of \<open>old\<close> from \<open>n\<close> on once and in order, and the subscription is requested; after the
  confirmation the user gets the events of \<open>new\<close> in order, except the last one.  That one is never handed
  over: the count of missed events is computed as the last event number less the next number to read,
  which is one too few.  When nothing was written in between, nothing is lost.\<close>

theorem catchup_loses_last_missed_event:
  assumes "holds_stream before old" and "holds_stream after (old @ new)"
    and "view_command v = Some Subscription_Confirmation_Command" and "view_message v = Some m"
    and "sc_last_event_number (ck_confirmation codec m) = Some (int (length (old @ new)) - 1)"
    and "n \<le> length old" and "is_guid key" and "length new < 2 ^ 31"
    and "0 < cu_read_batch_size cfg" and "cu_read_batch_size cfg < 2 ^ 31" and "0 < cu_max_live_queue_size cfg"
    and "s = mk_catchup_subscription key stream (int n) cfg"
  shows "\<exists>p s1 es s2 s3.
    settle (Suc (length old)) (run_task before codec creds) (fst (catchup_async_start s)) s =
      Some (Inr (appeared (drop n old) @ [Register key, Send_Package p], s1)) \<and>
    subscription_received ser parse catchup_shutdown (catchup_on_package codec) success v s1 = Some (Inr (es, s2)) \<and>
    settle (Suc (length new)) (run_task after codec creds) es s2 = Some (Inr (appeared (butlast new), s3)) \<and>
    cg_current_event_number s3 = int (length (old @ butlast new)) \<and> bq_items (cg_event_buffer s3) = []"
proof -
  have s: "cg_settings s = cfg" "cg_current_event_number s = int n" "cg_event_buffer s = bq_empty"
      "sb_key s = key" "sb_stream s = stream"
    by (simp_all add: assms(12) mk_catchup_subscription_def subscription_base.defs catchup_subscription.defs
        mk_subscription_base_def)
  obtain p where p: "request_package Subscribe_To_Stream_Command creds (sb_key s) (to_bytes (ck_subscribe codec
         \<lparr>ss_event_stream_id = sb_stream s, ss_resolve_link_tos = cu_resolve_link_tos (cg_settings s)\<rparr>)) = Some p"
    using request_package_defined assms(7) s by metis
  define s1 where "s1 = s\<lparr>sb_handle_guard := False, cg_current_event_number := int (length old)\<rparr>"
  have reads: "settle (Suc (length old)) (run_task before codec creds) (fst (catchup_async_start s)) s =
      Some (Inr (appeared (drop n old) @ [Register key, Send_Package p], s1))"
    using settle_catch_up [OF assms(1) _ _ _ p, of "Suc (length old)"] assms s
    by (simp add: s1_def max_def)
  define s2 where "s2 = s1\<lparr>sb_last_commit_position := Some (sc_last_commit_position (ck_confirmation codec m)),
      sb_subscribed := True, sb_last_event_number := Some (int (length (old @ new)) - 1)\<rparr>"
  define c where "c = int (length new) - 1"
  have received: "subscription_received ser parse catchup_shutdown (catchup_on_package codec) success v s1 =
      Some (Inr (if 0 < c then fst (catch_up_missed_events c s2) else [], s2))"
    using assms(3-5)
    by (simp add: subscription_received_def catchup_on_package_def s1_def s2_def c_def catch_up_missed_events_def)
  have s2: "cg_current_event_number s2 = int (length old)" "cg_event_buffer s2 = bq_empty" "cg_settings s2 = cfg"
    by (simp_all add: s2_def s1_def s)
  have "\<exists>s3. settle (Suc (length new)) (run_task after codec creds) (if 0 < c then fst (catch_up_missed_events c s2) else []) s2 =
        Some (Inr (appeared (butlast new), s3)) \<and>
      cg_current_event_number s3 = int (length (old @ butlast new)) \<and> bq_items (cg_event_buffer s3) = []"
  proof (cases "0 < c")
    case True
    then have "take (nat c) new = butlast new" "nat c = length new - 1" "nat c < Suc (length new)"
      by (simp_all add: c_def butlast_conv_take nat_diff_distrib)
    then show ?thesis
      using settle_missed [OF assms(2), of s2 c "Suc (length new)" codec creds] True s2 assms(8,11)
      by (auto simp: bq_inv_empty bq_items_bq_empty c_def)
  next
    case False
    then have "butlast new = []"
      by (cases new rule: rev_cases) (simp_all add: c_def)
    with False s2 show ?thesis
      by (simp add: bq_items_bq_empty)
  qed
  with reads received show ?thesis
    by blast
qed

definition plain_event :: "int \<Rightarrow> resolved_event" where
  "plain_event n = \<lparr>event = Some \<lparr>event_stream_id = ''s'', event_id = [], event_number = n, event_type = ''t'',
     content = [], metadata = [], is_json = False, created = 0, created_epoch = 0\<rparr>,
     link = None, original_position = None\<rparr>"

definition server_of :: "resolved_event list \<Rightarrow> int \<Rightarrow> int \<Rightarrow> stream_events_slice" where
  "server_of stream n c = \<lparr>ses_from_event_number = n, ses_next_event_number = n + c,
     ses_last_event_number = int (length stream) - 1, ses_stream = ''s'', ses_read_direction = Forward,
     ses_is_end_of_stream = (length stream \<le> nat n + nat c), ses_events = take (nat c) (drop (nat n) stream)\<rparr>"

lemma server_holds_stream: "holds_stream (server_of stream) stream"
  unfolding holds_stream_def
proof (intro allI impI)
  fix n :: nat and c :: int
  assume "0 < c"
  then show "\<exists>k. 0 < k \<and> k \<le> nat c \<and> ses_events (server_of stream (int n) c) = take k (drop n stream) \<and>
      (ses_is_end_of_stream (server_of stream (int n) c) \<longleftrightarrow> length stream \<le> n + k)"
    by (intro exI [of _ "nat c"]) (simp add: server_of_def)
qed

definition sample_catchup_codec :: "int \<Rightarrow> catchup_codec" where
  "sample_catchup_codec l = \<lparr>ck_subscribe = ss_event_stream_id, ck_unsubscribe = [],
     ck_confirmation = (\<lambda>_. \<lparr>sc_last_commit_position = 0, sc_last_event_number = Some l\<rparr>),
     ck_event = (\<lambda>_. \<lparr>sea_event = \<lparr>re_event = Some sample_record, re_link = None, re_commit_position = 0, re_prepare_position = 0\<rparr>\<rparr>)\<rparr>"

lemma confirmation_named: "is_named Subscription_Confirmation_Command"
  and event_named: "is_named Stream_Event_Appeared_Command"
  by (simp_all add: is_named_def)

theorem catchup_loses_last_missed_event_witness:
  "\<exists>p s1 es s2 s3.
    settle 3 (run_task (server_of [plain_event 0, plain_event 1]) (sample_catchup_codec 3) credentials_default)
      (fst (catchup_async_start (mk_catchup_subscription (replicate 16 1) ''s'' 0 catchup_settings_default)))
      (mk_catchup_subscription (replicate 16 1) ''s'' 0 catchup_settings_default) =
      Some (Inr (appeared [plain_event 0, plain_event 1] @ [Register (replicate 16 1), Send_Package p], s1)) \<and>
    subscription_received [] (\<lambda>_. \<lparr>sd_reason = SD_NotFound\<rparr>) catchup_shutdown
      (catchup_on_package (sample_catchup_codec 3)) success
      (frame_view (sample_frame_of Subscription_Confirmation_Command) 22) s1 = Some (Inr (es, s2)) \<and>
    settle 3 (run_task (server_of [plain_event 0, plain_event 1, plain_event 2, plain_event 3]) (sample_catchup_codec 3)
      credentials_default) es s2 = Some (Inr (appeared [plain_event 2], s3)) \<and>
    cg_current_event_number s3 = 3"
proof -
  let ?old = "[plain_event 0, plain_event 1]" and ?new = "[plain_event 2, plain_event 3]"
  have n: "Suc (length ?old) = 3" "Suc (length ?new) = 3"
    by simp_all
  from catchup_loses_last_missed_event [where before = "server_of ?old" and after = "server_of (?old @ ?new)"
      and old = ?old and new = ?new and n = 0 and codec = "sample_catchup_codec 3" and creds = credentials_default and
      key = "replicate 16 1" and stream = "''s''" and cfg = catchup_settings_default and ser = "[]" and
      parse = "\<lambda>_. \<lparr>sd_reason = SD_NotFound\<rparr>",
      OF server_holds_stream server_holds_stream sample_frame_view [OF confirmation_named], unfolded n]
  show ?thesis
    by (simp add: sample_catchup_codec_def is_guid_def catchup_settings_default_def) blast
qed

text \<open>A live event.  While missed events are still being read, an event that arrives is put at the
  end of the buffer and nothing else happens; once they have been read, an event that finds the buffer empty
  is handed over at once; in any other case it waits behind the events in the buffer, which a task
  that is already pending hands over in order.\<close>

theorem catchup_live_event:
  assumes "view_command v = Some Stream_Event_Appeared_Command" and "view_message v = Some m"
    and "mk_resolved_event (sea_event (ck_event codec m)) = Some (e, e')"
    and "bq_inv 25 (cg_event_buffer s)" and "\<not> sb_handle_guard s"
    and "\<forall>x \<in> set (bq_items (cg_event_buffer s) @ [e]). event x \<noteq> None" and "sb_last_event_number s = Some l"
    and "length (bq_items (cg_event_buffer s)) < 2 ^ 63" and "0 < cu_max_live_queue_size (cg_settings s)"
  shows "\<exists>es s'. subscription_received ser parse catchup_shutdown (catchup_on_package codec) success v s = Some (Inr (es, s')) \<and>
    bq_inv 25 (cg_event_buffer s') \<and>
    (if l \<le> cg_current_event_number s \<and> bq_items (cg_event_buffer s) = []
     then es = [Event_Appeared e None] \<and> bq_items (cg_event_buffer s') = [] \<and>
       cg_current_event_number s' = cg_current_event_number s + 1
     else es = [] \<and> bq_items (cg_event_buffer s') = bq_items (cg_event_buffer s) @ [e] \<and>
       cg_current_event_number s' = cg_current_event_number s)"
proof -
  let ?items = "bq_items (cg_event_buffer s)"
  obtain q where q: "bq_push_back 25 e (cg_event_buffer s) = Some q" "bq_inv 25 q" "bq_items q = ?items @ [e]"
    using bq.push_ok [OF assms(4)] by blast
  obtain f r where f: "bq_front q = Some f" "event f = Some r"
  proof -
    have "bq_front q = Some (hd (?items @ [e]))"
      using bq.front_ok [OF q(2)] q(3) by simp
    moreover have "hd (?items @ [e]) \<in> set (?items @ [e])"
      by (rule hd_in_set) simp
    ultimately show thesis
      using assms(6) that by blast
  qed
  have size: "bq_size 25 q = 1 \<longleftrightarrow> ?items = []"
  proof -
    have "unat (bq_size 25 q) = Suc (length ?items)"
      using assms(8) by (simp add: bq_size_items [OF q(2)] q(3) unat_of_nat take_bit_nat_eq_self del: of_nat_Suc)
    then show ?thesis
      by (simp add: word_unat_eq_iff)
  qed
  let ?s = "s\<lparr>cg_event_buffer := q\<rparr>"
  have on: "catchup_on_package codec v s =
      (if l > cg_current_event_number s then Some (Inr (True, [], ?s))
       else if ?items = [] then map_option (\<lambda>(effects, s'). Inr (True, effects, s')) (read_subscription_events ?s)
       else Some (Inr (True, [], ?s)))"
    using assms(1-3,7) q(1) f size by (simp add: catchup_on_package_def)
  show ?thesis
  proof (cases "l \<le> cg_current_event_number s \<and> ?items = []")
    case True
    have k: "take (nat (cu_max_live_queue_size (cg_settings s))) [e] = [e]"
      using assms(9) by simp
    obtain q' where "read_subscription_events ?s = Some ([Event_Appeared e None],
        s\<lparr>cg_event_buffer := q', cg_current_event_number := cg_current_event_number s + 1\<rparr>)"
      "bq_inv 25 q'" "bq_items q' = []"
      using read_subscription_events_spec [of ?s] q True k assms(9) by auto
    then show ?thesis
      using on True assms(5) by (auto simp: subscription_received_def)
  next
    case False
    then show ?thesis
      using on q assms(5) by (auto simp: subscription_received_def)
  qed
qed

definition sample_catchup :: catchup_subscription where
  "sample_catchup = (mk_catchup_subscription (replicate 16 1) ''s'' 4 catchup_settings_default)
     \<lparr>sb_last_event_number := Some 3, sb_subscribed := True\<rparr>"

lemma sample_catchup_simps [simp]:
  "cg_event_buffer sample_catchup = bq_empty" "\<not> sb_handle_guard sample_catchup"
  "sb_last_event_number sample_catchup = Some 3" "cg_current_event_number sample_catchup = 4"
  "cg_settings sample_catchup = catchup_settings_default" "sb_key sample_catchup = replicate 16 1"
  by (simp_all add: sample_catchup_def mk_catchup_subscription_def subscription_base.defs
      catchup_subscription.defs mk_subscription_base_def)

lemma sample_live_event:
  "\<exists>e e'. mk_resolved_event (sea_event (ck_event (sample_catchup_codec l) [])) = Some (e, e') \<and> event e \<noteq> None"
  by (simp add: sample_catchup_codec_def mk_resolved_event_def emplace_event_def mk_recorded_event_def
      guid_of_def rd_range_def string_memory_def sample_record_def)

theorem catchup_live_event_witness:
  "\<exists>e s'. subscription_received [] (\<lambda>_. \<lparr>sd_reason = SD_NotFound\<rparr>) catchup_shutdown
     (catchup_on_package (sample_catchup_codec 3)) success
     (frame_view (sample_frame_of Stream_Event_Appeared_Command) 22) sample_catchup =
       Some (Inr ([Event_Appeared e None], s')) \<and> cg_current_event_number s' = 5"
proof -
  obtain e e' where e: "mk_resolved_event (sea_event (ck_event (sample_catchup_codec 3) [])) = Some (e, e')" "event e \<noteq> None"
    using sample_live_event by blast
  show ?thesis
    using catchup_live_event [where s = sample_catchup and l = 3 and ser = "[]" and parse = "\<lambda>_. \<lparr>sd_reason = SD_NotFound\<rparr>",
        OF sample_frame_view [OF event_named] e(1)] e(2)
    by (auto simp: bq_inv_empty bq_items_bq_empty catchup_settings_default_def)
qed

text \<open>The loop over missed events of the \<open>all\<close> stream.\<close>

lemma deliver_missed_eq:
  assumes "\<forall>e \<in> set es. original_position e \<noteq> None"
  shows "deliver_missed es s =
    (let before = takeWhile (\<lambda>e. original_position e \<noteq> Some (ca_position_to_catch_up_to s)) es in
     Inr (before = es, appeared before,
       if before \<noteq> es then s\<lparr>ca_current_position := ca_position_to_catch_up_to s\<rparr>
       else if es = [] then s else s\<lparr>ca_current_position := the (original_position (last es))\<rparr>))"
  using assms
proof (induction es arbitrary: s)
  case (Cons e es)
  then obtain p where p: "original_position e = Some p"
    by auto
  show ?case
    using Cons.IH [of "s\<lparr>ca_current_position := p\<rparr>"] Cons.prems p
    by (auto simp: Let_def position_eq_iff)
qed simp

text \<open>One slice of missed events of the \<open>all\<close> stream.  The events before the one at the position
  to catch up to are handed over in order; that event itself is read but not handed over, and the buffered
  events follow.  When the slice does not hold it, the next read starts again at the position of the last
  event of the slice, not at the slice's next position, and an empty slice makes the same read again.\<close>

theorem catchup_all_missed_slice:
  assumes "\<forall>e \<in> set (aes_events val). original_position e \<noteq> None"
    and "before = takeWhile (\<lambda>e. original_position e \<noteq> Some (ca_position_to_catch_up_to s)) (aes_events val)"
  shows "(before = aes_events val \<longrightarrow>
      (let p = (if before = [] then ca_current_position s else the (original_position (last before))) in
       all_missed_slice_read codec c success (Some val) s =
         Some (Inr (appeared before @ [Catch_Up_All_Missed p c], s\<lparr>ca_current_position := p\<rparr>)))) \<and>
    (before \<noteq> aes_events val \<longrightarrow>
      all_missed_slice_read codec c success (Some val) s =
        map_option (\<lambda>r. case r of Inl x \<Rightarrow> Inl x | Inr (es, s') \<Rightarrow> Inr (appeared before @ es, s'))
          (read_all_subscription_events (s\<lparr>ca_current_position := ca_position_to_catch_up_to s\<rparr>)))"
  using deliver_missed_eq [OF assms(1), of s]
  by (auto simp: all_missed_slice_read_def catch_up_all_missed_events_def Let_def simp flip: assms(2))

definition event_at :: "int \<Rightarrow> resolved_event" where
  "event_at p = \<lparr>event = None, link = None, original_position = Some (Position p p)\<rparr>"

definition slice_at :: "int list \<Rightarrow> all_events_slice" where
  "slice_at ps = \<lparr>aes_from_position = Position 0 0, aes_next_position = Position 99 99, aes_direction = Forward,
     aes_is_end_of_stream = (ps = []), aes_events = map event_at ps\<rparr>"

definition sample_catchup_all :: catchup_all_subscription where
  "sample_catchup_all = (mk_catchup_all_subscription (replicate 16 1) (Position 0 0) catchup_settings_default)
     \<lparr>ca_position_to_catch_up_to := Position 9 9\<rparr>"

theorem catchup_all_missed_slice_witness:
  "all_missed_slice_read (sample_catchup_codec 3) 2 success (Some (slice_at [1, 5])) sample_catchup_all =
     Some (Inr ([Event_Appeared (event_at 1) None, Event_Appeared (event_at 5) None, Catch_Up_All_Missed (Position 5 5) 2],
       sample_catchup_all\<lparr>ca_current_position := Position 5 5\<rparr>))"
proof -
  have t: "ca_position_to_catch_up_to sample_catchup_all = Position 9 9"
    by (simp add: sample_catchup_all_def)
  show ?thesis
    using catchup_all_missed_slice [where val = "slice_at [1, 5]" and s = sample_catchup_all and
        codec = "sample_catchup_codec 3" and c = 2, OF _ refl]
    by (simp add: slice_at_def event_at_def t Let_def)
qed

lemma settle_all_diverges:
  assumes "\<forall>p n. \<forall>e \<in> set (aes_events (server p n)). \<exists>q. original_position e = Some q \<and> q \<noteq> target"
    and "ca_position_to_catch_up_to s = target"
  shows "settle fuel (run_all_task server codec creds) (appeared xs @ [Catch_Up_All_Missed p c]) s = None"
  using assms(2)
proof (induction fuel arbitrary: s xs p)
  case (Suc fuel)
  let ?es = "aes_events (server p (int32_of c))"
  have pos: "\<forall>e \<in> set ?es. original_position e \<noteq> None"
    and tw: "takeWhile (\<lambda>e. original_position e \<noteq> Some (ca_position_to_catch_up_to s)) ?es = ?es"
    using assms(1) Suc.prems by (auto simp: takeWhile_eq_all_conv) force+
  define s1 where "s1 = (if ?es = [] then s else s\<lparr>ca_current_position := the (original_position (last ?es))\<rparr>)"
  have "deliver_missed ?es s = Inr (True, appeared ?es, s1)"
    unfolding deliver_missed_eq [OF pos] Let_def tw s1_def by simp
  moreover have "ca_position_to_catch_up_to s1 = target"
    using Suc.prems by (simp add: s1_def)
  ultimately obtain p' s' where "all_missed_slice_read codec c success (Some (server p (int32_of c))) s =
      Some (Inr (appeared ?es @ [Catch_Up_All_Missed p' c], s'))" and "ca_position_to_catch_up_to s' = target"
    by (auto simp: all_missed_slice_read_def catch_up_all_missed_events_def)
  with Suc.IH [of s' ?es p'] show ?case
    by simp
qed simp

text \<open>C27: catching up with the \<open>all\<close> stream may never end.  The position to catch up to has the
  server's last commit position both as commit and as prepare position.  When no event the server answers has exactly this
  position (it is the position of a record that is no event, or of a transaction, or the reads are too
  small to get past the event they restart at), then after the confirmation the missed reads
  go on forever: no number of reads is enough.\<close>

theorem catchup_all_may_never_catch_up:
  assumes "view_command v = Some Subscription_Confirmation_Command" and "view_message v = Some m"
    and "sc_last_commit_position (ck_confirmation codec m) = l" and "position_gt (Position l l) (ca_current_position s)"
    and "\<forall>p n. \<forall>e \<in> set (aes_events (server p n)). \<exists>q. original_position e = Some q \<and> q \<noteq> Position l l"
    and "\<not> sb_handle_guard s"
  shows "\<exists>es s'. subscription_received ser parse catchup_all_shutdown (catchup_all_on_package codec) success v s =
      Some (Inr (es, s')) \<and> (\<forall>fuel. settle fuel (run_all_task server codec creds) es s' = None)"
  using assms settle_all_diverges [OF assms(5), of _ _ codec creds "[]"]
  by (auto simp: subscription_received_def catchup_all_on_package_def catch_up_all_missed_events_def Let_def
      split: option.splits)

theorem catchup_all_may_never_catch_up_witness:
  "\<exists>es s'. subscription_received [] (\<lambda>_. \<lparr>sd_reason = SD_NotFound\<rparr>) catchup_all_shutdown
      (catchup_all_on_package ((sample_catchup_codec 3)\<lparr>ck_confirmation := \<lambda>_. \<lparr>sc_last_commit_position = 9, sc_last_event_number = None\<rparr>\<rparr>))
      success (frame_view (sample_frame_of Subscription_Confirmation_Command) 22) sample_catchup_all = Some (Inr (es, s')) \<and>
    (\<forall>fuel. settle fuel (run_all_task (\<lambda>_ _. slice_at [1, 5])
       ((sample_catchup_codec 3)\<lparr>ck_confirmation := \<lambda>_. \<lparr>sc_last_commit_position = 9, sc_last_event_number = None\<rparr>\<rparr>)
       credentials_default) es s' = None)"
proof (rule catchup_all_may_never_catch_up [OF sample_frame_view [OF confirmation_named], where l = 9])
  show "sc_last_commit_position (ck_confirmation ((sample_catchup_codec 3)\<lparr>ck_confirmation :=
      \<lambda>_. \<lparr>sc_last_commit_position = 9, sc_last_event_number = None\<rparr>\<rparr>) []) = 9"
    by simp
  have "ca_current_position sample_catchup_all = Position 0 0"
    by (simp add: sample_catchup_all_def mk_catchup_all_subscription_def subscription_base.defs catchup_all_subscription.defs)
  then show "position_gt (Position 9 9) (ca_current_position sample_catchup_all)"
    by (simp add: position_gt_def)
  show "\<forall>p n. \<forall>e \<in> set (aes_events (slice_at [1, 5])). \<exists>q. original_position e = Some q \<and> q \<noteq> Position 9 9"
    by (simp add: slice_at_def event_at_def)
  show "\<not> sb_handle_guard sample_catchup_all"
    by (simp add: sample_catchup_all_def mk_catchup_all_subscription_def subscription_base.defs
        catchup_all_subscription.defs mk_subscription_base_def)
qed

end
