(* ===== verification/Catchup_Runs.thy ===== *)
theory Catchup_Runs
  imports Catchup_Subscriptions
begin

text \<open>
  The life of a catch-up subscription to a stream from its confirmation on, when the live events, the
  answers to the missed reads and the posted tasks come in any order.  The reads are answered with any
  slices.  A run goes on until the subscription is ended or a handler throws.
\<close>

section \<open>Runs\<close>

text \<open>The subscription with the tasks that are pending, and what has happened: the events handed over to the
  user, the events of the answered reads, and the live events the server has sent.\<close>

record 's catchup_run =
  cr_sub :: 's
  cr_tasks :: "sub_effect list"
  cr_delivered :: "resolved_event list"
  cr_read :: "resolved_event list"
  cr_live :: "resolved_event list"

fun appeared_event :: "sub_effect \<Rightarrow> resolved_event list" where
  "appeared_event (Event_Appeared e n) = [e]"
| "appeared_event _ = []"

text \<open>A handler has run: its state and its effects.\<close>

definition catchup_effects :: "sub_effect list \<times> 's \<Rightarrow> 's catchup_run \<Rightarrow> 's catchup_run" where
  "catchup_effects r run = run\<lparr>cr_sub := snd r, cr_tasks := cr_tasks run @ filter is_task (fst r),
     cr_delivered := cr_delivered run @ concat (map appeared_event (fst r))\<rparr>"

definition catchup_received ::
  "catchup_codec \<Rightarrow> (bytes \<Rightarrow> subscription_dropped) \<Rightarrow> tcp_package_view \<Rightarrow> catchup_subscription \<Rightarrow>
     (exn + sub_effect list \<times> catchup_subscription) option"
where
  "catchup_received codec parse v s =
     subscription_received (ck_unsubscribe codec) parse catchup_shutdown (catchup_on_package codec) success v s"

text \<open>The subscription \<open>s\<close> is confirmed with the last event number \<open>l\<close>; live events follow.\<close>

inductive catchup_runs ::
  "catchup_codec \<Rightarrow> (bytes \<Rightarrow> subscription_dropped) \<Rightarrow> catchup_subscription \<Rightarrow> int \<Rightarrow> catchup_subscription catchup_run \<Rightarrow> bool"
for codec parse s l where
  confirmed: "\<not> sb_handle_guard s \<Longrightarrow> bq_inv 25 (cg_event_buffer s) \<Longrightarrow> bq_items (cg_event_buffer s) = [] \<Longrightarrow>
    view_command v = Some Subscription_Confirmation_Command \<Longrightarrow> view_message v = Some m \<Longrightarrow>
    sc_last_event_number (ck_confirmation codec m) = Some l \<Longrightarrow>
    catchup_received codec parse v s = Some (Inr r) \<Longrightarrow>
    catchup_runs codec parse s l
      (catchup_effects r \<lparr>cr_sub = s, cr_tasks = [], cr_delivered = [], cr_read = [], cr_live = []\<rparr>)"
| live: "catchup_runs codec parse s l run \<Longrightarrow>
    view_command v = Some Stream_Event_Appeared_Command \<Longrightarrow> view_message v = Some m \<Longrightarrow>
    mk_resolved_event (sea_event (ck_event codec m)) = Some (e, e') \<Longrightarrow>
    catchup_received codec parse v (cr_sub run) = Some (Inr r) \<Longrightarrow>
    catchup_runs codec parse s l (catchup_effects r (run\<lparr>cr_live := cr_live run @ [e]\<rparr>))"
| read: "catchup_runs codec parse s l run \<Longrightarrow> cr_tasks run = ts @ Catch_Up_Missed n c # us \<Longrightarrow>
    missed_slice_read codec c success (Some val) (cr_sub run) = Some (Inr r) \<Longrightarrow>
    catchup_runs codec parse s l
      (catchup_effects r (run\<lparr>cr_tasks := ts @ us, cr_read := cr_read run @ ses_events val\<rparr>))"
| posted: "catchup_runs codec parse s l run \<Longrightarrow> cr_tasks run = ts @ Post_Read_Buffer # us \<Longrightarrow>
    read_subscription_events (cr_sub run) = Some r \<Longrightarrow>
    catchup_runs codec parse s l (catchup_effects r (run\<lparr>cr_tasks := ts @ us\<rparr>))"

section \<open>The invariant\<close>

text \<open>Missed events are being read: one read is out, for all that is missing, and every live event is in the
  buffer.  After that only tasks that empty the buffer are pending, one at least while it holds an event.\<close>

definition catching_up :: "int \<Rightarrow> catchup_subscription catchup_run \<Rightarrow> bool" where
  "catching_up l run \<longleftrightarrow> (let s = cr_sub run in cg_current_event_number s < l \<and>
     cr_tasks run = [Catch_Up_Missed (cg_current_event_number s) (l - cg_current_event_number s)] \<and>
     cr_delivered run = cr_read run \<and> bq_items (cg_event_buffer s) = cr_live run)"

definition caught_up :: "int \<Rightarrow> catchup_subscription catchup_run \<Rightarrow> bool" where
  "caught_up l run \<longleftrightarrow> (let s = cr_sub run in l \<le> cg_current_event_number s \<and>
     set (cr_tasks run) \<subseteq> {Post_Read_Buffer} \<and>
     (bq_items (cg_event_buffer s) \<noteq> [] \<longrightarrow> Post_Read_Buffer \<in> set (cr_tasks run)) \<and>
     cr_delivered run @ bq_items (cg_event_buffer s) = cr_read run @ cr_live run)"

definition catchup_run_inv :: "int \<Rightarrow> int \<Rightarrow> catchup_subscription catchup_run \<Rightarrow> bool" where
  "catchup_run_inv n l run \<longleftrightarrow> (let s = cr_sub run in
     bq_inv 25 (cg_event_buffer s) \<and> \<not> sb_handle_guard s \<and> sb_last_event_number s = Some l \<and>
     cg_current_event_number s = n + int (length (cr_delivered run)) \<and> (catching_up l run \<or> caught_up l run))"

lemma appeared_effects [simp]:
  "concat (map appeared_event (appeared es)) = es"
  "concat (map (appeared_event \<circ> (\<lambda>e. Event_Appeared e None)) es) = es" "filter is_task (appeared es) = []"
  by (induction es) auto

lemma only_task: "ts @ t # us = [x] \<longleftrightarrow> ts = [] \<and> us = [] \<and> t = x"
  by (cases ts) auto

text \<open>Emptying the buffer as far as one task goes.\<close>

lemma drained:
  assumes "bq_inv 25 (cg_event_buffer s)" and "read_subscription_events s = Some r"
  obtains k q where "snd r = s\<lparr>cg_event_buffer := q, cg_current_event_number := cg_current_event_number s +
      int (length (take k (bq_items (cg_event_buffer s))))\<rparr>"
    and "filter is_task (fst r) = (if drop k (bq_items (cg_event_buffer s)) = [] then [] else [Post_Read_Buffer])"
    and "concat (map appeared_event (fst r)) = take k (bq_items (cg_event_buffer s))"
    and "bq_inv 25 q" and "bq_items q = drop k (bq_items (cg_event_buffer s))"
proof -
  define k where "k = nat (cu_max_live_queue_size (cg_settings s))"
  from read_subscription_events_spec [OF assms(1)] assms(2) obtain q where
    "r = (appeared (take k (bq_items (cg_event_buffer s))) @
        (if drop k (bq_items (cg_event_buffer s)) = [] then [] else [Post_Read_Buffer]),
      s\<lparr>cg_event_buffer := q, cg_current_event_number := cg_current_event_number s +
        int (length (take k (bq_items (cg_event_buffer s))))\<rparr>)"
    "bq_inv 25 q" "bq_items q = drop k (bq_items (cg_event_buffer s))"
    unfolding k_def by force
  then show thesis
    by (intro that [of k q]) auto
qed

lemma caught_up_drained:
  assumes "bq_inv 25 (cg_event_buffer (cr_sub run))" and "\<not> sb_handle_guard (cr_sub run)"
    and "sb_last_event_number (cr_sub run) = Some l" and "l \<le> cg_current_event_number (cr_sub run)"
    and "cg_current_event_number (cr_sub run) = n + int (length (cr_delivered run))"
    and "set (cr_tasks run) \<subseteq> {Post_Read_Buffer}"
    and "cr_delivered run @ bq_items (cg_event_buffer (cr_sub run)) = cr_read run @ cr_live run"
    and "read_subscription_events (cr_sub run) = Some r"
  shows "catchup_run_inv n l (catchup_effects r run)"
proof -
  obtain k q where r: "snd r = (cr_sub run)\<lparr>cg_event_buffer := q, cg_current_event_number := cg_current_event_number (cr_sub run) +
      int (length (take k (bq_items (cg_event_buffer (cr_sub run)))))\<rparr>"
    "filter is_task (fst r) = (if drop k (bq_items (cg_event_buffer (cr_sub run))) = [] then [] else [Post_Read_Buffer])"
    "concat (map appeared_event (fst r)) = take k (bq_items (cg_event_buffer (cr_sub run)))"
    "bq_inv 25 q" "bq_items q = drop k (bq_items (cg_event_buffer (cr_sub run)))"
    using drained [OF assms(1,8)] by metis
  have "(cr_delivered run @ take k (bq_items (cg_event_buffer (cr_sub run)))) @ bq_items q = cr_read run @ cr_live run"
    using assms(7) r(5) by simp
  with assms r(1-4) show ?thesis
    by (auto simp: catchup_run_inv_def Let_def caught_up_def catchup_effects_def r(5))
qed

lemma catchup_confirmed:
  assumes "\<not> sb_handle_guard s" and "bq_inv 25 (cg_event_buffer s)" and "bq_items (cg_event_buffer s) = []"
    and "view_command v = Some Subscription_Confirmation_Command" and "view_message v = Some m"
    and "sc_last_event_number (ck_confirmation codec m) = Some l"
    and "catchup_received codec parse v s = Some (Inr r)"
  shows "catchup_run_inv (cg_current_event_number s) l
    (catchup_effects r \<lparr>cr_sub = s, cr_tasks = [], cr_delivered = [], cr_read = [], cr_live = []\<rparr>)"
  using assms
  by (cases r) (auto simp: catchup_received_def subscription_received_def catchup_on_package_def Let_def
      catch_up_missed_events_def catchup_run_inv_def catching_up_def caught_up_def catchup_effects_def split: if_splits)

lemma catchup_read:
  assumes "catchup_run_inv n l run" and "cr_tasks run = ts @ Catch_Up_Missed p c # us"
    and "missed_slice_read codec c success (Some val) (cr_sub run) = Some (Inr r)"
  shows "catchup_run_inv n l (catchup_effects r (run\<lparr>cr_tasks := ts @ us, cr_read := cr_read run @ ses_events val\<rparr>))"
proof -
  have up: "catching_up l run"
    using assms(1,2) by (auto simp: catchup_run_inv_def caught_up_def Let_def)
  then have c: "c = l - cg_current_event_number (cr_sub run)" "ts = []" "us = []"
    using assms(2) by (auto simp: catching_up_def Let_def only_task)
  define k where "k = int (length (ses_events val))"
  let ?s = "(cr_sub run)\<lparr>cg_current_event_number := cg_current_event_number (cr_sub run) + k\<rparr>"
  have inv: "bq_inv 25 (cg_event_buffer (cr_sub run))" "\<not> sb_handle_guard (cr_sub run)"
      "sb_last_event_number (cr_sub run) = Some l"
      "cg_current_event_number (cr_sub run) = n + int (length (cr_delivered run))"
    using assms(1) by (simp_all add: catchup_run_inv_def Let_def)
  have parts: "cr_delivered run = cr_read run" "bq_items (cg_event_buffer (cr_sub run)) = cr_live run"
    using up by (simp_all add: catching_up_def Let_def)
  show ?thesis
  proof (cases "0 < c - k")
    case True
    then have "r = (appeared (ses_events val) @ [Catch_Up_Missed (cg_current_event_number (cr_sub run) + k) (c - k)], ?s)"
      using assms(3) by (simp add: missed_slice_read_def deliver_slice_eq catch_up_missed_events_def k_def)
    moreover have "c - k = l - (cg_current_event_number (cr_sub run) + k)"
      using c(1) by simp
    ultimately show ?thesis
      using inv parts True c(2,3)
      by (simp add: catchup_run_inv_def Let_def catching_up_def catchup_effects_def k_def)
  next
    case False
    then have "r = (appeared (ses_events val) @ [Post_Read_Buffer], ?s)"
      using assms(3) by (simp add: missed_slice_read_def deliver_slice_eq k_def)
    with inv parts False c show ?thesis
      by (simp add: catchup_run_inv_def Let_def caught_up_def catchup_effects_def k_def)
  qed
qed

lemma catchup_posted:
  assumes "catchup_run_inv n l run" and "cr_tasks run = ts @ Post_Read_Buffer # us"
    and "read_subscription_events (cr_sub run) = Some r"
  shows "catchup_run_inv n l (catchup_effects r (run\<lparr>cr_tasks := ts @ us\<rparr>))"
proof (rule caught_up_drained)
  have "caught_up l run"
    using assms(1,2) by (auto simp: catchup_run_inv_def catching_up_def Let_def only_task)
  with assms show "l \<le> cg_current_event_number (cr_sub (run\<lparr>cr_tasks := ts @ us\<rparr>))"
    and "set (cr_tasks (run\<lparr>cr_tasks := ts @ us\<rparr>)) \<subseteq> {Post_Read_Buffer}"
    and "cr_delivered (run\<lparr>cr_tasks := ts @ us\<rparr>) @ bq_items (cg_event_buffer (cr_sub (run\<lparr>cr_tasks := ts @ us\<rparr>))) =
      cr_read (run\<lparr>cr_tasks := ts @ us\<rparr>) @ cr_live (run\<lparr>cr_tasks := ts @ us\<rparr>)"
    by (auto simp: caught_up_def Let_def)
qed (use assms in \<open>auto simp: catchup_run_inv_def Let_def\<close>)

lemma catchup_live:
  assumes "catchup_run_inv n l run" and "view_command v = Some Stream_Event_Appeared_Command"
    and "view_message v = Some m" and "mk_resolved_event (sea_event (ck_event codec m)) = Some (e, e')"
    and "catchup_received codec parse v (cr_sub run) = Some (Inr r)"
  shows "catchup_run_inv n l (catchup_effects r (run\<lparr>cr_live := cr_live run @ [e]\<rparr>))"
proof -
  let ?s = "cr_sub run"
  have inv: "bq_inv 25 (cg_event_buffer ?s)" "\<not> sb_handle_guard ?s" "sb_last_event_number ?s = Some l"
      "cg_current_event_number ?s = n + int (length (cr_delivered run))" "catching_up l run \<or> caught_up l run"
    using assms(1) by (simp_all add: catchup_run_inv_def Let_def)
  from bq.push_ok [OF inv(1)] obtain q where
    q: "bq_push_back 25 e (cg_event_buffer ?s) = Some q" "bq_inv 25 q" "bq_items q = bq_items (cg_event_buffer ?s) @ [e]"
    by blast
  let ?t = "?s\<lparr>cg_event_buffer := q\<rparr>"
  obtain f where f: "bq_front q = Some f"
    using bq.front_ok [OF q(2)] q(3) by simp
  have on: "\<exists>handled. catchup_on_package codec v ?s = Some (Inr (handled, r)) \<and> handled"
    using assms(2,5) inv(2) q(1) assms(3,4) f
    by (cases r) (auto simp: catchup_received_def subscription_received_def catchup_on_package_def Let_def
        split: sum.splits if_splits option.splits Option.bind_splits prod.splits)
  then consider "cg_current_event_number ?s < l" "r = ([], ?t)"
    | "l \<le> cg_current_event_number ?s" "bq_size 25 q = 1" "read_subscription_events ?t = Some r"
    | "l \<le> cg_current_event_number ?s" "bq_size 25 q \<noteq> 1" "r = ([], ?t)"
    using assms(2-4) inv(3) q(1) f
    by (cases r; cases "cg_current_event_number ?s < l") (auto simp: catchup_on_package_def Let_def split: if_splits option.splits)
  then show ?thesis
  proof cases
    case 1
    with inv q show ?thesis
      by (auto simp: catchup_run_inv_def catching_up_def caught_up_def catchup_effects_def Let_def)
  next
    case 2
    with inv(5) have "caught_up l run"
      by (auto simp: catching_up_def Let_def)
    with caught_up_drained [of "run\<lparr>cr_sub := ?t, cr_live := cr_live run @ [e]\<rparr>" l n r] 2 inv q show ?thesis
      by (simp add: caught_up_def Let_def catchup_effects_def)
  next
    case 3
    with inv(5) have up: "caught_up l run"
      by (auto simp: catching_up_def Let_def)
    have "bq_items (cg_event_buffer ?s) \<noteq> []"
      using 3(2) by (auto simp: bq_size_items [OF q(2)] q(3))
    with 3 up inv q show ?thesis
      by (auto simp: catchup_run_inv_def caught_up_def catchup_effects_def Let_def)
  qed
qed

lemma catchup_runs_inv:
  "catchup_runs codec parse s l run \<Longrightarrow> catchup_run_inv (cg_current_event_number s) l run"
proof (induction rule: catchup_runs.induct)
  case confirmed
  then show ?case by (intro catchup_confirmed)
next
  case live
  then show ?case by (intro catchup_live)
next
  case read
  then show ?case by (intro catchup_read)
next
  case posted
  then show ?case by (intro catchup_posted)
qed

section \<open>Properties\<close>

text \<open>C4: a confirmed catch-up subscription loses, repeats and reorders nothing that reaches it.  However the
  live events, the answers to the missed reads and the posted tasks are interleaved, what has been
  handed over to the user followed by what is in the buffer is what the reads answered, in order,
  followed by the live events, in order: no live event overtakes a missed one.  No event waits
  without a pending read or task that will get to it, and when none is pending, everything has been
  handed over.  The event number counts what was handed over.\<close>

theorem catchup_order:
  assumes "catchup_runs codec parse s l run"
  shows "cr_delivered run @ bq_items (cg_event_buffer (cr_sub run)) = cr_read run @ cr_live run \<and>
    ((\<exists>p c. Catch_Up_Missed p c \<in> set (cr_tasks run)) \<longrightarrow> cr_delivered run = cr_read run) \<and>
    (cr_tasks run = [] \<longrightarrow> cr_delivered run = cr_read run @ cr_live run) \<and>
    cg_current_event_number (cr_sub run) = cg_current_event_number s + int (length (cr_delivered run))"
  using catchup_runs_inv [OF assms] by (auto simp: catchup_run_inv_def Let_def catching_up_def caught_up_def)

text \<open>Two events are missed; a live event arrives before the read of the missed ones is answered.\<close>

lemma sample_catchup_run:
  "\<exists>run e. catchup_runs (sample_catchup_codec 6) parse sample_catchup 6 run \<and> cr_tasks run = [] \<and>
     cr_read run = [plain_event 4, plain_event 5] \<and> cr_live run = [e]"
proof -
  let ?codec = "sample_catchup_codec 6"
  define s1 where "s1 = sample_catchup\<lparr>sb_last_commit_position := Some 0, sb_subscribed := True, sb_last_event_number := Some 6\<rparr>"
  note views = sample_frame_view [OF confirmation_named] sample_frame_view [OF event_named]
  have "catchup_received ?codec parse (frame_view (sample_frame_of Subscription_Confirmation_Command) 22) sample_catchup =
      Some (Inr ([Catch_Up_Missed 4 2], s1))"
    using views(1,2) by (simp add: catchup_received_def subscription_received_def catchup_on_package_def s1_def
        sample_catchup_codec_def catch_up_missed_events_def)
  from catchup_runs.confirmed [OF _ _ _ views(1,2) _ this, of 6]
  have run1: "catchup_runs ?codec parse sample_catchup 6
      \<lparr>cr_sub = s1, cr_tasks = [Catch_Up_Missed 4 2], cr_delivered = [], cr_read = [], cr_live = []\<rparr>"
    by (simp add: bq_inv_empty bq_items_bq_empty catchup_effects_def sample_catchup_codec_def)
  obtain e e' where e: "mk_resolved_event (sea_event (ck_event ?codec [])) = Some (e, e')" "event e \<noteq> None"
    using sample_live_event by blast
  have s1: "cg_event_buffer s1 = bq_empty" "cg_current_event_number s1 = 4" "\<not> sb_handle_guard s1" "sb_last_event_number s1 = Some 6"
    by (simp_all add: s1_def)
  from bq.push_ok [OF bq.inv_empty, of e] obtain q where
    q: "bq_push_back 25 e bq_empty = Some q" "bq_inv 25 q" "bq_items q = [e]"
    by (auto simp: bq_items_bq_empty)
  have f: "bq_front q = Some e"
    using bq.front_ok [OF q(2)] q(3) by simp
  have "catchup_received ?codec parse (frame_view (sample_frame_of Stream_Event_Appeared_Command) 22) s1 =
      Some (Inr ([], s1\<lparr>cg_event_buffer := q\<rparr>))"
    using views(3,4) e q(1) f s1
    by (auto simp: catchup_received_def subscription_received_def catchup_on_package_def)
  from catchup_runs.live [OF run1 views(3,4) e(1), simplified, OF this]
  have run2: "catchup_runs ?codec parse sample_catchup 6 \<lparr>cr_sub = s1\<lparr>cg_event_buffer := q\<rparr>,
      cr_tasks = [Catch_Up_Missed 4 2], cr_delivered = [], cr_read = [], cr_live = [e]\<rparr>"
    by (simp add: catchup_effects_def)
  define val where "val = (server_of [] 4 2)\<lparr>ses_events := [plain_event 4, plain_event 5]\<rparr>"
  then have val: "ses_events val = [plain_event 4, plain_event 5]"
    by simp
  define s2 where "s2 = s1\<lparr>cg_event_buffer := q, cg_current_event_number := 6\<rparr>"
  have "missed_slice_read ?codec 2 success (Some val) (s1\<lparr>cg_event_buffer := q\<rparr>) =
      Some (Inr (appeared [plain_event 4, plain_event 5] @ [Post_Read_Buffer], s2))"
    using s1 by (simp add: missed_slice_read_def val s2_def)
  from catchup_runs.read [OF run2, of "[]" 4 2 "[]" val, simplified, OF this]
  have run3: "catchup_runs ?codec parse sample_catchup 6 \<lparr>cr_sub = s2, cr_tasks = [Post_Read_Buffer],
      cr_delivered = [plain_event 4, plain_event 5], cr_read = [plain_event 4, plain_event 5], cr_live = [e]\<rparr>"
    by (simp add: catchup_effects_def val)
  have "cg_event_buffer s2 = q" "cg_settings s2 = catchup_settings_default"
    by (simp_all add: s2_def s1_def)
  with read_subscription_events_spec [of s2] q(2,3) obtain q' where
    "read_subscription_events s2 = Some ([Event_Appeared e None],
      s2\<lparr>cg_event_buffer := q', cg_current_event_number := cg_current_event_number s2 + 1\<rparr>)"
    by (auto simp: catchup_settings_default_def)
  from catchup_runs.posted [OF run3, of "[]" "[]", simplified, OF this] show ?thesis
    by (intro exI conjI) (assumption, simp_all add: catchup_effects_def)
qed

theorem catchup_order_witness:
  "\<exists>run e. catchup_runs (sample_catchup_codec 6) (\<lambda>_. \<lparr>sd_reason = SD_NotFound\<rparr>) sample_catchup 6 run \<and>
     cr_delivered run = [plain_event 4, plain_event 5, e] \<and> cr_live run = [e] \<and>
     cg_current_event_number (cr_sub run) = 7"
proof -
  obtain run e where run: "catchup_runs (sample_catchup_codec 6) (\<lambda>_. \<lparr>sd_reason = SD_NotFound\<rparr>) sample_catchup 6 run"
      "cr_tasks run = []" "cr_read run = [plain_event 4, plain_event 5]" "cr_live run = [e]"
    using sample_catchup_run by blast
  from catchup_order [OF run(1)] run show ?thesis
    by auto
qed

end
