(* ===== verification/Catchup_All_Runs.thy ===== *)
theory Catchup_All_Runs
  imports Catchup_Runs
begin

text \<open>
  The catch-up subscription to the \<open>all\<close> stream over time: from its confirmation on, with live events, answered
  reads and posted tasks in any order, and from its start to the first missed read.  What it is to
  catch up with is a position in the log, not a number of events, so that the order it keeps depends on the
  positions the server answers with.
\<close>

section \<open>Emptying the buffer\<close>

text \<open>The events of a list that has positions only; the position after the first \<open>n\<close> of them.\<close>

definition positioned :: "resolved_event list \<Rightarrow> bool" where
  "positioned es \<longleftrightarrow> (\<forall>e \<in> set es. original_position e \<noteq> None)"

definition position_after :: "resolved_event list \<Rightarrow> position \<Rightarrow> position" where
  "position_after es p = (if es = [] then p else the (original_position (last es)))"

lemma position_after_Cons [simp]:
  "position_after (e # es) p = position_after es (the (original_position e))"
  by (simp add: position_after_def)

lemma position_after_Nil [simp]: "position_after [] p = p"
  by (simp add: position_after_def)

lemma drain_all_buffer_spec:
  assumes "bq_inv 25 (ca_event_buffer s)" and "positioned (bq_items (ca_event_buffer s))"
  shows "\<exists>q. drain_all_buffer n s = Some (Inr (appeared (take n (bq_items (ca_event_buffer s))),
      s\<lparr>ca_current_position := position_after (take n (bq_items (ca_event_buffer s))) (ca_current_position s),
        ca_event_buffer := q\<rparr>)) \<and>
    bq_inv 25 q \<and> bq_items q = drop n (bq_items (ca_event_buffer s))"
  using assms
proof (induction n arbitrary: s)
  case 0
  then show ?case
    by (intro exI [of _ "ca_event_buffer s"]) simp
next
  case (Suc n)
  show ?case
  proof (cases "bq_items (ca_event_buffer s)")
    case Nil
    then show ?thesis
      using Suc.prems(1) by (intro exI [of _ "ca_event_buffer s"]) (simp add: bq.is_empty_iff)
  next
    case (Cons e es)
    then have front: "bq_front (ca_event_buffer s) = Some e" "\<not> bq_is_empty (ca_event_buffer s)"
      using bq.front_ok [OF Suc.prems(1)] bq.is_empty_iff [OF Suc.prems(1)] by simp_all
    obtain q where q: "bq_pop_front 25 (ca_event_buffer s) = Some q" "bq_inv 25 q" "bq_items q = es"
      using bq.pop_ok [OF Suc.prems(1)] Cons by auto
    obtain p where p: "original_position e = Some p"
      using Suc.prems(2) Cons by (auto simp: positioned_def)
    define s1 where "s1 = s\<lparr>ca_current_position := p, ca_event_buffer := q\<rparr>"
    have "positioned (bq_items (ca_event_buffer s1))" "bq_inv 25 (ca_event_buffer s1)"
      using Suc.prems(2) Cons q by (simp_all add: positioned_def s1_def)
    from Suc.IH [OF this(2,1)] obtain q' where
      "drain_all_buffer n s1 = Some (Inr (appeared (take n es), s1\<lparr>ca_current_position := position_after (take n es) p,
        ca_event_buffer := q'\<rparr>))" "bq_inv 25 q'" "bq_items q' = drop n es"
      using q(3) by (auto simp: s1_def)
    then show ?thesis
      using front q(1) p Cons by (intro exI [of _ q']) (simp add: s1_def)
  qed
qed

lemma all_drained:
  assumes "bq_inv 25 (ca_event_buffer s)" and "positioned (bq_items (ca_event_buffer s))"
    and "read_all_subscription_events s = Some r"
  obtains k q where "r = Inr (appeared (take k (bq_items (ca_event_buffer s))) @
        (if drop k (bq_items (ca_event_buffer s)) = [] then [] else [Post_Read_Buffer]),
      s\<lparr>ca_current_position := position_after (take k (bq_items (ca_event_buffer s))) (ca_current_position s),
        ca_event_buffer := q\<rparr>)"
    and "bq_inv 25 q" and "bq_items q = drop k (bq_items (ca_event_buffer s))"
proof -
  define k where "k = nat (cu_max_live_queue_size (ca_settings s))"
  from drain_all_buffer_spec [OF assms(1,2), of k] obtain q where q:
    "drain_all_buffer k s = Some (Inr (appeared (take k (bq_items (ca_event_buffer s))),
      s\<lparr>ca_current_position := position_after (take k (bq_items (ca_event_buffer s))) (ca_current_position s),
        ca_event_buffer := q\<rparr>))" "bq_inv 25 q" "bq_items q = drop k (bq_items (ca_event_buffer s))"
    by blast
  with assms(3) show thesis
    by (intro that [of k q]) (auto simp: read_all_subscription_events_def k_def [symmetric] bq.is_empty_iff)
qed

section \<open>Runs\<close>

text \<open>The events of a slice that come before the position to catch up to: those are handed over.\<close>

definition before_position :: "position \<Rightarrow> resolved_event list \<Rightarrow> resolved_event list" where
  "before_position target = takeWhile (\<lambda>e. original_position e \<noteq> Some target)"

definition all_received ::
  "catchup_codec \<Rightarrow> (bytes \<Rightarrow> subscription_dropped) \<Rightarrow> tcp_package_view \<Rightarrow> catchup_all_subscription \<Rightarrow>
     (exn + sub_effect list \<times> catchup_all_subscription) option"
where
  "all_received codec parse v s =
     subscription_received (ck_unsubscribe codec) parse catchup_all_shutdown (catchup_all_on_package codec) success v s"

text \<open>The position of an event is before the target, or it is not.\<close>

definition is_before :: "position \<Rightarrow> resolved_event \<Rightarrow> bool" where
  "is_before target e \<longleftrightarrow> (\<exists>p. original_position e = Some p \<and> position_gt target p)"

definition not_before :: "position \<Rightarrow> resolved_event \<Rightarrow> bool" where
  "not_before target e \<longleftrightarrow> (\<exists>p. original_position e = Some p \<and> \<not> position_gt target p)"

text \<open>The subscription \<open>s\<close> is confirmed with the last commit position \<open>l\<close>.  The server sends live events that are
  not before this position, and answers the missed reads with events in the order of the log: those it
  lists before the one at the position are before the position.\<close>

inductive catchup_all_runs ::
  "catchup_codec \<Rightarrow> (bytes \<Rightarrow> subscription_dropped) \<Rightarrow> catchup_all_subscription \<Rightarrow> int \<Rightarrow>
     catchup_all_subscription catchup_run \<Rightarrow> bool"
for codec parse s l where
  confirmed: "\<not> sb_handle_guard s \<Longrightarrow> bq_inv 25 (ca_event_buffer s) \<Longrightarrow> bq_items (ca_event_buffer s) = [] \<Longrightarrow>
    view_command v = Some Subscription_Confirmation_Command \<Longrightarrow> view_message v = Some m \<Longrightarrow>
    sc_last_commit_position (ck_confirmation codec m) = l \<Longrightarrow>
    all_received codec parse v s = Some (Inr r) \<Longrightarrow>
    catchup_all_runs codec parse s l
      (catchup_effects r \<lparr>cr_sub = s, cr_tasks = [], cr_delivered = [], cr_read = [], cr_live = []\<rparr>)"
| live: "catchup_all_runs codec parse s l run \<Longrightarrow>
    view_command v = Some Stream_Event_Appeared_Command \<Longrightarrow> view_message v = Some m \<Longrightarrow>
    mk_resolved_event (sea_event (ck_event codec m)) = Some (e, e') \<Longrightarrow> not_before (Position l l) e \<Longrightarrow>
    all_received codec parse v (cr_sub run) = Some (Inr r) \<Longrightarrow>
    catchup_all_runs codec parse s l (catchup_effects r (run\<lparr>cr_live := cr_live run @ [e]\<rparr>))"
| read: "catchup_all_runs codec parse s l run \<Longrightarrow> cr_tasks run = ts @ Catch_Up_All_Missed n c # us \<Longrightarrow>
    before = before_position (Position l l) (aes_events val) \<Longrightarrow> list_all (is_before (Position l l)) before \<Longrightarrow>
    all_missed_slice_read codec c success (Some val) (cr_sub run) = Some (Inr r) \<Longrightarrow>
    catchup_all_runs codec parse s l
      (catchup_effects r (run\<lparr>cr_tasks := ts @ us, cr_read := cr_read run @ before\<rparr>))"
| posted: "catchup_all_runs codec parse s l run \<Longrightarrow> cr_tasks run = ts @ Post_Read_Buffer # us \<Longrightarrow>
    read_all_subscription_events (cr_sub run) = Some (Inr r) \<Longrightarrow>
    catchup_all_runs codec parse s l (catchup_effects r (run\<lparr>cr_tasks := ts @ us\<rparr>))"

section \<open>The invariant\<close>

definition all_catching_up :: "position \<Rightarrow> catchup_all_subscription catchup_run \<Rightarrow> bool" where
  "all_catching_up target run \<longleftrightarrow> (let s = cr_sub run in position_gt target (ca_current_position s) \<and>
     (\<exists>n c. cr_tasks run = [Catch_Up_All_Missed n c]) \<and>
     cr_delivered run = cr_read run \<and> bq_items (ca_event_buffer s) = cr_live run)"

definition all_caught_up :: "position \<Rightarrow> catchup_all_subscription catchup_run \<Rightarrow> bool" where
  "all_caught_up target run \<longleftrightarrow> (let s = cr_sub run in \<not> position_gt target (ca_current_position s) \<and>
     set (cr_tasks run) \<subseteq> {Post_Read_Buffer} \<and>
     (bq_items (ca_event_buffer s) \<noteq> [] \<longrightarrow> Post_Read_Buffer \<in> set (cr_tasks run)) \<and>
     cr_delivered run @ bq_items (ca_event_buffer s) = cr_read run @ cr_live run)"

definition all_run_inv :: "position \<Rightarrow> catchup_all_subscription catchup_run \<Rightarrow> bool" where
  "all_run_inv target run \<longleftrightarrow> (let s = cr_sub run in
     bq_inv 25 (ca_event_buffer s) \<and> \<not> sb_handle_guard s \<and> ca_position_to_catch_up_to s = target \<and>
     list_all (not_before target) (bq_items (ca_event_buffer s)) \<and>
     (all_catching_up target run \<or> all_caught_up target run))"

lemma not_before_positioned: "list_all (not_before target) es \<Longrightarrow> positioned es"
  by (auto simp: list_all_iff positioned_def not_before_def)

lemma not_before_after:
  "list_all (not_before target) es \<Longrightarrow> \<not> position_gt target p \<Longrightarrow> \<not> position_gt target (position_after es p)"
  by (cases es rule: rev_cases) (auto simp: position_after_def not_before_def)

lemma is_before_after:
  "list_all (is_before target) es \<Longrightarrow> position_gt target p \<Longrightarrow> position_gt target (position_after es p)"
  by (cases es rule: rev_cases) (auto simp: position_after_def is_before_def)

lemma all_caught_up_drained:
  assumes "bq_inv 25 (ca_event_buffer (cr_sub run))" and "\<not> sb_handle_guard (cr_sub run)"
    and "ca_position_to_catch_up_to (cr_sub run) = target" and "\<not> position_gt target (ca_current_position (cr_sub run))"
    and "list_all (not_before target) (bq_items (ca_event_buffer (cr_sub run)))"
    and "set (cr_tasks run) \<subseteq> {Post_Read_Buffer}"
    and "cr_delivered run @ bq_items (ca_event_buffer (cr_sub run)) = cr_read run @ cr_live run"
    and "read_all_subscription_events (cr_sub run) = Some (Inr r)"
  shows "all_run_inv target (catchup_effects r run)"
proof -
  let ?items = "bq_items (ca_event_buffer (cr_sub run))"
  obtain k q where r: "r = (appeared (take k ?items) @ (if drop k ?items = [] then [] else [Post_Read_Buffer]),
      (cr_sub run)\<lparr>ca_current_position := position_after (take k ?items) (ca_current_position (cr_sub run)),
        ca_event_buffer := q\<rparr>)" "bq_inv 25 q" "bq_items q = drop k ?items"
    using all_drained [OF assms(1) not_before_positioned [OF assms(5)] assms(8)] by blast
  have split: "list_all (not_before target) (take k ?items)" "list_all (not_before target) (drop k ?items)"
    using assms(5) by (auto simp: list_all_iff dest: in_set_takeD in_set_dropD)
  have "(cr_delivered run @ take k ?items) @ bq_items q = cr_read run @ cr_live run"
    using assms(7) r(3) by simp
  with assms(2,3,6) r(2) split(2) not_before_after [OF split(1) assms(4)] show ?thesis
    by (auto simp: all_run_inv_def Let_def all_caught_up_def catchup_effects_def r(1,3))
qed

lemma all_confirmed:
  assumes "\<not> sb_handle_guard s" and "bq_inv 25 (ca_event_buffer s)" and "bq_items (ca_event_buffer s) = []"
    and "view_command v = Some Subscription_Confirmation_Command" and "view_message v = Some m"
    and "sc_last_commit_position (ck_confirmation codec m) = l" and "all_received codec parse v s = Some (Inr r)"
  shows "all_run_inv (Position l l)
    (catchup_effects r \<lparr>cr_sub = s, cr_tasks = [], cr_delivered = [], cr_read = [], cr_live = []\<rparr>)"
  using assms
  by (cases r; cases "sc_last_event_number (ck_confirmation codec m)")
     (auto simp: all_received_def subscription_received_def catchup_all_on_package_def Let_def
      catch_up_all_missed_events_def all_run_inv_def all_catching_up_def all_caught_up_def catchup_effects_def
      split: if_splits)

text \<open>A slice of missed events: the read is repeated, or the position is reached and the buffer follows.\<close>

lemma missed_slice_cases:
  assumes "all_missed_slice_read codec c success (Some val) s = Some (Inr r)"
    and "before = before_position target (aes_events val)" and "list_all (is_before target) before"
    and "ca_position_to_catch_up_to s = target"
  obtains (on) "r = (appeared before @ [Catch_Up_All_Missed (position_after before (ca_current_position s)) c],
      s\<lparr>ca_current_position := position_after before (ca_current_position s)\<rparr>)"
    | (reached) r' where "read_all_subscription_events (s\<lparr>ca_current_position := target\<rparr>) = Some (Inr r')"
      and "r = (appeared before @ fst r', snd r')"
proof -
  have "\<exists>es1. aes_events val = before @ es1 \<and> (es1 = [] \<or> original_position (hd es1) = Some target)"
    using hd_dropWhile [of "\<lambda>e. original_position e \<noteq> Some target" "aes_events val"]
    by (intro exI [of _ "dropWhile (\<lambda>e. original_position e \<noteq> Some target) (aes_events val)"])
       (auto simp: assms(2) before_position_def)
  then obtain es1 where es1: "aes_events val = before @ es1" "es1 = [] \<or> original_position (hd es1) = Some target"
    by blast
  have ne: "\<forall>e \<in> set before. \<exists>p. original_position e = Some p \<and> p \<noteq> target"
    using assms(3) by (auto simp: list_all_iff is_before_def position_gt_def)
  have walk: "deliver_missed (xs @ ys) t = (case deliver_missed ys (t\<lparr>ca_current_position := position_after xs (ca_current_position t)\<rparr>) of
      Inl x \<Rightarrow> Inl x | Inr (continue, effects, t') \<Rightarrow> Inr (continue, appeared xs @ effects, t'))"
    if "\<forall>e \<in> set xs. \<exists>p. original_position e = Some p \<and> p \<noteq> target" and "ca_position_to_catch_up_to t = target" for xs ys t
    using that
  proof (induction xs arbitrary: t)
    case (Cons e xs)
    then obtain p where p: "original_position e = Some p" "p \<noteq> target"
      by auto
    with Cons.IH [of "t\<lparr>ca_current_position := p\<rparr>"] Cons.prems show ?case
      by (auto simp: Let_def position_eq_iff split: sum.splits prod.splits)
  qed (auto split: sum.split prod.split)
  let ?s = "s\<lparr>ca_current_position := position_after before (ca_current_position s)\<rparr>"
  have d: "deliver_missed (aes_events val) s = (case deliver_missed es1 ?s of
      Inl x \<Rightarrow> Inl x | Inr (continue, effects, t') \<Rightarrow> Inr (continue, appeared before @ effects, t'))"
    using walk [OF ne assms(4), of es1] es1(1) by simp
  show thesis
  proof (cases es1)
    case Nil
    with d assms(1) on show ?thesis
      by (auto simp: all_missed_slice_read_def catch_up_all_missed_events_def)
  next
    case (Cons e es)
    with es1(2) assms(4) have "deliver_missed es1 ?s = Inr (False, [], s\<lparr>ca_current_position := target\<rparr>)"
      by (simp add: Let_def position_eq_iff)
    with d assms(1) obtain r1 where r1: "read_all_subscription_events (s\<lparr>ca_current_position := target\<rparr>) = Some r1"
        "Inr r = (case r1 of Inl x \<Rightarrow> Inl x | Inr (effects', s') \<Rightarrow> Inr (appeared before @ effects', s'))"
      by (auto simp: all_missed_slice_read_def)
    then show ?thesis
      by (cases r1) (auto intro: reached)
  qed
qed

lemma all_read:
  assumes "all_run_inv target run" and "cr_tasks run = ts @ Catch_Up_All_Missed n c # us"
    and "before = before_position target (aes_events val)" and "list_all (is_before target) before"
    and "all_missed_slice_read codec c success (Some val) (cr_sub run) = Some (Inr r)"
  shows "all_run_inv target (catchup_effects r (run\<lparr>cr_tasks := ts @ us, cr_read := cr_read run @ before\<rparr>))"
proof -
  have inv: "bq_inv 25 (ca_event_buffer (cr_sub run))" "\<not> sb_handle_guard (cr_sub run)"
      "ca_position_to_catch_up_to (cr_sub run) = target"
      "list_all (not_before target) (bq_items (ca_event_buffer (cr_sub run)))"
    and up: "all_catching_up target run"
    using assms(1,2) by (auto simp: all_run_inv_def all_caught_up_def Let_def)
  then have parts: "cr_delivered run = cr_read run" "bq_items (ca_event_buffer (cr_sub run)) = cr_live run"
      "ts = []" "us = []" "position_gt target (ca_current_position (cr_sub run))"
    using assms(2) by (auto simp: all_catching_up_def Let_def only_task)
  from assms(5,3,4) inv(3) show ?thesis
  proof (cases rule: missed_slice_cases)
    case on
    with inv parts is_before_after [OF assms(4) parts(5)] show ?thesis
      by (simp add: all_run_inv_def Let_def all_catching_up_def catchup_effects_def)
  next
    case (reached r')
    let ?run = "run\<lparr>cr_sub := (cr_sub run)\<lparr>ca_current_position := target\<rparr>, cr_tasks := [],
      cr_delivered := cr_delivered run @ before, cr_read := cr_read run @ before\<rparr>"
    have "all_run_inv target (catchup_effects r' ?run)"
      using inv parts reached(1) by (intro all_caught_up_drained) (simp_all add: position_gt_def)
    with parts reached(2) show ?thesis
      by (simp add: catchup_effects_def)
  qed
qed

lemma all_posted:
  assumes "all_run_inv target run" and "cr_tasks run = ts @ Post_Read_Buffer # us"
    and "read_all_subscription_events (cr_sub run) = Some (Inr r)"
  shows "all_run_inv target (catchup_effects r (run\<lparr>cr_tasks := ts @ us\<rparr>))"
proof -
  have "all_caught_up target run"
    using assms(1,2) by (auto simp: all_run_inv_def all_catching_up_def Let_def only_task)
  with assms show ?thesis
    by (intro all_caught_up_drained) (auto simp: all_run_inv_def all_caught_up_def Let_def)
qed

lemma handled_received:
  "map_option handled_package x \<bind> case_sum (\<lambda>e. Some (Inl e)) (\<lambda>(handled, effects, s').
     if handled then Some (Inr (effects, s')) else f effects s') = Some (Inr r) \<Longrightarrow> x = Some (Inr r)"
  by (cases x; cases "the x") auto

lemma all_live:
  assumes "all_run_inv target run" and "view_command v = Some Stream_Event_Appeared_Command"
    and "view_message v = Some m" and "mk_resolved_event (sea_event (ck_event codec m)) = Some (e, e')"
    and "not_before target e" and "all_received codec parse v (cr_sub run) = Some (Inr r)"
  shows "all_run_inv target (catchup_effects r (run\<lparr>cr_live := cr_live run @ [e]\<rparr>))"
proof -
  let ?s = "cr_sub run"
  have inv: "bq_inv 25 (ca_event_buffer ?s)" "\<not> sb_handle_guard ?s" "ca_position_to_catch_up_to ?s = target"
      "list_all (not_before target) (bq_items (ca_event_buffer ?s))" "all_catching_up target run \<or> all_caught_up target run"
    using assms(1) by (simp_all add: all_run_inv_def Let_def)
  from bq.push_ok [OF inv(1)] obtain q where
    q: "bq_push_back 25 e (ca_event_buffer ?s) = Some q" "bq_inv 25 q" "bq_items q = bq_items (ca_event_buffer ?s) @ [e]"
    by blast
  let ?t = "?s\<lparr>ca_event_buffer := q\<rparr>"
  consider "position_gt target (ca_current_position ?s)" "r = ([], ?t)"
    | "\<not> position_gt target (ca_current_position ?s)" "bq_size 25 q = 1" "read_all_subscription_events ?t = Some (Inr r)"
    | "\<not> position_gt target (ca_current_position ?s)" "bq_size 25 q \<noteq> 1" "r = ([], ?t)"
    using assms(2-4,6) inv(2,3) q(1)
    by (cases r; cases "position_gt target (ca_current_position ?s)"; cases "bq_size 25 q = 1")
       (auto simp: all_received_def subscription_received_def catchup_all_on_package_def Let_def
         dest: handled_received)
  then show ?thesis
  proof cases
    case 1
    with inv q assms(5) show ?thesis
      by (auto simp: all_run_inv_def all_catching_up_def all_caught_up_def catchup_effects_def Let_def)
  next
    case 2
    with inv(5) have "all_caught_up target run"
      by (auto simp: all_catching_up_def Let_def)
    with all_caught_up_drained [of "run\<lparr>cr_sub := ?t, cr_live := cr_live run @ [e]\<rparr>" target r] 2 inv q assms(5) show ?thesis
      by (simp add: all_caught_up_def Let_def catchup_effects_def)
  next
    case 3
    with inv(5) have up: "all_caught_up target run"
      by (auto simp: all_catching_up_def Let_def)
    have "bq_items (ca_event_buffer ?s) \<noteq> []"
      using 3(2) by (auto simp: bq_size_items [OF q(2)] q(3))
    with 3 up inv q assms(5) show ?thesis
      by (auto simp: all_run_inv_def all_caught_up_def catchup_effects_def Let_def)
  qed
qed

lemma catchup_all_runs_inv: "catchup_all_runs codec parse s l run \<Longrightarrow> all_run_inv (Position l l) run"
proof (induction rule: catchup_all_runs.induct)
  case confirmed
  then show ?case by (intro all_confirmed)
next
  case live
  then show ?case by (intro all_live)
next
  case read
  then show ?case by (intro all_read)
next
  case posted
  then show ?case by (intro all_posted)
qed

text \<open>A slice that does not reach the position: everything is handed over and the read is repeated.\<close>

lemma missed_slice_short:
  assumes "positioned (aes_events val)" and "before_position (ca_position_to_catch_up_to s) (aes_events val) = aes_events val"
  shows "all_missed_slice_read codec c success (Some val) s =
    Some (Inr (appeared (aes_events val) @ [Catch_Up_All_Missed (position_after (aes_events val) (ca_current_position s)) c],
      s\<lparr>ca_current_position := position_after (aes_events val) (ca_current_position s)\<rparr>))"
proof -
  have pos: "\<forall>e \<in> set (aes_events val). original_position e \<noteq> None"
    using assms(1) by (simp add: positioned_def)
  show ?thesis
    using deliver_missed_eq [OF pos, of s, unfolded Let_def assms(2) [unfolded before_position_def]]
    by (simp add: all_missed_slice_read_def catch_up_all_missed_events_def position_after_def)
qed

lemma before_position_all:
  assumes "\<forall>e \<in> set es. original_position e \<noteq> Some target"
  shows "before_position target es = es"
  using assms by (simp add: before_position_def takeWhile_eq_all_conv)

lemma is_before_slice:
  assumes "list_all (is_before target) es"
  shows "positioned es" and "before_position target es = es"
proof -
  have *: "\<exists>p. original_position e = Some p \<and> position_gt target p" if "e \<in> set es" for e
    using assms that by (auto simp: list_all_iff is_before_def)
  then show "positioned es"
    by (force simp: positioned_def)
  show "before_position target es = es"
    using * by (intro before_position_all) (force simp: position_gt_def)
qed

text \<open>A live event that finds the buffer empty and the position passed.\<close>

lemma all_live_at_once:
  assumes "view_command v = Some Stream_Event_Appeared_Command" and "view_message v = Some m"
    and "mk_resolved_event (sea_event (ck_event codec m)) = Some (e, e')" and "original_position e = Some p"
    and "bq_inv 25 (ca_event_buffer s)" and "bq_items (ca_event_buffer s) = []" and "\<not> sb_handle_guard s"
    and "\<not> position_gt (ca_position_to_catch_up_to s) (ca_current_position s)" and "0 < cu_max_live_queue_size (ca_settings s)"
  shows "\<exists>q. all_received codec parse v s = Some (Inr ([Event_Appeared e None], s\<lparr>ca_current_position := p, ca_event_buffer := q\<rparr>)) \<and>
    bq_inv 25 q \<and> bq_items q = []"
proof -
  from bq.push_ok [OF assms(5)] obtain q where
    q: "bq_push_back 25 e (ca_event_buffer s) = Some q" "bq_inv 25 q" "bq_items q = [e]"
    using assms(6) by force
  let ?t = "s\<lparr>ca_event_buffer := q\<rparr>" and ?k = "nat (cu_max_live_queue_size (ca_settings s))"
  have k: "take ?k [e] = [e]" "drop ?k [e] = []"
    using assms(9) by simp_all
  have "positioned (bq_items (ca_event_buffer ?t))"
    using q(3) assms(4) by (simp add: positioned_def)
  with drain_all_buffer_spec [of ?t ?k] q obtain q' where
    "drain_all_buffer ?k ?t = Some (Inr ([Event_Appeared e None], s\<lparr>ca_current_position := p, ca_event_buffer := q'\<rparr>))"
    "bq_inv 25 q'" "bq_items q' = []"
    using k assms(4) by (auto simp: q(3))
  moreover have "bq_size 25 q = 1"
    by (simp add: bq_size_items [OF q(2)] q(3))
  ultimately show ?thesis
    using assms(1-3,7,8) q(1)
    by (auto simp: all_received_def subscription_received_def catchup_all_on_package_def Let_def
        read_all_subscription_events_def bq.is_empty_iff)
qed

section \<open>Properties\<close>

text \<open>C5: the order a confirmed catch-up subscription to the \<open>all\<close> stream keeps.  As long as the server answers the
  missed reads with events before the position to catch up to, until one answer holds the event at
  this position, and its live events are not before it: however live events, answers and posted tasks
  are interleaved, what has been handed over followed by what is in the buffer is what the reads answered
  before the position, in order, followed by the live events, in order.  While a missed read is
  out, no live event is handed over; when nothing is pending, everything has been.\<close>

theorem catchup_all_order:
  assumes "catchup_all_runs codec parse s l run"
  shows "cr_delivered run @ bq_items (ca_event_buffer (cr_sub run)) = cr_read run @ cr_live run \<and>
    ((\<exists>p c. Catch_Up_All_Missed p c \<in> set (cr_tasks run)) \<longrightarrow> cr_delivered run = cr_read run) \<and>
    (cr_tasks run = [] \<longrightarrow> cr_delivered run = cr_read run @ cr_live run) \<and>
    (position_gt (Position l l) (ca_current_position (cr_sub run)) \<longleftrightarrow> (\<exists>p c. Catch_Up_All_Missed p c \<in> set (cr_tasks run)))"
  using catchup_all_runs_inv [OF assms]
  by (auto simp: all_run_inv_def Let_def all_catching_up_def all_caught_up_def)

text \<open>Two slices of missed events, with the event at 5 read twice; a live event arrives between them.\<close>

definition sample_all_codec :: catchup_codec where
  "sample_all_codec = \<lparr>ck_subscribe = ss_event_stream_id, ck_unsubscribe = [],
     ck_confirmation = (\<lambda>_. \<lparr>sc_last_commit_position = 9, sc_last_event_number = None\<rparr>),
     ck_event = (\<lambda>_. \<lparr>sea_event = \<lparr>re_event = Some sample_record, re_link = None, re_commit_position = 12, re_prepare_position = 12\<rparr>\<rparr>)\<rparr>"

definition sample_all :: catchup_all_subscription where
  "sample_all = mk_catchup_all_subscription (replicate 16 1) (Position 0 0) catchup_settings_default"

lemma sample_all_simps [simp]:
  "ca_event_buffer sample_all = bq_empty" "\<not> sb_handle_guard sample_all" "ca_current_position sample_all = Position 0 0"
  "ca_settings sample_all = catchup_settings_default" "sb_key sample_all = replicate 16 1"
  by (simp_all add: sample_all_def mk_catchup_all_subscription_def subscription_base.defs
      catchup_all_subscription.defs mk_subscription_base_def)

lemma sample_all_event:
  "\<exists>e e'. mk_resolved_event (sea_event (ck_event sample_all_codec [])) = Some (e, e') \<and> original_position e = Some (Position 12 12)"
  by (simp add: sample_all_codec_def mk_resolved_event_def emplace_event_def mk_recorded_event_def
      guid_of_def rd_range_def string_memory_def sample_record_def)

lemma sample_all_confirmed:
  "\<exists>s. all_received sample_all_codec parse (frame_view (sample_frame_of Subscription_Confirmation_Command) 22) sample_all =
     Some (Inr ([Catch_Up_All_Missed (Position 0 0) (cu_read_batch_size catchup_settings_default)], s)) \<and>
   ca_position_to_catch_up_to s = Position 9 9 \<and> ca_current_position s = Position 0 0 \<and> ca_event_buffer s = bq_empty \<and>
   \<not> sb_handle_guard s \<and> ca_settings s = catchup_settings_default"
  using sample_frame_view [OF confirmation_named]
  by (auto simp: all_received_def subscription_received_def catchup_all_on_package_def catch_up_all_missed_events_def
      sample_all_codec_def position_gt_def Let_def)

lemma before_position_at [simp]:
  "before_position (Position a a) (event_at x # es) = (if x = a then [] else event_at x # before_position (Position a a) es)"
  "before_position t [] = []"
  by (simp_all add: before_position_def event_at_def)

lemma is_before_at [simp]: "is_before (Position a a) (event_at x) \<longleftrightarrow> x < a"
  by (auto simp: is_before_def event_at_def position_gt_def)

lemma slice_at_events [simp]: "aes_events (slice_at ps) = map event_at ps"
  by (simp add: slice_at_def)

lemma original_position_at [simp]: "original_position (event_at x) = Some (Position x x)"
  by (simp add: event_at_def)

lemma sample_all_run:
  "\<exists>run e. catchup_all_runs sample_all_codec parse sample_all 9 run \<and> cr_tasks run = [] \<and>
     cr_read run = [event_at 1, event_at 5, event_at 5] \<and> cr_live run = [e] \<and> original_position e = Some (Position 12 12)"
proof -
  let ?b = "cu_read_batch_size catchup_settings_default"
  note views = sample_frame_view [OF confirmation_named] sample_frame_view [OF event_named]
  obtain s1 where s1: "all_received sample_all_codec parse (frame_view (sample_frame_of Subscription_Confirmation_Command) 22)
      sample_all = Some (Inr ([Catch_Up_All_Missed (Position 0 0) ?b], s1))"
    "ca_position_to_catch_up_to s1 = Position 9 9" "ca_current_position s1 = Position 0 0" "ca_event_buffer s1 = bq_empty"
    "\<not> sb_handle_guard s1" "ca_settings s1 = catchup_settings_default"
    using sample_all_confirmed by blast
  from catchup_all_runs.confirmed [OF _ _ _ views(1,2) _ s1(1), of 9]
  have run1: "catchup_all_runs sample_all_codec parse sample_all 9 \<lparr>cr_sub = s1,
      cr_tasks = [Catch_Up_All_Missed (Position 0 0) ?b], cr_delivered = [], cr_read = [], cr_live = []\<rparr>"
    by (simp add: bq_inv_empty bq_items_bq_empty catchup_effects_def sample_all_codec_def)
  let ?s2 = "s1\<lparr>ca_current_position := Position 5 5\<rparr>"
  have "all_missed_slice_read sample_all_codec ?b success (Some (slice_at [1, 5])) s1 =
      Some (Inr ([Event_Appeared (event_at 1) None, Event_Appeared (event_at 5) None, Catch_Up_All_Missed (Position 5 5) ?b], ?s2))"
    using missed_slice_short [of "slice_at [1, 5]" s1] s1(2) by (simp add: positioned_def)
  from catchup_all_runs.read [OF run1, of "[]" "Position 0 0" ?b "[]" _ "slice_at [1, 5]", simplified, OF refl _ this]
  have run2: "catchup_all_runs sample_all_codec parse sample_all 9 \<lparr>cr_sub = ?s2,
      cr_tasks = [Catch_Up_All_Missed (Position 5 5) ?b], cr_delivered = [event_at 1, event_at 5],
      cr_read = [event_at 1, event_at 5], cr_live = []\<rparr>"
    by (simp add: catchup_effects_def)
  obtain e e' where e: "mk_resolved_event (sea_event (ck_event sample_all_codec [])) = Some (e, e')"
      "original_position e = Some (Position 12 12)"
    using sample_all_event by blast
  from bq.push_ok [OF bq.inv_empty, of e] obtain q where
    q: "bq_push_back 25 e bq_empty = Some q" "bq_inv 25 q" "bq_items q = [e]"
    by (auto simp: bq_items_bq_empty)
  let ?s3 = "?s2\<lparr>ca_event_buffer := q\<rparr>"
  have "all_received sample_all_codec parse (frame_view (sample_frame_of Stream_Event_Appeared_Command) 22) ?s2 = Some (Inr ([], ?s3))"
    using views(3,4) e q(1) s1 by (simp add: all_received_def subscription_received_def catchup_all_on_package_def position_gt_def)
  moreover have "not_before (Position 9 9) e"
    using e(2) by (simp add: not_before_def position_gt_def)
  ultimately have run3: "catchup_all_runs sample_all_codec parse sample_all 9 \<lparr>cr_sub = ?s3,
      cr_tasks = [Catch_Up_All_Missed (Position 5 5) ?b], cr_delivered = [event_at 1, event_at 5],
      cr_read = [event_at 1, event_at 5], cr_live = [e]\<rparr>"
    using catchup_all_runs.live [OF run2 views(3,4) e(1)] by (simp add: catchup_effects_def)
  have "take (nat (cu_max_live_queue_size catchup_settings_default)) [e] = [e]"
    by (simp add: catchup_settings_default_def)
  with drain_all_buffer_spec [of "?s3\<lparr>ca_current_position := Position 9 9\<rparr>" "nat (cu_max_live_queue_size catchup_settings_default)"]
    q(2,3) e(2) obtain q' where
    "drain_all_buffer (nat (cu_max_live_queue_size catchup_settings_default)) (?s3\<lparr>ca_current_position := Position 9 9\<rparr>) =
      Some (Inr ([Event_Appeared e None], ?s3\<lparr>ca_current_position := Position 12 12, ca_event_buffer := q'\<rparr>))"
    "bq_inv 25 q'" "bq_items q' = []"
    by (auto simp: positioned_def catchup_settings_default_def)
  then have "all_missed_slice_read sample_all_codec ?b success (Some (slice_at [5, 9])) ?s3 =
      Some (Inr ([Event_Appeared (event_at 5) None, Event_Appeared e None],
        ?s3\<lparr>ca_current_position := Position 12 12, ca_event_buffer := q'\<rparr>))"
    using s1(2,6) by (simp add: all_missed_slice_read_def position_eq_def read_all_subscription_events_def
        bq.is_empty_iff Let_def)
  from catchup_all_runs.read [OF run3, of "[]" "Position 5 5" ?b "[]" _ "slice_at [5, 9]", simplified, OF refl _ this]
  show ?thesis
    using e(2) by (intro exI conjI) (assumption | simp add: catchup_effects_def)+
qed

theorem catchup_all_order_witness:
  "\<exists>run e. catchup_all_runs sample_all_codec (\<lambda>_. \<lparr>sd_reason = SD_NotFound\<rparr>) sample_all 9 run \<and>
     cr_delivered run = [event_at 1, event_at 5, event_at 5, e] \<and> cr_live run = [e]"
proof -
  obtain run e where run: "catchup_all_runs sample_all_codec (\<lambda>_. \<lparr>sd_reason = SD_NotFound\<rparr>) sample_all 9 run"
      "cr_tasks run = []" "cr_read run = [event_at 1, event_at 5, event_at 5]" "cr_live run = [e]"
    using sample_all_run by blast
  from catchup_all_order [OF run(1)] run show ?thesis
    by auto
qed

text \<open>The past is handed over twice.  The read that reaches the end of the \<open>all\<close> stream does not move the
  position of the subscription, so that after the confirmation, when anything was written meanwhile, the
  first missed read asks for the same position again, and every event of the last slice is handed over a second time.\<close>

theorem catchup_all_repeats_last_slice:
  assumes "aes_is_end_of_stream val" and "is_guid (sb_key s)"
    and "view_command v = Some Subscription_Confirmation_Command" and "view_message v = Some m"
    and "sc_last_commit_position (ck_confirmation codec m) = l" and "position_gt (Position l l) (ca_current_position s)"
    and "aes_events val' = aes_events val @ es" and "list_all (is_before (Position l l)) (aes_events val')"
  shows "\<exists>p s1 s2 s3 t. fst (catchup_all_async_start s) = [Catch_Up_All (ca_current_position s) (cu_read_batch_size (ca_settings s))] \<and>
    catchup_all_slice_read codec creds success (Some val) s =
      Some (Inr (appeared (aes_events val) @ [Register (sb_key s), Send_Package p], s1)) \<and>
    all_received codec parse v s1 =
      Some (Inr ([Catch_Up_All_Missed (ca_current_position s) (cu_read_batch_size (ca_settings s))], s2)) \<and>
    all_missed_slice_read codec (cu_read_batch_size (ca_settings s)) success (Some val') s2 =
      Some (Inr (appeared (aes_events val) @ appeared es @ [t], s3))"
proof -
  obtain p where p: "request_package Subscribe_To_Stream_Command creds (sb_key s) (to_bytes (ck_subscribe codec
         \<lparr>ss_event_stream_id = sb_stream s, ss_resolve_link_tos = cu_resolve_link_tos (ca_settings s)\<rparr>)) = Some p"
    using request_package_defined assms(2) by metis
  define s1 where "s1 = s\<lparr>sb_handle_guard := False\<rparr>"
  have read: "catchup_all_slice_read codec creds success (Some val) s =
      Some (Inr (appeared (aes_events val) @ [Register (sb_key s), Send_Package p], s1))"
    using assms(1) p by (simp add: catchup_all_slice_read_def catchup_all_do_async_start_def base_async_start_def s1_def)
  obtain s2 where s2: "all_received codec parse v s1 =
      Some (Inr ([Catch_Up_All_Missed (ca_current_position s) (cu_read_batch_size (ca_settings s))], s2))"
      "ca_position_to_catch_up_to s2 = Position l l"
    using assms(3-6) by (cases "sc_last_event_number (ck_confirmation codec m)")
      (auto simp: all_received_def subscription_received_def catchup_all_on_package_def
        catch_up_all_missed_events_def s1_def Let_def)
  note slice = is_before_slice [OF assms(8)]
  have "all_missed_slice_read codec (cu_read_batch_size (ca_settings s)) success (Some val') s2 =
      Some (Inr (appeared (aes_events val) @ appeared es @
        [Catch_Up_All_Missed (position_after (aes_events val') (ca_current_position s2)) (cu_read_batch_size (ca_settings s))],
        s2\<lparr>ca_current_position := position_after (aes_events val') (ca_current_position s2)\<rparr>))"
    using missed_slice_short [of val' s2] slice s2(2) by (simp add: assms(7))
  with read s2(1) show ?thesis
    by (auto simp: catchup_all_async_start_def)
qed

theorem catchup_all_repeats_last_slice_witness:
  "\<exists>p s1 s2 s3 t. catchup_all_slice_read sample_all_codec credentials_default success (Some ((slice_at [1, 5])\<lparr>aes_is_end_of_stream := True\<rparr>)) sample_all =
      Some (Inr ([Event_Appeared (event_at 1) None, Event_Appeared (event_at 5) None, Register (replicate 16 1), Send_Package p], s1)) \<and>
    all_received sample_all_codec (\<lambda>_. \<lparr>sd_reason = SD_NotFound\<rparr>)
      (frame_view (sample_frame_of Subscription_Confirmation_Command) 22) s1 = Some (Inr ([Catch_Up_All_Missed (Position 0 0) 10], s2)) \<and>
    all_missed_slice_read sample_all_codec 10 success (Some (slice_at [1, 5, 7])) s2 =
      Some (Inr ([Event_Appeared (event_at 1) None, Event_Appeared (event_at 5) None, Event_Appeared (event_at 7) None, t], s3))"
proof -
  have l: "sc_last_commit_position (ck_confirmation sample_all_codec []) = 9" "position_gt (Position 9 9) (Position 0 0)"
    by (simp_all add: sample_all_codec_def position_gt_def)
  show ?thesis
    using catchup_all_repeats_last_slice [where s = sample_all and val = "(slice_at [1, 5])\<lparr>aes_is_end_of_stream := True\<rparr>" and
        val' = "slice_at [1, 5, 7]" and es = "[event_at 7]" and creds = credentials_default and
        parse = "\<lambda>_. \<lparr>sd_reason = SD_NotFound\<rparr>", OF _ _ sample_frame_view [OF confirmation_named] l(1)] l(2)
    by (simp add: is_guid_def catchup_settings_default_def)
qed

text \<open>C28: a live event overtakes missed ones.  When an answer to a missed read passes the position to catch up to
  without an event at it, the reads go on, but the subscription no longer buffers: a live event is handed
  over at once, and the events of the next answer come after it.\<close>

theorem catchup_all_overtaken:
  assumes "positioned (aes_events val)" and "\<forall>x \<in> set (aes_events val). original_position x \<noteq> Some (ca_position_to_catch_up_to s)"
    and "\<not> position_gt (ca_position_to_catch_up_to s) (position_after (aes_events val) (ca_current_position s))"
    and "view_command v = Some Stream_Event_Appeared_Command" and "view_message v = Some m"
    and "mk_resolved_event (sea_event (ck_event codec m)) = Some (e, e')" and "original_position e = Some p"
    and "bq_inv 25 (ca_event_buffer s)" and "bq_items (ca_event_buffer s) = []" and "\<not> sb_handle_guard s"
    and "0 < cu_max_live_queue_size (ca_settings s)"
    and "positioned (aes_events val')" and "\<forall>x \<in> set (aes_events val'). original_position x \<noteq> Some (ca_position_to_catch_up_to s)"
  shows "\<exists>n n2 s1 s2 s3. all_missed_slice_read codec c success (Some val) s =
      Some (Inr (appeared (aes_events val) @ [Catch_Up_All_Missed n c], s1)) \<and>
    all_received codec parse v s1 = Some (Inr ([Event_Appeared e None], s2)) \<and>
    all_missed_slice_read codec c success (Some val') s2 =
      Some (Inr (appeared (aes_events val') @ [Catch_Up_All_Missed n2 c], s3))"
proof -
  define s1 where "s1 = s\<lparr>ca_current_position := position_after (aes_events val) (ca_current_position s)\<rparr>"
  have "all_missed_slice_read codec c success (Some val) s =
      Some (Inr (appeared (aes_events val) @ [Catch_Up_All_Missed (ca_current_position s1) c], s1))"
    using missed_slice_short [OF assms(1) before_position_all [OF assms(2)]] by (simp add: s1_def)
  moreover obtain q where q: "all_received codec parse v s1 =
      Some (Inr ([Event_Appeared e None], s1\<lparr>ca_current_position := p, ca_event_buffer := q\<rparr>))"
    using all_live_at_once [OF assms(4-7), of s1] assms(3,8-11) by (auto simp: s1_def)
  moreover have "before_position (ca_position_to_catch_up_to (s1\<lparr>ca_current_position := p, ca_event_buffer := q\<rparr>)) (aes_events val') =
      aes_events val'"
    using before_position_all [OF assms(13)] by (simp add: s1_def)
  note missed_slice_short [OF assms(12) this, of codec c]
  ultimately show ?thesis
    by blast
qed

theorem catchup_all_overtaken_witness:
  "\<exists>e n n2 s1 s2 s3. original_position e = Some (Position 12 12) \<and>
    all_missed_slice_read sample_all_codec 2 success (Some (slice_at [5, 12])) (sample_all\<lparr>ca_position_to_catch_up_to := Position 9 9\<rparr>) =
      Some (Inr ([Event_Appeared (event_at 5) None, Event_Appeared (event_at 12) None, Catch_Up_All_Missed n 2], s1)) \<and>
    all_received sample_all_codec (\<lambda>_. \<lparr>sd_reason = SD_NotFound\<rparr>) (frame_view (sample_frame_of Stream_Event_Appeared_Command) 22) s1 =
      Some (Inr ([Event_Appeared e None], s2)) \<and>
    all_missed_slice_read sample_all_codec 2 success (Some (slice_at [12, 13])) s2 =
      Some (Inr ([Event_Appeared (event_at 12) None, Event_Appeared (event_at 13) None, Catch_Up_All_Missed n2 2], s3))"
proof -
  obtain e e' where e: "mk_resolved_event (sea_event (ck_event sample_all_codec [])) = Some (e, e')"
      "original_position e = Some (Position 12 12)"
    using sample_all_event by blast
  show ?thesis
    using catchup_all_overtaken [where s = "sample_all\<lparr>ca_position_to_catch_up_to := Position 9 9\<rparr>" and val = "slice_at [5, 12]" and
        val' = "slice_at [12, 13]" and c = 2 and parse = "\<lambda>_. \<lparr>sd_reason = SD_NotFound\<rparr>",
        OF _ _ _ sample_frame_view [OF event_named] e] e(2)
    by (auto simp: positioned_def position_gt_def bq_inv_empty bq_items_bq_empty catchup_settings_default_def)
qed

end
