(* ===== verification/Catchup_Lives.thy ===== *)
theory Catchup_Lives
  imports Catchup_Subscriptions
begin

text \<open>
  The whole life of a catch-up subscription, from \<open>async_start\<close> to its end: beside the packages, the user and
  the pending drops of \<open>Subscription_Base\<close>, the handlers of its reads and its posted tasks run, in any order and with any
  outcome.  A read that fails ends the subscription without a look at the guard, so that each failed read may
  add a call of the user's dropped handler.  The lambdas that hold this handler are not \<open>mutable\<close>, so that
  \<open>std::move\<close> of it copies: the handler of the second call is as good as that of the first.

  The handlers of the reads after the confirmation, and the posted tasks, hold references into the registered
  package handler.  They run here while it is registered; afterwards their references dangle, and a run ends there.
\<close>

section \<open>Handlers\<close>

fun is_initial :: "sub_effect \<Rightarrow> bool" where
  "is_initial (Catch_Up_Stream _ _) = True"
| "is_initial (Catch_Up_All _ _) = True"
| "is_initial _ = False"

fun is_read :: "sub_effect \<Rightarrow> bool" where
  "is_read (Catch_Up_Stream _ _) = True"
| "is_read (Catch_Up_Missed _ _) = True"
| "is_read (Catch_Up_All _ _) = True"
| "is_read (Catch_Up_All_Missed _ _) = True"
| "is_read _ = False"

definition is_pending :: "sub_effect \<Rightarrow> bool" where
  "is_pending e \<longleftrightarrow> is_drop e \<or> is_task e"

text \<open>The handler of a read, with its outcome, and of a posted task.\<close>

fun stream_handler ::
  "catchup_codec \<Rightarrow> user_credentials \<Rightarrow> sub_effect \<Rightarrow> error_code \<Rightarrow> stream_events_slice option \<Rightarrow> catchup_subscription \<Rightarrow>
     (exn + sub_effect list \<times> catchup_subscription) option"
where
  "stream_handler codec creds (Catch_Up_Stream n c) ec r s = catchup_slice_read codec creds ec r s"
| "stream_handler codec creds (Catch_Up_Missed n c) ec r s = missed_slice_read codec c ec r s"
| "stream_handler codec creds Post_Read_Buffer ec r s = map_option Inr (read_subscription_events s)"
| "stream_handler codec creds _ ec r s = None"

fun all_handler ::
  "catchup_codec \<Rightarrow> user_credentials \<Rightarrow> sub_effect \<Rightarrow> error_code \<Rightarrow> all_events_slice option \<Rightarrow> catchup_all_subscription \<Rightarrow>
     (exn + sub_effect list \<times> catchup_all_subscription) option"
where
  "all_handler codec creds (Catch_Up_All p c) ec r s = catchup_all_slice_read codec creds ec r s"
| "all_handler codec creds (Catch_Up_All_Missed p c) ec r s = all_missed_slice_read codec c ec r s"
| "all_handler codec creds Post_Read_Buffer ec r s = read_all_subscription_events s"
| "all_handler codec creds _ ec r s = None"

section \<open>Runs\<close>

text \<open>The effects so far, the drops, reads and posted tasks that are pending, whether the package handler is
  registered, and the number of reads that have failed.\<close>

inductive reading_run ::
  "string \<Rightarrow> (bytes \<Rightarrow> subscription_dropped) \<Rightarrow> (('a subscription_base_scheme) \<Rightarrow> ('a subscription_base_scheme)) \<Rightarrow>
     (tcp_package_view \<Rightarrow> ('a subscription_base_scheme) \<Rightarrow>
        (exn + bool \<times> sub_effect list \<times> ('a subscription_base_scheme)) option) \<Rightarrow>
     (('a subscription_base_scheme) \<Rightarrow> sub_effect list \<times> ('a subscription_base_scheme)) \<Rightarrow>
     (sub_effect \<Rightarrow> error_code \<Rightarrow> 'r option \<Rightarrow> ('a subscription_base_scheme) \<Rightarrow>
        (exn + sub_effect list \<times> ('a subscription_base_scheme)) option) \<Rightarrow>
     sub_effect list \<Rightarrow> sub_effect list \<Rightarrow> bool \<Rightarrow> nat \<Rightarrow> ('a subscription_base_scheme) \<Rightarrow> bool"
  for ser parse shutdown on_package async_start handle
where
  start: "\<not> sb_handle_guard s \<Longrightarrow> async_start s = (es, s') \<Longrightarrow>
    reading_run ser parse shutdown on_package async_start handle es (filter is_pending es) False 0 s'"
| package: "reading_run ser parse shutdown on_package async_start handle log pending True n s \<Longrightarrow>
    subscription_received ser parse shutdown on_package ec v s = Some (Inr (es, s')) \<Longrightarrow>
    reading_run ser parse shutdown on_package async_start handle (log @ es) (pending @ filter is_pending es) True n s'"
| user: "reading_run ser parse shutdown on_package async_start handle log pending reg n s \<Longrightarrow>
    user_unsubscribe reg ser parse shutdown on_package s = Some (Inr (es, s')) \<Longrightarrow>
    reading_run ser parse shutdown on_package async_start handle (log @ es) (pending @ filter is_pending es) reg n s'"
| complete: "reading_run ser parse shutdown on_package async_start handle log (xs @ d # ys) reg n s \<Longrightarrow>
    complete_drop ser shutdown err d s = Some (es, s') \<Longrightarrow>
    reading_run ser parse shutdown on_package async_start handle (log @ es) (xs @ ys @ filter is_pending es)
      (reg \<and> Erase (sb_key s) \<notin> set es) n s'"
| task: "reading_run ser parse shutdown on_package async_start handle log (xs @ t # ys) reg n s \<Longrightarrow> is_task t \<Longrightarrow>
    reg \<or> is_initial t \<Longrightarrow> handle t ec r s = Some (Inr (es, s')) \<Longrightarrow>
    reading_run ser parse shutdown on_package async_start handle (log @ es) (xs @ ys @ filter is_pending es)
      (reg \<or> Register (sb_key s) \<in> set es) (if is_read t \<and> failed ec then Suc n else n) s'"

section \<open>The contract of a subscription that reads\<close>

locale reading_subscription = derived_subscription shutdown on_package
  for shutdown :: "('a subscription_base_scheme) \<Rightarrow> ('a subscription_base_scheme)" and on_package +
  fixes async_start :: "('a subscription_base_scheme) \<Rightarrow> sub_effect list \<times> ('a subscription_base_scheme)"
    and handle :: "sub_effect \<Rightarrow> error_code \<Rightarrow> 'r option \<Rightarrow> ('a subscription_base_scheme) \<Rightarrow>
        (exn + sub_effect list \<times> ('a subscription_base_scheme)) option"
  assumes starts: "async_start s = (es, s') \<Longrightarrow>
        \<exists>t. es = [t] \<and> is_initial t \<and> is_task t \<and> sb_handle_guard s' = sb_handle_guard s"
    and no_initial: "on_package v s = Some (Inr (h, es, s')) \<Longrightarrow> \<not> (\<exists>e \<in> set es. is_initial e)"
    and fails: "handle t ec r s = Some (Inr (es, s')) \<Longrightarrow> is_read t \<Longrightarrow> failed ec \<Longrightarrow>
        sb_handle_guard s' \<and> (\<exists>e. es = [e] \<and> is_drop e)"
    and reads_first: "handle t ec r s = Some (Inr (es, s')) \<Longrightarrow> is_initial t \<Longrightarrow> \<not> failed ec \<Longrightarrow>
        \<not> sb_handle_guard s \<Longrightarrow> \<not> sb_handle_guard s' \<and> drops es = 0 \<and> dropped_calls es = 0 \<and>
        (if Register (sb_key s) \<in> set es then \<not> (\<exists>e \<in> set es. is_initial e)
         else length (filter is_pending es) = 1)"
    and continues: "handle t ec r s = Some (Inr (es, s')) \<Longrightarrow> \<not> is_initial t \<Longrightarrow> \<not> (is_read t \<and> failed ec) \<Longrightarrow>
        sb_handle_guard s' = sb_handle_guard s \<and> drops es = 0 \<and> dropped_calls es = 0 \<and>
        \<not> (\<exists>e \<in> set es. is_initial e)"

section \<open>The invariant\<close>

text \<open>Once the guard is locked the end is pending or reported, at most once more than reads have failed; before,
  nothing has failed and nothing is pending but reads and tasks.  The read with which the subscription starts is the only
  thing pending, and then nothing is registered.\<close>

definition reading_inv ::
  "sub_effect list \<Rightarrow> sub_effect list \<Rightarrow> bool \<Rightarrow> nat \<Rightarrow> ('a subscription_base_scheme) \<Rightarrow> bool"
where
  "reading_inv log pending reg n s \<longleftrightarrow>
     (sb_handle_guard s \<longleftrightarrow> 0 < drops log) \<and>
     (if sb_handle_guard s then 1 \<le> drops pending + dropped_calls log \<and> drops pending + dropped_calls log \<le> Suc n
      else drops pending + dropped_calls log = 0 \<and> n = 0) \<and>
     ((\<exists>t \<in> set pending. is_initial t) \<longrightarrow> length pending = 1 \<and> \<not> reg \<and> \<not> sb_handle_guard s)"

lemma initial_not_drop: "is_initial e \<Longrightarrow> \<not> is_drop e" "is_drop e \<Longrightarrow> \<not> is_dropped e \<and> is_pending e \<and> \<not> is_initial e"
  by (cases e; simp add: is_pending_def)+

lemma drops_pending [simp]: "drops (filter is_pending es) = drops es"
  by (induction es) (auto simp: is_pending_def)

lemma dropped_calls_Cons: "dropped_calls (e # es) = (if is_dropped e then Suc (dropped_calls es) else dropped_calls es)"
  by (simp add: dropped_calls_def)

context reading_subscription
begin

lemma received_no_initial:
  assumes "subscription_received ser parse shutdown on_package ec v s = Some (Inr (es, s'))"
  shows "\<not> (\<exists>e \<in> set es. is_initial e)"
proof -
  have unsubscribed: "\<not> (\<exists>e \<in> set es. is_initial e)" if "unsubscribe ser shutdown ec s = Some (es, s')" for ec s es s'
    using unsubscribe_locks [OF that] initial_not_drop by auto
  have base: "\<not> (\<exists>e \<in> set es. is_initial e)" if "base_package ser parse shutdown v s = Some (es, s')" for s es s'
    using that
    by (auto simp: base_package_def dest: unsubscribed split: if_splits option.splits Option.bind_splits)
  show ?thesis
  proof (cases "sb_handle_guard s \<or> failed ec")
    case True
    then show ?thesis
      using assms by (auto simp: subscription_received_def dest: unsubscribed split: if_splits)
  next
    case False
    then obtain h es1 s1 where p: "on_package v s = Some (Inr (h, es1, s1))"
        "es = es1 \<or> (\<exists>es2. es = es1 @ es2 \<and> base_package ser parse shutdown v s1 = Some (es2, s'))"
      using assms by (auto simp: subscription_received_def split: Option.bind_splits sum.splits if_splits)
    then show ?thesis
      using no_initial [OF p(1)] base by auto
  qed
qed

lemma received_step:
  assumes "reading_inv log pending True n s"
    and "subscription_received ser parse shutdown on_package ec v s = Some (Inr (es, s'))"
  shows "reading_inv (log @ es) (pending @ filter is_pending es) True n s'"
proof (cases "sb_handle_guard s")
  case True
  then show ?thesis
    using assms received_guarded [OF True, of ser parse ec v] by simp
next
  case False
  then show ?thesis
    using assms(1) received_locks [OF assms(2) False] received_no_initial [OF assms(2)] dropped_calls_none [of es]
    by (auto simp: reading_inv_def)
qed

lemma complete_step:
  assumes "reading_inv log (xs @ d # ys) reg n s" and "complete_drop ser shutdown err d s = Some (es, s')"
  shows "reading_inv (log @ es) (xs @ ys @ filter is_pending es) (reg \<and> Erase (sb_key s) \<notin> set es) n s'"
proof -
  have d: "is_drop d"
    using assms(2) by (cases d) auto
  with assms(1) have g: "sb_handle_guard s" and i: "\<not> (\<exists>t \<in> set (xs @ d # ys). is_initial t)"
    unfolding reading_inv_def by (auto split: if_splits)
  have "\<not> (\<exists>e \<in> set es. is_initial e)"
    using assms(2) initial_not_drop
    by (cases d) (auto simp: unsubscribe_answered_def drop_task_def dest!: unsubscribe_locks split: if_splits)
  with complete_drop_cases [OF assms(2) g] assms(1) d g i show ?thesis
    by (auto simp: reading_inv_def)
qed

lemma task_step:
  assumes "reading_inv log (xs @ t # ys) reg n s" and "is_task t" and "reg \<or> is_initial t"
    and "handle t ec r s = Some (Inr (es, s'))"
  shows "reading_inv (log @ es) (xs @ ys @ filter is_pending es) (reg \<or> Register (sb_key s) \<in> set es)
    (if is_read t \<and> failed ec then Suc n else n) s'"
proof -
  have t: "\<not> is_drop t"
    using assms(2) by (cases t) auto
  show ?thesis
  proof (cases "is_read t \<and> failed ec")
    case True
    then obtain e where "es = [e]" "is_drop e" "sb_handle_guard s'"
      using fails [OF assms(4)] by blast
    with True assms(1,3) t initial_not_drop(2) [of e] show ?thesis
      by (auto simp: reading_inv_def dropped_calls_def split: if_splits)
  next
    case ok: False
    show ?thesis
    proof (cases "is_initial t")
      case True
      then have "xs = []" "ys = []" "\<not> reg" and g: "\<not> sb_handle_guard s"
        using assms(1) by (auto simp: reading_inv_def)
      moreover have "\<not> failed ec"
        using ok True by (cases t) auto
      ultimately show ?thesis
        using reads_first [OF assms(4) True _ g] assms(1) ok by (auto simp: reading_inv_def split: if_splits)
    next
      case False
      with assms(1,3) have none: "\<not> (\<exists>t \<in> set (xs @ ys). is_initial t)"
        by (auto simp: reading_inv_def)
      note C = continues [OF assms(4) False ok]
      have initial: "\<not> (\<exists>t \<in> set (xs @ ys @ filter is_pending es). is_initial t)"
        using none C by auto
      have "drops (xs @ t # ys) = drops xs + drops ys"
        by (simp add: t)
      note I = conjunct1 [OF assms(1) [unfolded reading_inv_def]]
        conjunct1 [OF conjunct2 [OF assms(1) [unfolded reading_inv_def]], unfolded this]
      have "sb_handle_guard s \<longleftrightarrow> 0 < drops log"
          "if sb_handle_guard s then 1 \<le> drops xs + drops ys + dropped_calls log \<and> drops xs + drops ys + dropped_calls log \<le> Suc n
           else drops xs + drops ys + dropped_calls log = 0 \<and> n = 0"
        using I by simp_all
      then show ?thesis
        using C initial unfolding reading_inv_def if_not_P [OF ok] by (simp only: drops_simps drops_pending dropped_calls_simps) (simp split: if_splits)
    qed
  qed
qed

lemma reading_run_inv:
  "reading_run ser parse shutdown on_package async_start handle log pending reg n s \<Longrightarrow> reading_inv log pending reg n s"
proof (induction rule: reading_run.induct)
  case (start s es s')
  from starts [OF start(2)] start(1) initial_not_drop show ?case
    by (auto simp: reading_inv_def is_pending_def dropped_calls_def) (metis is_dropped.elims(2) is_initial.simps(9))
next
  case (package log pending n s ec v es s')
  then show ?case
    by (intro received_step)
next
  case (user log pending reg n s es s')
  then have reg
    by (cases reg) (simp_all add: user_unsubscribe_def)
  with user show ?case
    by (auto simp: user_unsubscribe_def intro: received_step)
next
  case (complete log xs d ys reg n s err es s')
  then show ?case
    by (intro complete_step)
next
  case (task log xs t ys reg n s ec r es s')
  then show ?case
    by (intro task_step)
qed

text \<open>What the user is told, and what packages do after the end began.\<close>

lemma reading_run_ends:
  assumes "reading_run ser parse shutdown on_package async_start handle log pending reg n s"
  shows "dropped_calls log \<le> 1 + n"
    and "0 < drops log \<Longrightarrow> 1 \<le> dropped_calls log + drops pending \<and>
      subscription_received ser parse shutdown on_package ec v s = Some (Inr ([], s))"
  using reading_run_inv [OF assms] received_guarded [of s ser parse ec v]
  by (auto simp: reading_inv_def split: if_splits)

end

section \<open>Both catch-up subscriptions\<close>

lemma initial_effects [simp]:
  "\<not> (\<exists>e \<in> set (appeared es). is_initial e)" "drops (appeared es) = 0" "dropped_calls (appeared es) = 0"
  "filter is_pending (appeared es) = []" "Register k \<notin> set (appeared es)"
  by (induction es) (auto simp: dropped_calls_def is_pending_def)

lemma quiet_reads:
  assumes "\<forall>e \<in> set es. is_event e \<or> e = Post_Read_Buffer"
  shows "drops es = 0 \<and> dropped_calls es = 0 \<and> \<not> (\<exists>e \<in> set es. is_initial e)"
proof -
  have "\<not> is_initial e" if "is_event e \<or> e = Post_Read_Buffer" for e
    using that by (cases e) auto
  with assms quiet_effects [OF assms] show ?thesis
    using dropped_calls_none by blast
qed

lemma read_subscription_events_quiet:
  "read_subscription_events s = Some (es, s') \<Longrightarrow>
     sb_handle_guard s' = sb_handle_guard s \<and> (\<forall>e \<in> set es. is_event e \<or> e = Post_Read_Buffer)"
  by (auto simp: read_subscription_events_def dest!: drain_buffer_effects split: if_splits Option.bind_splits)

lemma read_all_subscription_events_quiet:
  "read_all_subscription_events s = Some (Inr (es, s')) \<Longrightarrow>
     sb_handle_guard s' = sb_handle_guard s \<and> (\<forall>e \<in> set es. is_event e \<or> e = Post_Read_Buffer)"
  by (auto simp: read_all_subscription_events_def dest!: drain_all_buffer_effects
      split: if_splits Option.bind_splits sum.splits)

lemma unsubscribe_ends:
  "unsubscribe ser catchup_shutdown ec s = Some (es, s') \<Longrightarrow> sb_handle_guard s' \<and> (\<exists>e. es = [e] \<and> is_drop e)"
  "unsubscribe ser catchup_all_shutdown ec a = Some (es, a') \<Longrightarrow> sb_handle_guard a' \<and> (\<exists>e. es = [e] \<and> is_drop e)"
  using catchup_sub.unsubscribe_locks catchup_all_sub.unsubscribe_locks by blast+

lemma stream_starts:
  "catchup_do_async_start codec creds s = Some (es, s') \<Longrightarrow>
     \<not> sb_handle_guard s' \<and> (\<exists>p. es = [Register (sb_key s), Send_Package p])"
  "catchup_all_do_async_start codec creds a = Some (es, a') \<Longrightarrow>
     \<not> sb_handle_guard a' \<and> (\<exists>p. es = [Register (sb_key a), Send_Package p])"
  by (auto simp: catchup_do_async_start_def catchup_all_do_async_start_def base_async_start_def Let_def
      split: Option.bind_splits)

text \<open>The loop over missed events of the \<open>all\<close> stream hands over events and moves the position.\<close>

lemma deliver_missed_effects:
  "deliver_missed es a = Inr (c, fs, a') \<Longrightarrow>
     sb_handle_guard a' = sb_handle_guard a \<and> (\<forall>e \<in> set fs. is_event e \<or> e = Post_Read_Buffer)"
  by (induction es arbitrary: a c fs a')
     (auto simp: Let_def split: option.splits if_splits sum.splits, fastforce+)

lemma package_no_initial:
  "catchup_on_package codec v s = Some (Inr (h, es, s')) \<Longrightarrow> \<not> (\<exists>e \<in> set es. is_initial e)"
  "catchup_all_on_package codec v a = Some (Inr (h, es, a')) \<Longrightarrow> \<not> (\<exists>e \<in> set es. is_initial e)"
proof -
  assume "catchup_on_package codec v s = Some (Inr (h, es, s'))"
  then show "\<not> (\<exists>e \<in> set es. is_initial e)"
    using initial_not_drop(2) quiet_reads [of es]
    by (auto simp: catchup_on_package_def Let_def catch_up_missed_events_def
        split: if_splits Option.bind_splits option.splits dest!: unsubscribe_ends(1) read_subscription_events_quiet)
next
  assume "catchup_all_on_package codec v a = Some (Inr (h, es, a'))"
  then show "\<not> (\<exists>e \<in> set es. is_initial e)"
    using quiet_reads [of es]
    by (auto simp: catchup_all_on_package_def Let_def catch_up_all_missed_events_def
        split: if_splits Option.bind_splits option.splits dest!: read_all_subscription_events_quiet)
qed

lemma continued_reads:
  assumes "\<forall>e \<in> set es. is_event e \<or> e = Post_Read_Buffer"
  shows "drops (es @ [Catch_Up_Missed n c]) = 0 \<and> dropped_calls (es @ [Catch_Up_Missed n c]) = 0 \<and>
      \<not> (\<exists>e \<in> set (es @ [Catch_Up_Missed n c]). is_initial e)"
    and "drops (es @ [Catch_Up_All_Missed p c]) = 0 \<and> dropped_calls (es @ [Catch_Up_All_Missed p c]) = 0 \<and>
      \<not> (\<exists>e \<in> set (es @ [Catch_Up_All_Missed p c]). is_initial e)"
  using quiet_reads [OF assms] by (auto simp: dropped_calls_def)

interpretation stream_reads:
  reading_subscription catchup_shutdown "catchup_on_package codec" catchup_async_start "stream_handler codec creds"
  for codec creds
proof unfold_locales
  fix s es s'
  assume "catchup_async_start s = (es, s')"
  then show "\<exists>t. es = [t] \<and> is_initial t \<and> is_task t \<and> sb_handle_guard s' = sb_handle_guard s"
    by (auto simp: catchup_async_start_def)
next
  fix v s h es s'
  assume "catchup_on_package codec v s = Some (Inr (h, es, s'))"
  then show "\<not> (\<exists>e \<in> set es. is_initial e)"
    by (rule package_no_initial)
next
  fix t ec r s es s'
  assume "stream_handler codec creds t ec r s = Some (Inr (es, s'))" and "is_read t" and "failed ec"
  then show "sb_handle_guard s' \<and> (\<exists>e. es = [e] \<and> is_drop e)"
    by (cases t) (auto simp: catchup_slice_read_def missed_slice_read_def dest: unsubscribe_ends(1))
next
  fix t ec r s es s'
  assume a: "stream_handler codec creds t ec r s = Some (Inr (es, s'))" "is_initial t" "\<not> failed ec" "\<not> sb_handle_guard s"
  then obtain val where r: "r = Some val" and read: "catchup_slice_read codec creds ec (Some val) s = Some (Inr (es, s'))"
    by (cases t; cases r) (auto simp: catchup_slice_read_def)
  show "\<not> sb_handle_guard s' \<and> drops es = 0 \<and> dropped_calls es = 0 \<and>
      (if Register (sb_key s) \<in> set es then \<not> (\<exists>e \<in> set es. is_initial e) else length (filter is_pending es) = 1)"
  proof (cases "ses_is_end_of_stream val")
    case True
    then show ?thesis
      using read a(3) by (auto simp: catchup_slice_read_def deliver_slice_eq dropped_calls_def dest!: stream_starts(1))
  next
    case False
    then show ?thesis
      using read a(3,4)
      by (auto simp: catchup_slice_read_def deliver_slice_eq catchup_async_start_def dropped_calls_def is_pending_def)
  qed
next
  fix t ec r s es s'
  assume a: "stream_handler codec creds t ec r s = Some (Inr (es, s'))" "\<not> is_initial t" "\<not> (is_read t \<and> failed ec)"
  then consider (read) c val where "missed_slice_read codec c ec (Some val) s = Some (Inr (es, s'))" "\<not> failed ec"
    | (posted) "read_subscription_events s = Some (es, s')"
    by (cases t; cases r) (auto simp: missed_slice_read_def)
  then show "sb_handle_guard s' = sb_handle_guard s \<and> drops es = 0 \<and> dropped_calls es = 0 \<and> \<not> (\<exists>e \<in> set es. is_initial e)"
  proof cases
    case (read c val)
    then show ?thesis
      by (auto simp: missed_slice_read_def deliver_slice_eq catch_up_missed_events_def Let_def dropped_calls_def split: if_splits)
  next
    case posted
    with read_subscription_events_quiet [OF posted] quiet_reads [of es] show ?thesis
      by blast
  qed
qed

interpretation all_reads:
  reading_subscription catchup_all_shutdown "catchup_all_on_package codec" catchup_all_async_start "all_handler codec creds"
  for codec creds
proof unfold_locales
  fix s es s'
  assume "catchup_all_async_start s = (es, s')"
  then show "\<exists>t. es = [t] \<and> is_initial t \<and> is_task t \<and> sb_handle_guard s' = sb_handle_guard s"
    by (auto simp: catchup_all_async_start_def)
next
  fix v s h es s'
  assume "catchup_all_on_package codec v s = Some (Inr (h, es, s'))"
  then show "\<not> (\<exists>e \<in> set es. is_initial e)"
    by (rule package_no_initial)
next
  fix t ec r s es s'
  assume "all_handler codec creds t ec r s = Some (Inr (es, s'))" and "is_read t" and "failed ec"
  then show "sb_handle_guard s' \<and> (\<exists>e. es = [e] \<and> is_drop e)"
    by (cases t) (auto simp: catchup_all_slice_read_def all_missed_slice_read_def dest: unsubscribe_ends(2))
next
  fix t ec r s es s'
  assume a: "all_handler codec creds t ec r s = Some (Inr (es, s'))" "is_initial t" "\<not> failed ec" "\<not> sb_handle_guard s"
  then obtain val where r: "r = Some val" and read: "catchup_all_slice_read codec creds ec (Some val) s = Some (Inr (es, s'))"
    by (cases t; cases r) (auto simp: catchup_all_slice_read_def)
  show "\<not> sb_handle_guard s' \<and> drops es = 0 \<and> dropped_calls es = 0 \<and>
      (if Register (sb_key s) \<in> set es then \<not> (\<exists>e \<in> set es. is_initial e) else length (filter is_pending es) = 1)"
  proof (cases "aes_is_end_of_stream val")
    case True
    then show ?thesis
      using read a(3) by (auto simp: catchup_all_slice_read_def Let_def dropped_calls_def dest!: stream_starts(2))
  next
    case False
    then show ?thesis
      using read a(3,4)
      by (auto simp: catchup_all_slice_read_def Let_def catchup_all_async_start_def dropped_calls_def is_pending_def)
  qed
next
  fix t ec r s es s'
  assume a: "all_handler codec creds t ec r s = Some (Inr (es, s'))" "\<not> is_initial t" "\<not> (is_read t \<and> failed ec)"
  then consider (read) c val where "all_missed_slice_read codec c ec (Some val) s = Some (Inr (es, s'))" "\<not> failed ec"
    | (posted) "read_all_subscription_events s = Some (Inr (es, s'))"
    by (cases t; cases r) (auto simp: all_missed_slice_read_def)
  then show "sb_handle_guard s' = sb_handle_guard s \<and> drops es = 0 \<and> dropped_calls es = 0 \<and> \<not> (\<exists>e \<in> set es. is_initial e)"
  proof cases
    case (read c val)
    then obtain continue fs s1 where d: "deliver_missed (aes_events val) s = Inr (continue, fs, s1)"
      by (cases "deliver_missed (aes_events val) s") (auto simp: all_missed_slice_read_def)
    note D = deliver_missed_effects [OF d]
    show ?thesis
    proof (cases continue)
      case True
      then show ?thesis
        using read d D continued_reads(2) [of fs "ca_current_position s1" c]
        by (auto simp: all_missed_slice_read_def catch_up_all_missed_events_def)
    next
      case False
      obtain x where x: "read_all_subscription_events s1 = Some x"
        using read d False by (cases "read_all_subscription_events s1") (auto simp: all_missed_slice_read_def)
      then obtain gs where gs: "read_all_subscription_events s1 = Some (Inr (gs, s'))" "es = fs @ gs"
        using read d False by (cases x) (auto simp: all_missed_slice_read_def)
      with read_all_subscription_events_quiet [OF gs(1)] D quiet_reads [of es] show ?thesis
        by auto
    qed
  next
    case posted
    with read_all_subscription_events_quiet [OF posted] quiet_reads [of es] show ?thesis
      by blast
  qed
qed

section \<open>A read that fails after the end\<close>

text \<open>The end is caused, by the user or by an error; a read that is still out fails; then both drops complete.\<close>

lemma reads_report_again:
  assumes run: "reading_run ser parse catchup_shutdown (catchup_on_package codec) catchup_async_start
      (stream_handler codec creds) log (xs @ Catch_Up_Missed k c # ys) True n s"
    and g: "\<not> sb_handle_guard s" and ec: "failed ec" and u: "unsubscribe ser catchup_shutdown ec s = Some (es, s1)"
    and err: "failed err" "err \<noteq> subscription_error Unsubscribed"
  shows "\<exists>log' pending' s'. reading_run ser parse catchup_shutdown (catchup_on_package codec) catchup_async_start
      (stream_handler codec creds) (log @ log') pending' False (Suc n) s' \<and>
    filter is_dropped log' = [Dropped ec, Dropped err]"
proof -
  let ?run = "reading_run ser parse catchup_shutdown (catchup_on_package codec) catchup_async_start (stream_handler codec creds)"
  obtain d where d: "es = [d]" "is_drop d" and key: "sb_key s1 = sb_key s"
    and answered: "\<And>s2. complete_drop ser catchup_shutdown success d s2 = Some ([Erase (sb_key s2), Dropped ec], s2)"
    using u by (auto simp: unsubscribe_def unsubscribe_answered_def drop_task_def Let_def split: if_splits Option.bind_splits)
  have "subscription_received ser parse catchup_shutdown (catchup_on_package codec) ec null_view s = Some (Inr (es, s1))"
    using g ec u by (simp add: subscription_received_def)
  from reading_run.package [OF run this] have 1: "?run (log @ [d]) (xs @ Catch_Up_Missed k c # (ys @ [d])) True n s1"
    by (simp add: d is_pending_def)
  define s2 where "s2 = catchup_shutdown (s1\<lparr>sb_subscribed := False, sb_handle_guard := True\<rparr>)"
  have h: "stream_handler codec creds (Catch_Up_Missed k c) err None s1 = Some (Inr ([Post_Drop err], s2))"
    using err by (simp add: missed_slice_read_def unsubscribe_def s2_def)
  have 2: "?run (log @ [d] @ [Post_Drop err]) ((xs @ ys) @ d # [Post_Drop err]) True (Suc n) s2"
    using reading_run.task [OF 1 _ _ h] err(1) by (simp add: is_pending_def)
  have 3: "?run (log @ [d, Post_Drop err, Erase (sb_key s2), Dropped ec]) ((xs @ ys) @ Post_Drop err # []) False (Suc n) s2"
    using reading_run.complete [OF 2 answered] by (simp add: is_pending_def)
  have "complete_drop ser catchup_shutdown success (Post_Drop err) s2 = Some ([Erase (sb_key s2), Dropped err], s2)"
    by (simp add: drop_task_def)
  from reading_run.complete [OF 3 this] have
    "?run (log @ [d, Post_Drop err, Erase (sb_key s2), Dropped ec, Erase (sb_key s2), Dropped err]) (xs @ ys) False (Suc n) s2"
    by (simp add: is_pending_def)
  moreover have "filter is_dropped [d, Post_Drop err, Erase (sb_key s2), Dropped ec, Erase (sb_key s2), Dropped err] =
      [Dropped ec, Dropped err]"
    using initial_not_drop(2) [OF d(2)] by simp
  ultimately show ?thesis
    by blast
qed

section \<open>Properties\<close>

text \<open>C26: reads go on after the end.  Once a catch-up subscription has been ended, packages no longer have an
  effect, but the handler of a read that is still out does not look at the guard: its events are still handed
  over and it reads on.  And if that read fails, the drop is caused a second time: whenever a subscription that
  lives has a missed read out, and is then ended by its user (the code is \<open>unsubscribed\<close>) or by an error, the run
  can go on so that the user's dropped handler is called twice, with the code of the end and with that of the read.\<close>

theorem catchup_reads_ignore_the_guard:
  assumes "unsubscribe ser catchup_shutdown ec s = Some (es, s1)"
  shows "subscription_received ser parse catchup_shutdown (catchup_on_package codec) ec' v s1 = Some (Inr ([], s1)) \<and>
    (\<exists>s2. missed_slice_read codec c success (Some val) s1 =
      Some (Inr (appeared (ses_events val) @ (if int (length (ses_events val)) < c
          then [Catch_Up_Missed (cg_current_event_number s1 + int (length (ses_events val))) (c - int (length (ses_events val)))]
          else [Post_Read_Buffer]), s2))) \<and>
    (reading_run ser parse catchup_shutdown (catchup_on_package codec) catchup_async_start (stream_handler codec creds)
        log (xs @ Catch_Up_Missed k c # ys) True n s \<and>
      \<not> sb_handle_guard s \<and> failed ec \<and> failed err \<and> err \<noteq> subscription_error Unsubscribed \<longrightarrow>
      (\<exists>log' pending' s'.
        reading_run ser parse catchup_shutdown (catchup_on_package codec) catchup_async_start (stream_handler codec creds)
          (log @ log') pending' False (Suc n) s' \<and>
        filter is_dropped log' = [Dropped ec, Dropped err]))"
proof -
  have "sb_handle_guard s1"
    using catchup_unsubscribe [OF assms] by simp
  then show ?thesis
    using reads_report_again [OF _ _ _ assms]
    by (auto simp: missed_slice_read_def deliver_slice_eq catch_up_missed_events_def Let_def
        intro: catchup_sub.received_guarded)
qed

text \<open>A subscription with a missed read out: an empty first slice, and the confirmation.\<close>

definition sample_new_catchup :: catchup_subscription where
  "sample_new_catchup = mk_catchup_subscription (replicate 16 1) ''s'' 0 catchup_settings_default"

lemma sample_reading_run:
  "\<exists>log s. reading_run [] parse catchup_shutdown (catchup_on_package (sample_catchup_codec 3)) catchup_async_start
      (stream_handler (sample_catchup_codec 3) credentials_default) log ([] @ Catch_Up_Missed 0 3 # []) True 0 s \<and>
    \<not> sb_handle_guard s \<and> sb_key s = replicate 16 1 \<and> dropped_calls log = 0"
proof -
  let ?run = "reading_run [] parse catchup_shutdown (catchup_on_package (sample_catchup_codec 3)) catchup_async_start
      (stream_handler (sample_catchup_codec 3) credentials_default)"
  let ?s0 = sample_new_catchup and ?n = "cu_read_batch_size catchup_settings_default"
  have f: "\<not> sb_handle_guard ?s0" "cg_current_event_number ?s0 = 0" "cg_settings ?s0 = catchup_settings_default"
      "sb_key ?s0 = replicate 16 1"
    by (simp_all add: sample_new_catchup_def mk_catchup_subscription_def subscription_base.defs
        catchup_subscription.defs mk_subscription_base_def)
  have "catchup_async_start ?s0 = ([Catch_Up_Stream 0 ?n], ?s0)"
    using f by (simp add: catchup_async_start_def)
  from reading_run.start [OF f(1), of catchup_async_start, OF this] have
    1: "?run [Catch_Up_Stream 0 ?n] ([] @ Catch_Up_Stream 0 ?n # []) False 0 ?s0"
    by (simp add: is_pending_def)
  have "is_guid (replicate 16 (1 :: byte))"
    by (simp add: is_guid_def)
  then obtain p where p: "request_package Subscribe_To_Stream_Command credentials_default (sb_key ?s0) (to_bytes
      (ck_subscribe (sample_catchup_codec 3) \<lparr>ss_event_stream_id = sb_stream ?s0,
        ss_resolve_link_tos = cu_resolve_link_tos (cg_settings ?s0)\<rparr>)) = Some p"
    using request_package_defined f(4) by metis
  define s1 where "s1 = ?s0\<lparr>sb_handle_guard := False\<rparr>"
  have "stream_handler (sample_catchup_codec 3) credentials_default (Catch_Up_Stream 0 ?n) success
      (Some (server_of [] 0 10)) ?s0 = Some (Inr ([Register (replicate 16 1), Send_Package p], s1))"
    using p f(4) by (simp add: catchup_slice_read_def catchup_do_async_start_def base_async_start_def server_of_def s1_def)
  from reading_run.task [OF 1 _ _ this] have
    2: "?run [Catch_Up_Stream 0 ?n, Register (replicate 16 1), Send_Package p] [] True 0 s1"
    using f(4) by (simp add: is_pending_def)
  define s2 where "s2 = s1\<lparr>sb_last_commit_position := Some 0, sb_subscribed := True, sb_last_event_number := Some 3\<rparr>"
  have s1: "\<not> sb_handle_guard s1" "cg_current_event_number s1 = 0" "sb_key s1 = replicate 16 1"
    using f by (simp_all add: s1_def)
  have "subscription_received [] parse catchup_shutdown (catchup_on_package (sample_catchup_codec 3)) success
      (frame_view (sample_frame_of Subscription_Confirmation_Command) 22) s1 = Some (Inr ([Catch_Up_Missed 0 3], s2))"
    using sample_frame_view [OF confirmation_named] s1
    by (simp add: subscription_received_def catchup_on_package_def catch_up_missed_events_def s2_def sample_catchup_codec_def)
  from reading_run.package [OF 2 this] have
    "?run ([Catch_Up_Stream 0 ?n, Register (replicate 16 1), Send_Package p] @ [Catch_Up_Missed 0 3])
      ([] @ Catch_Up_Missed 0 3 # []) True 0 s2"
    by (simp add: is_pending_def)
  moreover have "\<not> sb_handle_guard s2" "sb_key s2 = replicate 16 1"
    using s1 by (simp_all add: s2_def)
  ultimately show ?thesis
    by (intro exI [of _ "[Catch_Up_Stream 0 ?n, Register (replicate 16 1), Send_Package p] @ [Catch_Up_Missed 0 3]"] exI [of _ s2])
      (simp add: dropped_calls_def)
qed

theorem catchup_reads_ignore_the_guard_witness:
  "\<exists>log pending s. reading_run [] (\<lambda>_. \<lparr>sd_reason = SD_NotFound\<rparr>) catchup_shutdown
      (catchup_on_package (sample_catchup_codec 3)) catchup_async_start
      (stream_handler (sample_catchup_codec 3) credentials_default) log pending False 1 s \<and>
    filter is_dropped log = [Dropped (subscription_error Unsubscribed), Dropped (connection_error Operation_Timeout)]"
proof -
  let ?parse = "\<lambda>_. \<lparr>sd_reason = SD_NotFound\<rparr>"
  obtain log s where run: "reading_run [] ?parse catchup_shutdown (catchup_on_package (sample_catchup_codec 3)) catchup_async_start
      (stream_handler (sample_catchup_codec 3) credentials_default) log ([] @ Catch_Up_Missed 0 3 # []) True 0 s"
    and s: "\<not> sb_handle_guard s" "sb_key s = replicate 16 1" "dropped_calls log = 0"
    using sample_reading_run by blast
  obtain es s1 where u: "unsubscribe [] catchup_shutdown (subscription_error Unsubscribed) s = Some (es, s1)"
    using s(2) by (auto simp: unsubscribe_def unauthenticated_package_frame is_guid_def flags_none_def)
  have "failed (subscription_error Unsubscribed)" "failed (connection_error Operation_Timeout)"
      "connection_error Operation_Timeout \<noteq> subscription_error Unsubscribed"
    by simp_all
  with catchup_reads_ignore_the_guard [OF u, of ?parse "sample_catchup_codec 3"] run s(1) obtain log' pending' s' where
    "reading_run [] ?parse catchup_shutdown (catchup_on_package (sample_catchup_codec 3)) catchup_async_start
      (stream_handler (sample_catchup_codec 3) credentials_default) (log @ log') pending' False (Suc 0) s'"
    "filter is_dropped log' = [Dropped (subscription_error Unsubscribed), Dropped (connection_error Operation_Timeout)]"
    by blast
  moreover have "filter is_dropped log = []"
    using s(3) by (simp add: dropped_calls_def)
  ultimately show ?thesis
    by (intro exI [of _ "log @ log'"] exI [of _ pending'] exI [of _ s']) simp
qed

end
