(* ===== verification/Logging.thy ===== *)
theory Logging
  imports Es_Values Es_Error
begin

text \<open>
  The logger of the client, \<open>logger.hpp\<close>: a wrapper of two loggers of the spdlog library, one it creates
  with a level of its own, and spdlog's default logger behind the \<open>_SYNC\<close> macros.  What reaches the output is
  kept as a list of entries: the level, the format string and the arguments, which fmt renders.

  Of spdlog the model uses what its documentation says: a logger has a level, initially \<open>info\<close>, and drops an
  entry whose level is below it; creating a logger throws when its name is taken.
\<close>

section \<open>Levels\<close>

datatype log_level = L_Trace | L_Debug | L_Info | L_Warn | L_Error | L_Critical | L_Off

datatype spdlog_level = Spd_Trace | Spd_Debug | Spd_Info | Spd_Warn | Spd_Err | Spd_Critical | Spd_Off

fun spdlog_rank :: "spdlog_level \<Rightarrow> nat" where
  "spdlog_rank Spd_Trace = 0"
| "spdlog_rank Spd_Debug = 1"
| "spdlog_rank Spd_Info = 2"
| "spdlog_rank Spd_Warn = 3"
| "spdlog_rank Spd_Err = 4"
| "spdlog_rank Spd_Critical = 5"
| "spdlog_rank Spd_Off = 6"

lemma spdlog_rank_inj: "spdlog_rank a = spdlog_rank b \<Longrightarrow> a = b"
  by (cases a; cases b) simp_all

text \<open>The levels are ordered by severity.\<close>

instantiation spdlog_level :: linorder
begin

definition less_eq_spdlog_level :: "spdlog_level \<Rightarrow> spdlog_level \<Rightarrow> bool" where
  "less_eq_spdlog_level a b \<longleftrightarrow> spdlog_rank a \<le> spdlog_rank b"

definition less_spdlog_level :: "spdlog_level \<Rightarrow> spdlog_level \<Rightarrow> bool" where
  "less_spdlog_level a b \<longleftrightarrow> spdlog_rank a < spdlog_rank b"

instance
  by standard (auto simp: less_eq_spdlog_level_def less_spdlog_level_def intro: spdlog_rank_inj)

end

section \<open>The logger\<close>

datatype log_arg = Text string | Number int | Flag bool | Id guid | Message error_code

type_synonym log_entry = "spdlog_level \<times> string \<times> log_arg list"

text \<open>\<open>stdout_logger_\<close> is null after a failed construction; then every use of it dereferences a null pointer.\<close>

record logger =
  stdout_level :: "spdlog_level option"
  stdout_entries :: "log_entry list"
  default_level :: spdlog_level
  default_entries :: "log_entry list"

text \<open>The constructor; \<open>opened\<close> says whether \<open>create_async\<close> returned a logger.\<close>

definition mk_logger :: "bool \<Rightarrow> logger" where
  "mk_logger opened = \<lparr>stdout_level = (if opened then Some Spd_Err else None), stdout_entries = [],
     default_level = Spd_Info, default_entries = []\<rparr>"

fun level_of_spdlog :: "spdlog_level \<Rightarrow> log_level" where
  "level_of_spdlog Spd_Trace = L_Trace"
| "level_of_spdlog Spd_Debug = L_Debug"
| "level_of_spdlog Spd_Info = L_Info"
| "level_of_spdlog Spd_Warn = L_Warn"
| "level_of_spdlog Spd_Err = L_Error"
| "level_of_spdlog Spd_Critical = L_Critical"
| "level_of_spdlog Spd_Off = L_Off"

definition get_level :: "logger \<Rightarrow> log_level option" where
  "get_level g = map_option level_of_spdlog (stdout_level g)"

definition stdout_set_level :: "spdlog_level \<Rightarrow> logger \<Rightarrow> logger option" where
  "stdout_set_level l g = do { _ \<leftarrow> stdout_level g; Some (g\<lparr>stdout_level := Some l\<rparr>) }"

fun set_level :: "log_level \<Rightarrow> logger \<Rightarrow> logger option" where
  "set_level L_Trace g = stdout_set_level Spd_Trace g"
| "set_level L_Debug g = stdout_set_level Spd_Debug g"
| "set_level L_Info g = stdout_set_level Spd_Info g"
| "set_level L_Warn g = stdout_set_level Spd_Warn g"
| "set_level L_Error g = stdout_set_level Spd_Err g"
| "set_level L_Critical g = stdout_set_level Spd_Critical g"
| "set_level L_Off g = stdout_set_level Spd_Off g"

definition set_level_name :: "string \<Rightarrow> logger \<Rightarrow> logger option" where
  "set_level_name lvl g =
    (if lvl = ''trace'' then stdout_set_level Spd_Trace g
     else if lvl = ''debug'' then stdout_set_level Spd_Debug g
     else if lvl = ''info'' then stdout_set_level Spd_Info g
     else if lvl = ''warn'' then stdout_set_level Spd_Warn g
     else if lvl = ''error'' then stdout_set_level Spd_Err g
     else if lvl = ''critical'' then stdout_set_level Spd_Critical g
     else if lvl = ''off'' then stdout_set_level Spd_Off g
     else Some g)"

section \<open>Writing entries\<close>

text \<open>\<open>message.data()\<close> is read as a C string: up to its first null character.\<close>

definition c_string :: "string \<Rightarrow> string" where
  "c_string message = takeWhile (\<lambda>c. c \<noteq> CHR 0x00) message"

definition stdout_log :: "spdlog_level \<Rightarrow> string \<Rightarrow> log_arg list \<Rightarrow> logger \<Rightarrow> logger option" where
  "stdout_log l message args g = do {
     current \<leftarrow> stdout_level g;
     Some (if current \<le> l then g\<lparr>stdout_entries := stdout_entries g @ [(l, c_string message, args)]\<rparr> else g) }"

definition default_log :: "spdlog_level \<Rightarrow> string \<Rightarrow> log_arg list \<Rightarrow> logger \<Rightarrow> logger" where
  "default_log l message args g =
    (if default_level g \<le> l then g\<lparr>default_entries := default_entries g @ [(l, c_string message, args)]\<rparr> else g)"

definition log_trace :: "string \<Rightarrow> log_arg list \<Rightarrow> logger \<Rightarrow> logger option" where
  "log_trace = stdout_log Spd_Trace"

definition log_debug :: "string \<Rightarrow> log_arg list \<Rightarrow> logger \<Rightarrow> logger option" where
  "log_debug = stdout_log Spd_Debug"

definition log_info :: "string \<Rightarrow> log_arg list \<Rightarrow> logger \<Rightarrow> logger option" where
  "log_info = stdout_log Spd_Info"

definition log_warn :: "string \<Rightarrow> log_arg list \<Rightarrow> logger \<Rightarrow> logger option" where
  "log_warn = stdout_log Spd_Warn"

definition log_error :: "string \<Rightarrow> log_arg list \<Rightarrow> logger \<Rightarrow> logger option" where
  "log_error = stdout_log Spd_Err"

definition log_critical :: "string \<Rightarrow> log_arg list \<Rightarrow> logger \<Rightarrow> logger option" where
  "log_critical = stdout_log Spd_Critical"

definition trace_sync :: "string \<Rightarrow> log_arg list \<Rightarrow> logger \<Rightarrow> logger" where
  "trace_sync = default_log Spd_Trace"

definition debug_sync :: "string \<Rightarrow> log_arg list \<Rightarrow> logger \<Rightarrow> logger" where
  "debug_sync = default_log Spd_Debug"

definition info_sync :: "string \<Rightarrow> log_arg list \<Rightarrow> logger \<Rightarrow> logger" where
  "info_sync = default_log Spd_Info"

definition warn_sync :: "string \<Rightarrow> log_arg list \<Rightarrow> logger \<Rightarrow> logger" where
  "warn_sync = default_log Spd_Warn"

definition error_sync :: "string \<Rightarrow> log_arg list \<Rightarrow> logger \<Rightarrow> logger" where
  "error_sync = default_log Spd_Err"

definition critical_sync :: "string \<Rightarrow> log_arg list \<Rightarrow> logger \<Rightarrow> logger" where
  "critical_sync = default_log Spd_Critical"

definition log_entries :: "log_entry list \<Rightarrow> logger \<Rightarrow> logger option" where
  "log_entries es g = fold (\<lambda>(l, m, args) g. Option.bind g (stdout_log l m args)) es (Some g)"

section \<open>Lemmas\<close>

fun level_name :: "log_level \<Rightarrow> string" where
  "level_name L_Trace = ''trace''"
| "level_name L_Debug = ''debug''"
| "level_name L_Info = ''info''"
| "level_name L_Warn = ''warn''"
| "level_name L_Error = ''error''"
| "level_name L_Critical = ''critical''"
| "level_name L_Off = ''off''"

lemma set_level_name_named: "set_level_name (level_name l) g = set_level l g"
  by (cases l) (simp_all add: set_level_name_def)

lemma set_level_name_unknown:
  assumes "\<forall>l. s \<noteq> level_name l"
  shows "set_level_name s g = Some g"
proof -
  have "s \<noteq> ''trace'' \<and> s \<noteq> ''debug'' \<and> s \<noteq> ''info'' \<and> s \<noteq> ''warn'' \<and> s \<noteq> ''error'' \<and> s \<noteq> ''critical'' \<and> s \<noteq> ''off''"
    using assms [rule_format, of L_Trace] assms [rule_format, of L_Debug] assms [rule_format, of L_Info]
      assms [rule_format, of L_Warn] assms [rule_format, of L_Error] assms [rule_format, of L_Critical]
      assms [rule_format, of L_Off]
    by simp
  then show ?thesis
    by (simp only: set_level_name_def if_False simp_thms)
qed

fun spdlog_of :: "log_level \<Rightarrow> spdlog_level" where
  "spdlog_of L_Trace = Spd_Trace"
| "spdlog_of L_Debug = Spd_Debug"
| "spdlog_of L_Info = Spd_Info"
| "spdlog_of L_Warn = Spd_Warn"
| "spdlog_of L_Error = Spd_Err"
| "spdlog_of L_Critical = Spd_Critical"
| "spdlog_of L_Off = Spd_Off"

lemma level_of_spdlog_of [simp]: "level_of_spdlog (spdlog_of l) = l"
  by (cases l) simp_all

lemma set_level_eq: "set_level l g = stdout_set_level (spdlog_of l) g"
  by (cases l) simp_all

lemma fold_bind_None: "fold (\<lambda>(l, m, args) g. Option.bind g (stdout_log l m args)) es None = None"
  by (induction es) auto

lemma log_entries_filter:
  assumes "stdout_level g = Some k"
  shows "log_entries es g = Some (g\<lparr>stdout_entries := stdout_entries g @
    map (\<lambda>(l, m, args). (l, c_string m, args)) (filter (\<lambda>(l, _). k \<le> l) es)\<rparr>)"
  using assms
proof (induction es arbitrary: g)
  case (Cons e es)
  obtain l m args where e: "e = (l, m, args)"
    by (metis prod_cases3)
  show ?case
  proof (cases "k \<le> l")
    case True
    let ?g = "g\<lparr>stdout_entries := stdout_entries g @ [(l, c_string m, args)]\<rparr>"
    have "log_entries (e # es) g = log_entries es ?g"
      using True Cons.prems by (simp add: log_entries_def e stdout_log_def)
    with Cons.IH [of ?g] True Cons.prems show ?thesis
      by (simp add: e)
  next
    case False
    have "log_entries (e # es) g = log_entries es g"
      using False Cons.prems by (simp add: log_entries_def e stdout_log_def)
    with Cons.IH [of g] False Cons.prems show ?thesis
      by (simp add: e)
  qed
qed (simp add: log_entries_def)

section \<open>Properties\<close>

text \<open>A level that was set is the level.  Setting a level, by its value or by its name, is read back; a name
  that is no level changes nothing; and of everything that is logged afterwards exactly the entries at
  or above the level are written, in order.  A logger whose construction failed can do none of this.\<close>

theorem logging_levels:
  "stdout_level g \<noteq> None \<Longrightarrow>
     (\<exists>g'. set_level l g = Some g' \<and> set_level_name (level_name l) g = Some g' \<and> get_level g' = Some l \<and>
        (\<exists>k. stdout_level g' = Some k \<and>
           map_option stdout_entries (log_entries es g') =
             Some (stdout_entries g @ map (\<lambda>(l, m, args). (l, c_string m, args)) (filter (\<lambda>(l, _). k \<le> l) es)))) \<and>
     ((\<forall>l. s \<noteq> level_name l) \<longrightarrow> set_level_name s g = Some g) \<and>
     set_level l (mk_logger False) = None \<and> get_level (mk_logger False) = None"
  using set_level_name_unknown [of s g]
  by (auto simp: set_level_name_named set_level_eq get_level_def log_entries_filter mk_logger_def stdout_set_level_def)

theorem logging_levels_witness:
  "\<exists>g'. set_level_name ''warn'' (mk_logger True) = Some g' \<and> get_level g' = Some L_Warn \<and>
     map_option stdout_entries (log_entries [(Spd_Info, ''a'', []), (Spd_Err, ''b'', [Number 1])] g') =
       Some [(Spd_Err, ''b'', [Number 1])]"
  using logging_levels [of "mk_logger True" L_Warn "[(Spd_Info, ''a'', []), (Spd_Err, ''b'', [Number 1])]" "[]"]
  by (auto simp: mk_logger_def stdout_set_level_def less_eq_spdlog_level_def c_string_def)

end
