(* ===== verification/Example_Programs.thy ===== *)
theory Example_Programs
  imports Logging Client_Operations Handshake_Client Write_Operations Read_Operations Persistent_Admin
    Live_Subscriptions Catchup_Subscriptions Cluster_Discovery
begin

text \<open>
  The example programs under \<open>src/examples\<close>: command line tools that connect and run one operation or
  subscription each.  They are the clients of the library's interface, with the handlers a user writes.

  A program is the tree of what it does: entries it logs, calls of the library with the handlers it gives
  them, and its end.  A handler that the program waits for, with \<open>poll\<close> or on a condition variable, continues
  the tree.  What a call answers is decided outside the program, in \<open>program_step\<close>, by the models of the
  operations.  Five programs run the event loop in a second thread; what it means for \<open>main\<close> to return while
  that thread has not been joined is decided in \<open>thread_step\<close>.
\<close>

section \<open>Programs\<close>

datatype connection_target = Single_Node discovery_service | Cluster_Nodes cluster_settings

datatype persistent_call =
    Create_Call string string persistent_subscription_settings
  | Update_Call string string persistent_subscription_settings
  | Delete_Call string string

datatype subscription_call =
    Start_Volatile volatile_subscription
  | Start_Persistent persistent_subscription
  | Start_Catchup catchup_subscription
  | Start_Catchup_All catchup_all_subscription

text \<open>\<open>Return\<close> is \<open>return\<close> from \<open>main\<close>, after the handlers it waited for have returned; \<open>Uncaught\<close> is an exception nobody
  catches.  \<open>Start_Thread\<close> constructs the \<open>std::thread\<close> that runs the event loop, and \<open>Join\<close> is \<open>join()\<close> on it; a
  handler that runs in that thread while \<open>main\<close> is in \<open>join()\<close> stands behind \<open>Join\<close>.  \<open>Call_Append\<close> is also followed by what
  its caller does next.  \<open>Once p q\<close> tests and clears a flag: \<open>p\<close> the first time, \<open>q\<close> later.  A subscription's
  handlers are called any number of times.\<close>

datatype program =
    Return
  | Uncaught exn
  | Start_Thread program
  | Join program
  | Log_Call spdlog_level string "log_arg list" program
  | Default_Level string program
  | New_Guid "guid \<Rightarrow> program"
  | Clock "int \<Rightarrow> program"
  | Once program program
  | Connect connection_settings connection_target "error_code \<Rightarrow> connection_result option \<Rightarrow> program"
  | Call_Append string "event_data list" int "error_code \<Rightarrow> write_result option \<Rightarrow> program" program
  | Call_Delete string int "error_code \<Rightarrow> delete_stream_result option \<Rightarrow> program"
  | Call_Start string int "error_code \<Rightarrow> transaction option \<Rightarrow> program"
  | Call_Transaction "event_data tx_effect" "error_code \<Rightarrow> write_result option \<Rightarrow> program"
  | Call_Read_Event string int bool "error_code \<Rightarrow> event_read_result option \<Rightarrow> program"
  | Call_Read_Stream read_direction string int int bool "error_code \<Rightarrow> stream_events_slice option \<Rightarrow> program"
  | Call_Read_All read_direction position int bool "error_code \<Rightarrow> all_events_slice option \<Rightarrow> program"
  | Call_Set_Metadata string int string "error_code \<Rightarrow> write_result option \<Rightarrow> program"
  | Call_Get_Metadata string "error_code \<Rightarrow> stream_metadata_result_raw option \<Rightarrow> program"
  | Call_Persistent persistent_call "error_code \<Rightarrow> string \<Rightarrow> program"
  | Subscribe subscription_call "resolved_event \<Rightarrow> int option \<Rightarrow> program" "error_code \<Rightarrow> program"

text \<open>The macros of \<open>logger.hpp\<close>; their arguments are evaluated whatever the level.\<close>

definition ES_TRACE :: "string \<Rightarrow> log_arg list \<Rightarrow> program \<Rightarrow> program" where
  "ES_TRACE = Log_Call Spd_Trace"

definition ES_INFO :: "string \<Rightarrow> log_arg list \<Rightarrow> program \<Rightarrow> program" where
  "ES_INFO = Log_Call Spd_Info"

definition ES_ERROR :: "string \<Rightarrow> log_arg list \<Rightarrow> program \<Rightarrow> program" where
  "ES_ERROR = Log_Call Spd_Err"

fun or_throw :: "exn + 'a \<Rightarrow> ('a \<Rightarrow> program) \<Rightarrow> program" where
  "or_throw (Inl x) f = Uncaught x"
| "or_throw (Inr a) f = f a"

text \<open>\<open>std::optional::value()\<close>.\<close>

fun get_value :: "'a option \<Rightarrow> ('a \<Rightarrow> program) \<Rightarrow> program" where
  "get_value None f = Uncaught Bad_Optional_Access"
| "get_value (Some a) f = f a"

text \<open>The lines of a message of several fields are joined by a newline and a tab.\<close>

fun fields :: "string list \<Rightarrow> string" where
  "fields [] = []"
| "fields [s] = s"
| "fields (s # ss) = s @ [CHR 0x0A, CHR 0x09] @ fields ss"

section \<open>Command line arguments\<close>

text \<open>\<open>std::stoi\<close> and \<open>std::stoll\<close>: white space, a sign, and decimal digits; what follows is ignored.\<close>

definition is_space :: "char \<Rightarrow> bool" where
  "is_space c \<longleftrightarrow> (let n = of_char c :: nat in n = 32 \<or> (9 \<le> n \<and> n \<le> 13))"

definition is_digit :: "char \<Rightarrow> bool" where
  "is_digit c \<longleftrightarrow> (let n = of_char c :: nat in 48 \<le> n \<and> n \<le> 57)"

definition digits_value :: "string \<Rightarrow> int" where
  "digits_value ds = foldl (\<lambda>n c. 10 * n + (of_char c - 48)) 0 ds"

fun signed_value :: "string \<Rightarrow> int \<times> string" where
  "signed_value [] = (1, [])"
| "signed_value (c # s) = (if c = CHR ''-'' then (- 1, s) else if c = CHR ''+'' then (1, s) else (1, c # s))"

definition parse_integer :: "int \<Rightarrow> string \<Rightarrow> exn + int" where
  "parse_integer bound s =
    (case signed_value (dropWhile is_space s) of (sign, rest) \<Rightarrow>
       let ds = takeWhile is_digit rest; n = sign * digits_value ds in
       if ds = [] then Inl Invalid_Argument
       else if n < - bound \<or> bound \<le> n then Inl Out_Of_Range
       else Inr n)"

definition stoi :: "string \<Rightarrow> exn + int" where
  "stoi = parse_integer (2 ^ 31)"

definition stoll :: "string \<Rightarrow> exn + int" where
  "stoll = parse_integer (2 ^ 63)"

text \<open>\<open>make_address_v4\<close> of Asio: the addresses are a parameter.\<close>

type_synonym address_parser = "string \<Rightarrow> string option"

definition make_address_v4 :: "address_parser \<Rightarrow> string \<Rightarrow> exn + string" where
  "make_address_v4 parse s = (case parse s of None \<Rightarrow> Inl System_Error | Some a \<Rightarrow> Inr a)"

text \<open>A port is an \<open>unsigned short\<close>.\<close>

definition port_of :: "int \<Rightarrow> int" where
  "port_of n = n mod 65536"

section \<open>What the programs share\<close>

definition example_settings :: "string \<Rightarrow> string \<Rightarrow> connection_settings" where
  "example_settings user pass =
     with_require_master False (with_default_user_credentials (mk_credentials user pass) connection_settings_default)"

definition example_node :: "string \<Rightarrow> int \<Rightarrow> connection_target" where
  "example_node address port =
     Single_Node \<lparr>dv_endpoint = (address, port_of port), dv_secure_endpoint = (''0.0.0.0'', 0), dv_ssl = False\<rparr>"

text \<open>The handler of \<open>async_connect\<close>, which sets \<open>is_connected\<close>, and what follows it.\<close>

definition connected_handler :: "(bool \<Rightarrow> program) \<Rightarrow> error_code \<Rightarrow> connection_result option \<Rightarrow> program" where
  "connected_handler after ec result =
    (if \<not> failed ec \<or> ec = connection_error Authentication_Failed
     then get_value result (\<lambda>r.
       ES_INFO ''client has been identified with connection-id={}, {}'' [Id (connection_id r), Message ec] (after True))
     else ES_ERROR ''client has failed to identify with server, {}'' [Message ec] (after False))"

text \<open>Where \<open>main\<close> polls, a failed connection is reported and \<open>main\<close> returns.  Where a thread runs the event
  loop, it is started after the call of \<open>async_connect\<close>, and \<open>main\<close> waits for the handler on a condition variable.\<close>

definition polling_connect :: "connection_settings \<Rightarrow> connection_target \<Rightarrow> program \<Rightarrow> program" where
  "polling_connect cs target run = Connect cs target (connected_handler (\<lambda>is_connected.
     if \<not> is_connected then ES_ERROR ''failed to connect to EventStore'' [] Return else run))"

definition threaded_connect :: "connection_settings \<Rightarrow> connection_target \<Rightarrow> program \<Rightarrow> program" where
  "threaded_connect cs target run = Start_Thread (Connect cs target (connected_handler (\<lambda>is_connected.
     if \<not> is_connected then Return else run)))"

definition test_event :: "guid \<Rightarrow> event_data" where
  "test_event g = \<lparr>ed_event_id = g, ed_type = ''Test.Type'', ed_is_json = True,
     ed_content = ''{ \"test\": \"data\"}'', ed_metadata = Some ''test metadata''\<rparr>"

text \<open>The tools that write show what they write.\<close>

definition usage_of_data :: "program \<Rightarrow> program" where
  "usage_of_data p = ES_ERROR (fields [''stream={}'', ''event-type={}'', ''is-json={}'', ''data={}'', ''metadata={}''])
     [Text ''test-stream'', Text ''Test.Type'', Flag True, Text ''{ \"test\": \"data\"}'', Text ''test metadata''] p"

definition usage_of_writer :: "program \<Rightarrow> program" where
  "usage_of_writer p = ES_ERROR ''tool will write the following data to event store'' [] (usage_of_data p)"

text \<open>From the port on: the address is parsed, the settings are built, the program connects.\<close>

definition connect_node ::
  "(connection_settings \<Rightarrow> connection_target \<Rightarrow> program \<Rightarrow> program) \<Rightarrow> address_parser \<Rightarrow> string list \<Rightarrow> int \<Rightarrow> program \<Rightarrow> program"
where
  "connect_node connect parse argv port run =
     or_throw (make_address_v4 parse (argv ! 1)) (\<lambda>address.
       connect (example_settings (argv ! 3) (argv ! 4)) (example_node address port) run)"

definition appended_handler :: "string \<Rightarrow> error_code \<Rightarrow> write_result option \<Rightarrow> program" where
  "appended_handler stream_name ec result =
    (if \<not> failed ec
     then get_value result (\<lambda>r. ES_INFO ''successfully appended to stream {}, next expected version={}''
       [Text stream_name, Number (next_expected_version r)] Return)
     else ES_ERROR ''error appending to stream : {}'' [Message ec] Return)"

end
