(* ===== verification/Example_Mains.thy ===== *)
theory Example_Mains
  imports Example_Programs
begin

text \<open>
  The \<open>main\<close> function of each example program: the check of its arguments, their conversion, the connection and
  what it runs once it is connected.  \<open>argv\<close> includes the name of the program.
\<close>

section \<open>The programs\<close>

text \<open>\<open>append_to_stream.cpp\<close>.\<close>

definition append_to_stream_run :: program where
  "append_to_stream_run = New_Guid (\<lambda>g.
     Call_Append ''test-stream'' [test_event g] (expected_version_value Any)
       (\<lambda>ec result. Join (appended_handler ''test-stream'' ec result)) (Join Return))"

definition append_to_stream_main :: "address_parser \<Rightarrow> string list \<Rightarrow> program" where
  "append_to_stream_main parse argv =
    (if length argv \<noteq> 6
     then ES_ERROR ''expected 5 arguments, got {}'' [Number (int (length argv) - 1)]
       (ES_ERROR ''usage: <executable> <ip endpoint> <port> <username> <password> [trace | debug | info | warn | error | critical | off]'' []
       (ES_ERROR ''example: ./append-to-stream 127.0.0.1 1113 admin changeit info'' []
       (usage_of_writer Return)))
     else
       or_throw (stoi (argv ! 2)) (\<lambda>port.
       Default_Level (argv ! 5) (connect_node threaded_connect parse argv port
         append_to_stream_run)))"

text \<open>\<open>append_to_stream_batch.cpp\<close>.\<close>

definition batch_content :: string where
  "batch_content = ''{ '' @ concat (replicate 14 ''\"test\": \"data\", '') @ ''\"test\": \"data\"}''"

fun batch_events :: "nat \<Rightarrow> event_data list \<Rightarrow> (event_data list \<Rightarrow> program) \<Rightarrow> program" where
  "batch_events 0 events f = f events"
| "batch_events (Suc n) events f = New_Guid (\<lambda>g. batch_events n
     (events @ [\<lparr>ed_event_id = g, ed_type = ''Test.Type'', ed_is_json = True, ed_content = batch_content,
       ed_metadata = Some ''test metadata''\<rparr>]) f)"

definition batch_handler :: "string \<Rightarrow> int \<Rightarrow> error_code \<Rightarrow> write_result option \<Rightarrow> program" where
  "batch_handler stream_name start ec result =
    (if \<not> failed ec
     then Clock (\<lambda>stop. get_value result (\<lambda>r.
       ES_INFO ''successfully appended to stream {}, next expected version={}, in {} ms''
         [Text stream_name, Number (next_expected_version r), Number (milliseconds_of_ns (stop - start))] Return))
     else ES_ERROR ''error appending to stream : {}'' [Message ec] Return)"

text \<open>\<open>reserve\<close> takes a \<open>size_t\<close>: a negative number of events is larger than any vector.\<close>

definition append_batch_run :: "int \<Rightarrow> program" where
  "append_batch_run num_events =
    (if num_events < 0 then Uncaught Length_Error
     else ES_INFO ''sending events to es'' [] (batch_events (nat num_events) [] (\<lambda>events. Clock (\<lambda>start.
       Call_Append ''test-stream'' events (expected_version_value Any)
         (\<lambda>ec result. Join (batch_handler ''test-stream'' start ec result)) (Join Return)))))"

definition append_batch_main :: "address_parser \<Rightarrow> string list \<Rightarrow> program" where
  "append_batch_main parse argv =
    (if length argv \<noteq> 7
     then ES_ERROR ''expected 6 arguments, got {}'' [Number (int (length argv) - 1)]
       (ES_ERROR ''usage: <executable> <ip endpoint> <port> <username> <password> <num-events> [trace | debug | info | warn | error | critical | off]'' []
       (ES_ERROR ''example: ./append-to-stream 127.0.0.1 1113 admin changeit 1000 info'' []
       (usage_of_writer Return)))
     else
       or_throw (stoi (argv ! 2)) (\<lambda>port.
       or_throw (stoi (argv ! 5)) (\<lambda>num_events.
       Default_Level (argv ! 6) (connect_node threaded_connect parse argv port
         (append_batch_run num_events)))))"

text \<open>\<open>append_to_stream_cluster.cpp\<close>.\<close>

definition example_cluster :: "connection_settings \<Rightarrow> cluster_settings" where
  "example_cluster cs = cl_with_gossip_timeout (60 * 1000000000) (cl_with_max_discover_attempts 10
     (cl_with_gossip_seeds (cs_gossip_seeds cs) (keep_discovering cluster_settings_default)))"

definition append_cluster_main :: "address_parser \<Rightarrow> string list \<Rightarrow> program" where
  "append_cluster_main parse argv =
    (if length argv \<noteq> 10
     then ES_ERROR ''expected 9 arguments, got {}'' [Number (int (length argv) - 1)]
       (ES_ERROR ''usage: <executable> <username> <password> <gossip-seed1-ip> <port> <gossip-seed2-ip> <port> <gossip-seed3-ip> <port> [trace | debug | info | warn | error | critical | off]'' []
       (ES_ERROR ''example: ./append-to-stream-cluster admin changeit 127.0.0.1 3112 127.0.0.1 4112 127.0.0.1 5112 info'' []
       (ES_ERROR ''tool will write the following data to event store connecting to one of the three cluster node's specified as arguments'' []
        (usage_of_data Return))))
     else
       or_throw (stoi (argv ! 4)) (\<lambda>port1. or_throw (stoi (argv ! 6)) (\<lambda>port2. or_throw (stoi (argv ! 8)) (\<lambda>port3.
       Default_Level (argv ! 9) (
       or_throw (make_address_v4 parse (argv ! 3)) (\<lambda>ep1. or_throw (make_address_v4 parse (argv ! 5)) (\<lambda>ep2.
       or_throw (make_address_v4 parse (argv ! 7)) (\<lambda>ep3.
       let cs = with_gossip_seed_endpoints [(ep1, port_of port1), (ep2, port_of port2), (ep3, port_of port3)]
             (example_settings (argv ! 1) (argv ! 2))
       in threaded_connect cs (Cluster_Nodes (example_cluster cs)) append_to_stream_run))))))))"

text \<open>\<open>delete_stream.cpp\<close>.\<close>

definition delete_stream_run :: "string \<Rightarrow> int \<Rightarrow> program" where
  "delete_stream_run stream expected_version = Call_Delete stream expected_version (\<lambda>ec result.
    if \<not> failed ec
    then get_value result (\<lambda>v.
      ES_INFO ''successfully deleted stream {}, log-position=(commit-position={}, prepare-position={})''
        [Text stream, Number (commit_position (ds_log_position v)), Number (prepare_position (ds_log_position v))] Return)
    else ES_ERROR ''error trying to delete stream {} : {}'' [Text stream, Message ec] Return)"

definition delete_stream_main :: "address_parser \<Rightarrow> string list \<Rightarrow> program" where
  "delete_stream_main parse argv =
    (if length argv \<noteq> 8
     then ES_ERROR ''expected 7 arguments, got {}'' [Number (int (length argv) - 1)]
       (ES_ERROR ''usage: <executable> <ip endpoint> <port> <username> <password> <stream-name> <expected version> [trace | debug | info | warn | error | critical | off]'' []
       (ES_ERROR ''example: ./delete-stream 127.0.0.1 1113 admin changeit test-stream 10 info'' []
       (ES_ERROR ''tool will delete the specified stream from EventStore'' []
       Return)))
     else
       or_throw (stoi (argv ! 2)) (\<lambda>port.
       or_throw (stoll (argv ! 6)) (\<lambda>expected_version.
       Default_Level (argv ! 7) (connect_node polling_connect parse argv port
         (delete_stream_run (argv ! 5) expected_version)))))"

text \<open>\<open>read_stream_event.cpp\<close>.\<close>

definition read_event_handler :: "string \<Rightarrow> int \<Rightarrow> error_code \<Rightarrow> event_read_result option \<Rightarrow> program" where
  "read_event_handler stream event_no ec result =
    (if \<not> failed ec
     then get_value result (\<lambda>read_result.
       ES_INFO ''read event {} from stream {}'' [Number (err_event_number read_result), Text (err_stream read_result)]
        (case err_event read_result of
           None \<Rightarrow> Return
         | Some e \<Rightarrow> get_value (event e) (\<lambda>r.
             ES_INFO (fields [''stream-id={}'', ''resolved={}'', ''event-number={}'', ''event-id={}'', ''is-json={}'',
                 ''event-type={}'', ''created={}'', ''created_epoch={}'', ''metadata={}'', ''data={}''])
               [Text (event_stream_id r), Flag (is_resolved e), Number (event_number r), Id (event_id r),
                Flag (is_json r), Text (event_type r), Number (created r), Number (created_epoch r),
                Text (metadata r), Text (content r)] Return)))
     else ES_ERROR ''error trying to read event {} from stream {}, {}'' [Number event_no, Text stream, Message ec] Return)"

definition read_event_run :: "string \<Rightarrow> int \<Rightarrow> program" where
  "read_event_run stream event_no = Call_Read_Event stream event_no True
     (\<lambda>ec result. Join (read_event_handler stream event_no ec result))"

definition read_event_main :: "address_parser \<Rightarrow> string list \<Rightarrow> program" where
  "read_event_main parse argv =
    (if length argv \<noteq> 8
     then ES_ERROR ''expected 7 arguments, got {}'' [Number (int (length argv) - 1)]
       (ES_ERROR ''usage: <executable> <ip endpoint> <port> <username> <password> <stream-name> <event-number> [trace | debug | info | warn | error | critical | off]'' []
       (ES_ERROR ''example: ./read-stream-event 127.0.0.1 1113 admin changeit test-stream 0 info'' []
       Return))
     else
       or_throw (stoi (argv ! 2)) (\<lambda>port.
       or_throw (stoll (argv ! 6)) (\<lambda>event_no.
       Default_Level (argv ! 7) (connect_node threaded_connect parse argv port
         (read_event_run (argv ! 5) event_no)))))"

text \<open>What the two slice readers show of each event.\<close>

fun trace_events :: "resolved_event list \<Rightarrow> program \<Rightarrow> program" where
  "trace_events [] p = p"
| "trace_events (e # es) p = get_value (event e) (\<lambda>r.
     ES_TRACE (fields [''event read'', ''is-resolved={}'', ''event-id={}'', ''event-no={}'', ''event-type={}'',
         ''metadata={}'', ''content={}''])
       [Flag (is_resolved e), Id (event_id r), Number (event_number r), Text (event_type r), Text (metadata r),
        Text (content r)] (trace_events es p))"

definition direction_name :: "read_direction \<Rightarrow> string" where
  "direction_name d = (if d = Forward then ''forward'' else ''backward'')"

text \<open>\<open>read_stream_events.cpp\<close>.\<close>

definition read_stream_handler :: "string \<Rightarrow> int \<Rightarrow> error_code \<Rightarrow> stream_events_slice option \<Rightarrow> program" where
  "read_stream_handler stream start ec result =
    (if \<not> failed ec
     then Clock (\<lambda>stop. get_value result (\<lambda>v.
       ES_INFO ''stream={}, from-event-number={}, next-event-number={}, last-event-number={}, is-end-of-stream={}, read-direction={}''
         [Text (ses_stream v), Number (ses_from_event_number v), Number (ses_next_event_number v),
          Number (ses_last_event_number v), Flag (ses_is_end_of_stream v), Text (direction_name (ses_read_direction v))]
       (trace_events (ses_events v)
       (ES_INFO ''got {} events in {} ms''
         [Number (int (length (ses_events v))), Number (milliseconds_of_ns (stop - start))] Return))))
     else ES_ERROR ''error trying to read stream events from stream {} : {}'' [Text stream, Message ec] Return)"

definition read_stream_run :: "string \<Rightarrow> int \<Rightarrow> int \<Rightarrow> string \<Rightarrow> program" where
  "read_stream_run stream from_event_number max_count direction = Clock (\<lambda>start.
     if direction = ''forward''
     then Call_Read_Stream Forward stream from_event_number max_count True (read_stream_handler stream start)
     else Call_Read_Stream Backward stream from_event_number max_count True (read_stream_handler stream start))"

definition read_stream_main :: "address_parser \<Rightarrow> string list \<Rightarrow> program" where
  "read_stream_main parse argv =
    (if length argv \<noteq> 10
     then ES_ERROR ''expected 9 arguments, got {}'' [Number (int (length argv) - 1)]
       (ES_ERROR ''usage: <executable> <ip endpoint> <port> <username> <password> <stream-name> <from-event-number> <max-number-of-events> [forward | backward] [trace | debug | info | warn | error | critical | off]'' []
       (ES_ERROR ''example: ./read-stream-events 127.0.0.1 1113 admin changeit test-stream 0 10 forward info'' []
       Return))
     else
       or_throw (stoi (argv ! 2)) (\<lambda>port.
       or_throw (stoll (argv ! 6)) (\<lambda>from_event_number.
       or_throw (stoi (argv ! 7)) (\<lambda>max_count.
       if argv ! 8 \<noteq> ''forward'' \<and> argv ! 8 \<noteq> ''backward''
       then ES_ERROR ''read direction can only be backward or forward'' [] Return
       else Default_Level (argv ! 9) (connect_node polling_connect parse argv port
         (read_stream_run (argv ! 5) from_event_number max_count (argv ! 8)))))))"

text \<open>\<open>read_all_events.cpp\<close>.\<close>

definition read_all_handler :: "string \<Rightarrow> error_code \<Rightarrow> all_events_slice option \<Rightarrow> program" where
  "read_all_handler direction ec result =
    (if \<not> failed ec
     then get_value result (\<lambda>v.
       ES_INFO ''from-commit-position={}, from-prepare-position={}, next-commit-position={}, next-prepare-position={}, is-end-of-stream={}, read-direction={}''
         [Number (commit_position (aes_from_position v)), Number (prepare_position (aes_from_position v)),
          Number (commit_position (aes_next_position v)), Number (prepare_position (aes_next_position v)),
          Flag (aes_is_end_of_stream v), Text (direction_name (aes_direction v))]
       (trace_events (aes_events v)
       (ES_INFO ''got {} events'' [Number (int (length (aes_events v)))] Return)))
     else ES_ERROR ''error trying to read all events {} : {}'' [Text direction, Message ec] Return)"

definition read_all_run :: "int \<Rightarrow> int \<Rightarrow> int \<Rightarrow> string \<Rightarrow> program" where
  "read_all_run commit prepare max_count direction =
    (if direction = ''forward''
     then Call_Read_All Forward (Position commit prepare) max_count True (read_all_handler direction)
     else Call_Read_All Backward (Position commit prepare) max_count True (read_all_handler direction))"

definition read_all_main :: "address_parser \<Rightarrow> string list \<Rightarrow> program" where
  "read_all_main parse argv =
    (if length argv \<noteq> 10
     then ES_ERROR ''expected 9 arguments, got {}'' [Number (int (length argv) - 1)]
       (ES_ERROR ''usage: <executable> <ip endpoint> <port> <username> <password> <from-commit-pos> <from-prepare-pos> <max-number-of-events> [forward | backward] [trace | debug | info | warn | error | critical | off]'' []
       (ES_ERROR ''example: ./read-all-events 127.0.0.1 1113 admin changeit 0 0 10  forward info'' []
       Return))
     else
       or_throw (stoi (argv ! 2)) (\<lambda>port.
       or_throw (stoll (argv ! 5)) (\<lambda>commit. or_throw (stoll (argv ! 6)) (\<lambda>prepare.
       or_throw (stoi (argv ! 7)) (\<lambda>max_count.
       if argv ! 8 \<noteq> ''forward'' \<and> argv ! 8 \<noteq> ''backward''
       then ES_ERROR ''read direction can only be backward or forward'' [] Return
       else Default_Level (argv ! 9) (connect_node polling_connect parse argv port
         (read_all_run commit prepare max_count (argv ! 8))))))))"

text \<open>\<open>transaction.cpp\<close>.\<close>

definition committed_handler :: "string \<Rightarrow> error_code \<Rightarrow> write_result option \<Rightarrow> program" where
  "committed_handler stream ec result =
    (if \<not> failed ec
     then ES_INFO ''transaction committed successfully!'' [] (get_value result (\<lambda>r.
       ES_INFO ''successfully appended to stream {}, next expected version={}''
         [Text stream, Number (next_expected_version r)] Return))
     else ES_ERROR ''transaction failed to commit, {}'' [Message ec] Return)"

text \<open>After the handler of the start has run: \<open>transaction\<close> is the optional it assigned.\<close>

definition transaction_started :: "string \<Rightarrow> transaction option \<Rightarrow> program" where
  "transaction_started stream started =
    (case started of
       None \<Rightarrow> Return
     | Some t \<Rightarrow> New_Guid (\<lambda>g.
         case tx_async_write [test_event g] t of (effect, t) \<Rightarrow>
         Call_Transaction effect (\<lambda>err _.
           if \<not> failed err
           then (case tx_async_commit t of (effect, _) \<Rightarrow> Call_Transaction effect (committed_handler stream))
           else ES_ERROR ''transactional write failed'' [] Return)))"

definition transaction_run :: "int \<Rightarrow> program" where
  "transaction_run expected_version = Call_Start ''test-stream'' expected_version (\<lambda>ec result.
     if \<not> failed ec then transaction_started ''test-stream'' result
     else ES_ERROR ''transaction could not be started, {}'' [Message ec] (transaction_started ''test-stream'' None))"

definition transaction_main :: "address_parser \<Rightarrow> string list \<Rightarrow> program" where
  "transaction_main parse argv =
    (if length argv \<noteq> 7
     then ES_ERROR ''expected 6 arguments, got {}'' [Number (int (length argv) - 1)]
       (ES_ERROR ''usage: <executable> <ip endpoint> <port> <username> <password> <expected-version> [trace | debug | info | warn | error | critical | off]'' []
       (ES_ERROR ''example: ./transaction 127.0.0.1 1113 admin changeit 3 info'' []
       (usage_of_writer Return)))
     else
       or_throw (stoi (argv ! 2)) (\<lambda>port.
       or_throw (stoll (argv ! 5)) (\<lambda>expected_version.
       Default_Level (argv ! 6) (connect_node polling_connect parse argv port
         (transaction_run expected_version)))))"

text \<open>\<open>stream_metadata.cpp\<close>.\<close>

definition get_metadata_handler :: "string \<Rightarrow> error_code \<Rightarrow> stream_metadata_result_raw option \<Rightarrow> program" where
  "get_metadata_handler stream ec result =
    (if \<not> failed ec
     then ES_INFO ''fetched stream metata from stream={}'' [Text stream] (get_value result (\<lambda>r.
       ES_INFO ''is-stream-deleted={}, meta-stream-version={}, stream={}''
         [Flag (md_is_stream_deleted r), Number (md_meta_stream_version r), Text (md_stream r)]
       (ES_INFO ''stream-metadata={}'' [Text (md_stream_metadata r)] Return)))
     else ES_ERROR ''failed to fetch stream metadata from stream={}'' [Text stream] Return)"

definition set_metadata_handler :: "string \<Rightarrow> error_code \<Rightarrow> write_result option \<Rightarrow> program" where
  "set_metadata_handler stream ec result =
    (if \<not> failed ec
     then get_value result (\<lambda>r.
       ES_INFO ''wrote stream metadata, next-expected-version={}'' [Number (next_expected_version r)]
       (Call_Get_Metadata stream (get_metadata_handler stream)))
     else ES_ERROR ''failed to set stream metadata for stream={}, {}'' [Text stream, Message ec] Return)"

definition stream_metadata_run :: program where
  "stream_metadata_run = Call_Set_Metadata ''test-stream'' (expected_version_value Any) ''{ \"key\": 1029014814 }''
     (\<lambda>ec result. Join (set_metadata_handler ''test-stream'' ec result))"

definition stream_metadata_main :: "address_parser \<Rightarrow> string list \<Rightarrow> program" where
  "stream_metadata_main parse argv =
    (if length argv \<noteq> 6
     then ES_ERROR ''expected 5 arguments, got {}'' [Number (int (length argv) - 1)]
       (ES_ERROR ''usage: <executable> <ip endpoint> <port> <username> <password> [trace | debug | info | warn | error | critical | off]'' []
       (ES_ERROR ''example: ./stream-metadata 127.0.0.1 1113 admin changeit info'' []
       (ES_ERROR ''tool will write the following metadata to the stream 'test-stream' and fetch it back: {}'' [Text ''{ \"key\": 1029014814 }'']
       Return)))
     else
       or_throw (stoi (argv ! 2)) (\<lambda>port.
       Default_Level (argv ! 5) (connect_node threaded_connect parse argv port
         stream_metadata_run)))"

text \<open>The handler of a dropped subscription, the same in all programs.\<close>

definition dropped_handler :: "error_code \<Rightarrow> program" where
  "dropped_handler ec = ES_ERROR ''subscription dropped : {}'' [Message ec] Return"

text \<open>\<open>volatile_subscription.cpp\<close>.\<close>

definition volatile_event :: "resolved_event \<Rightarrow> int option \<Rightarrow> program" where
  "volatile_event e retry = get_value (event e) (\<lambda>r. ES_INFO ''event received, {}'' [Id (event_id r)] Return)"

definition volatile_run :: "string \<Rightarrow> program" where
  "volatile_run stream = New_Guid (\<lambda>g.
     let subscription = (if stream = ''all'' then mk_volatile_all_subscription g True
                         else mk_volatile_subscription g stream True)
     in ES_INFO ''creating volatile subscription to stream={}, subscription-id={}'' [Text stream, Id g]
       (Subscribe (Start_Volatile subscription) volatile_event dropped_handler))"

definition volatile_main :: "address_parser \<Rightarrow> string list \<Rightarrow> program" where
  "volatile_main parse argv =
    (if length argv \<noteq> 7
     then ES_ERROR ''expected 6 arguments, got {}'' [Number (int (length argv) - 1)]
       (ES_ERROR ''usage: <executable> <ip endpoint> <port> <username> <password> <stream-name> [trace | debug | info | warn | error | critical | off]'' []
       (ES_ERROR ''example: ./volatile-subscription 127.0.0.1 1113 admin changeit test-stream info'' []
       Return))
     else
       or_throw (stoi (argv ! 2)) (\<lambda>port.
       Default_Level (argv ! 6) (connect_node polling_connect parse argv port
         (volatile_run (argv ! 5)))))"

text \<open>What the catch-up programs show of each event; \<open>appended\<close> is what happens in between.\<close>

definition show_original :: "resolved_event \<Rightarrow> program \<Rightarrow> program" where
  "show_original e p = or_throw (original_event_number e) (\<lambda>n. or_throw (original_stream_id e) (\<lambda>s.
     ES_INFO ''is-resolved={}, original-event-no={}, original-stream-id={}'' [Flag (is_resolved e), Number n, Text s] p))"

definition show_event :: "resolved_event \<Rightarrow> program" where
  "show_event e = (case event e of None \<Rightarrow> Return
     | Some r \<Rightarrow> ES_INFO ''event received, event-id={}, event-no={}'' [Id (event_id r), Number (event_number r)] Return)"

text \<open>\<open>catchup_subscription.cpp\<close>.\<close>

definition catchup_event :: "resolved_event \<Rightarrow> int option \<Rightarrow> program" where
  "catchup_event e retry = show_original e (show_event e)"

definition catchup_program :: "string \<Rightarrow> int \<Rightarrow> program" where
  "catchup_program stream from_event_number = New_Guid (\<lambda>g.
     let sub_settings = with_subscription_name ''my-subscription'' (with_read_batch_size 2
           (cu_with_resolve_link_tos True catchup_settings_default))
     in ES_INFO ''creating catchup subscription to stream={}, subscription-id={}, starting from event-no={}''
       [Text stream, Id g, Number from_event_number]
       (Subscribe (Start_Catchup (mk_catchup_subscription g stream from_event_number sub_settings))
          catchup_event dropped_handler))"

definition catchup_main :: "address_parser \<Rightarrow> string list \<Rightarrow> program" where
  "catchup_main parse argv =
    (if length argv \<noteq> 8
     then ES_ERROR ''expected 7 arguments, got {}'' [Number (int (length argv) - 1)]
       (ES_ERROR ''usage: <executable> <ip endpoint> <port> <username> <password> <stream-name> <from-event-no> [trace | debug | info | warn | error | critical | off]'' []
       (ES_ERROR ''example: ./catchup-subscription 127.0.0.1 1113 admin changeit test-stream 0 info'' []
       Return))
     else
       or_throw (stoi (argv ! 2)) (\<lambda>port.
       or_throw (stoll (argv ! 6)) (\<lambda>from_event_number.
       Default_Level (argv ! 7) (connect_node polling_connect parse argv port
         (catchup_program (argv ! 5) from_event_number)))))"

text \<open>\<open>catchup_all_subscription.cpp\<close>.\<close>

definition append_test :: "program \<Rightarrow> program" where
  "append_test rest = Once
     (New_Guid (\<lambda>g. Call_Append ''test-stream'' [test_event g] (expected_version_value Any)
        (appended_handler ''test-stream'') rest))
     rest"

definition catchup_all_event :: "resolved_event \<Rightarrow> int option \<Rightarrow> program" where
  "catchup_all_event e retry = show_original e (append_test (show_event e))"

definition catchup_all_program :: "int \<Rightarrow> int \<Rightarrow> int \<Rightarrow> program" where
  "catchup_all_program from_prepare from_commit read_batch_size = New_Guid (\<lambda>g.
     let sub_settings = with_subscription_name ''my-all-subscription'' (with_read_batch_size read_batch_size
           (cu_with_resolve_link_tos True catchup_settings_default))
     in ES_INFO ''creating catchup subscription to stream={}, subscription-id={}, starting from commit-position={}, prepare-position={}''
       [Text ''<all>'', Id g, Number from_commit, Number from_prepare]
       (Subscribe (Start_Catchup_All (mk_catchup_all_subscription g (Position from_commit from_prepare) sub_settings))
          catchup_all_event dropped_handler))"

definition catchup_all_main :: "address_parser \<Rightarrow> string list \<Rightarrow> program" where
  "catchup_all_main parse argv =
    (if length argv \<noteq> 9
     then ES_ERROR ''expected 8 arguments, got {}'' [Number (int (length argv) - 1)]
       (ES_ERROR ''usage: <executable> <ip endpoint> <port> <username> <password> <from-prepare-position> <from-commit-position> <read-batch-size> [trace | debug | info | warn | error | critical | off]'' []
       (ES_ERROR ''example: ./catchup-all-subscription 127.0.0.1 1113 admin changeit 0 0 500 info'' []
       Return))
     else
       or_throw (stoi (argv ! 2)) (\<lambda>port.
       or_throw (stoll (argv ! 5)) (\<lambda>from_prepare. or_throw (stoll (argv ! 6)) (\<lambda>from_commit.
       or_throw (stoi (argv ! 7)) (\<lambda>read_batch_size.
       Default_Level (argv ! 8) (connect_node polling_connect parse argv port
         (catchup_all_program from_prepare from_commit read_batch_size)))))))"

text \<open>\<open>persistent_subscription.cpp\<close>.\<close>

definition persistent_event :: "resolved_event \<Rightarrow> int option \<Rightarrow> program" where
  "persistent_event e retry = or_throw (original_stream_id e) (\<lambda>s. or_throw (original_event_number e) (\<lambda>n.
     ES_INFO ''event received, stream={}, number={}, retry-count={}'' [Text s, Number n, Number (case retry of None \<Rightarrow> 0 | Some k \<Rightarrow> k)] Return))"

definition persistent_run :: "string \<Rightarrow> string \<Rightarrow> int \<Rightarrow> program" where
  "persistent_run stream group_name allowed_in_flight_messages = New_Guid (\<lambda>g.
     ES_INFO ''creating persistent subscription to stream={}, subscription-id={}, group={}'' [Text stream, Id g, Text group_name]
       (Subscribe (Start_Persistent (make_persistent_subscription g stream group_name (word_of_int allowed_in_flight_messages) None))
          persistent_event dropped_handler))"

definition persistent_main :: "address_parser \<Rightarrow> string list \<Rightarrow> program" where
  "persistent_main parse argv =
    (if length argv \<noteq> 9
     then ES_ERROR ''expected 8 arguments, got {}'' [Number (int (length argv) - 1)]
       (ES_ERROR ''usage: <executable> <ip endpoint> <port> <username> <password> <stream-name> <group-name> <allowed-in-flight-messages> [trace | debug | info | warn | error | critical | off]'' []
       (ES_ERROR ''example: ./persistent-subscription 127.0.0.1 1113 admin changeit test-stream my-group 10 info'' []
       Return))
     else
       or_throw (stoi (argv ! 2)) (\<lambda>port.
       or_throw (stoi (argv ! 7)) (\<lambda>allowed.
       Default_Level (argv ! 8) (connect_node polling_connect parse argv port
         (persistent_run (argv ! 5) (argv ! 6) allowed)))))"

text \<open>\<open>persistent_subscription_operations.cpp\<close>.\<close>

definition persistent_handler :: "string \<Rightarrow> string \<Rightarrow> error_code \<Rightarrow> string \<Rightarrow> program" where
  "persistent_handler done_message failed_message ec reason =
    (if \<not> failed ec then ES_INFO done_message [] Return
     else ES_ERROR failed_message [Message ec, Text reason] Return)"

definition persistent_operations_run :: "string \<Rightarrow> string \<Rightarrow> string \<Rightarrow> program" where
  "persistent_operations_run action stream group_name =
    (if action = ''create''
     then Call_Persistent (Create_Call stream group_name persistent_settings_default)
       (persistent_handler ''persistent subscription created successfully''
          ''failed to create persistent subscription, error={}, reason={}'')
     else if action = ''update''
     then Call_Persistent (Update_Call stream group_name persistent_settings_default)
       (persistent_handler ''persistent subscription update successfully''
          ''failed to update persistent subscription, error={}, reason={}'')
     else if action = ''delete''
     then Call_Persistent (Delete_Call stream group_name)
       (persistent_handler ''persistent subscription deleted succesfully''
          ''failed to delete persistent subscription, error={}, reason={}'')
     else Return)"

definition persistent_operations_main :: "address_parser \<Rightarrow> string list \<Rightarrow> program" where
  "persistent_operations_main parse argv =
    (if length argv \<noteq> 9
     then ES_ERROR ''expected 8 arguments, got {}'' [Number (int (length argv) - 1)]
       (ES_ERROR ''usage: <executable> <ip endpoint> <port> <username> <password> [create | update | delete] <stream-name> <group-name> [trace | debug | info | warn | error | critical | off]'' []
       (ES_ERROR ''example: ./persistent-subscription 127.0.0.1 1113 admin changeit create test-stream my-group info'' []
       Return))
     else
       or_throw (stoi (argv ! 2)) (\<lambda>port.
       Default_Level (argv ! 8) (connect_node polling_connect parse argv port
         (persistent_operations_run (argv ! 5) (argv ! 6) (argv ! 7)))))"

end
