(* ===== verification/Example_Runs.thy ===== *)
theory Example_Runs
  imports Example_Mains
begin

text \<open>
  What the example programs do with what the library answers: \<open>program_step\<close> lets every call be answered by
  whatever the model of its operation can answer, and the connection by whatever a run of the handshake
  tells the user's handler.
\<close>

section \<open>What the library answers\<close>

definition connection_answers :: "connection_settings \<Rightarrow> error_code \<Rightarrow> connection_result option \<Rightarrow> bool" where
  "connection_answers cs ec r \<longleftrightarrow>
     (\<exists>env es c m. env_settings env = cs \<and> connect_run env es c \<and> (m, ec, r) \<in> set (hc_completions c))"

definition append_answers :: "error_code \<Rightarrow> write_result option \<Rightarrow> bool" where
  "append_answers ec r \<longleftrightarrow> (\<exists>parse ec' v. append_response parse ec' v = Some (Called ec r))"

definition delete_answers :: "error_code \<Rightarrow> delete_stream_result option \<Rightarrow> bool" where
  "delete_answers ec r \<longleftrightarrow> (\<exists>parse ec' v. delete_stream_response parse ec' v = Some (Called ec r))"

definition start_answers :: "error_code \<Rightarrow> transaction option \<Rightarrow> bool" where
  "start_answers ec r \<longleftrightarrow> (\<exists>parse ec' v. start_transaction_response parse ec' v = Some (Called ec r))"

fun transaction_answers :: "event_data tx_effect \<Rightarrow> error_code \<Rightarrow> write_result option \<Rightarrow> bool" where
  "transaction_answers (Post_Error e) ec r \<longleftrightarrow> ec = e \<and> r = None"
| "transaction_answers (Write_Operation i es) ec r \<longleftrightarrow>
     (\<exists>parse ec' v. transactional_write_response parse ec' v = Some (Called ec ())) \<and> r = None"
| "transaction_answers (Commit_Operation i) ec r \<longleftrightarrow>
     (\<exists>parse ec' v. commit_transaction_response parse ec' v = Some (Called ec r))"
| "transaction_answers (Returned e) ec r \<longleftrightarrow> False"

definition read_event_answers :: "string \<Rightarrow> int \<Rightarrow> error_code \<Rightarrow> event_read_result option \<Rightarrow> bool" where
  "read_event_answers stream number ec r \<longleftrightarrow>
     (\<exists>parse ec' v. read_event_response parse stream number ec' v = Some (Called ec r))"

definition read_stream_answers ::
  "read_direction \<Rightarrow> string \<Rightarrow> int \<Rightarrow> error_code \<Rightarrow> stream_events_slice option \<Rightarrow> bool"
where
  "read_stream_answers direction stream from_number ec r \<longleftrightarrow>
     (\<exists>parse ec' v. read_stream_events_response parse stream from_number direction ec' v = Some (Called ec r))"

definition read_all_answers :: "read_direction \<Rightarrow> error_code \<Rightarrow> all_events_slice option \<Rightarrow> bool" where
  "read_all_answers direction ec r \<longleftrightarrow>
     (\<exists>parse ec' v. read_all_events_response parse direction ec' v = Some (Called ec r))"

definition metadata_answers :: "string \<Rightarrow> error_code \<Rightarrow> stream_metadata_result_raw option \<Rightarrow> bool" where
  "metadata_answers stream ec r \<longleftrightarrow>
     (\<exists>parse ec' v. get_stream_metadata_response parse stream ec' v = Some (Inr (Called ec r)))"

fun persistent_answers :: "persistent_call \<Rightarrow> error_code \<Rightarrow> string \<Rightarrow> bool" where
  "persistent_answers (Create_Call s g cfg) ec reason \<longleftrightarrow>
     (\<exists>parse ec' v. create_persistent_response parse ec' v = Some (Called ec reason))"
| "persistent_answers (Update_Call s g cfg) ec reason \<longleftrightarrow>
     (\<exists>parse ec' v. update_persistent_response parse ec' v = Some (Called ec reason))"
| "persistent_answers (Delete_Call s g) ec reason \<longleftrightarrow>
     (\<exists>parse ec' v. delete_persistent_response parse ec' v = Some (Called ec reason))"

section \<open>Steps\<close>

inductive program_step :: "program \<Rightarrow> program \<Rightarrow> bool" where
  log: "program_step (Log_Call l m args p) p"
| level: "program_step (Default_Level name p) p"
| thread: "program_step (Start_Thread p) p"
| join: "program_step (Join p) p"
| guid: "is_guid g \<Longrightarrow> program_step (New_Guid f) (f g)"
| clock: "program_step (Clock f) (f t)"
| once: "program_step (Once p q) p"
| later: "program_step (Once p q) q"
| connect: "connection_answers cs ec r \<Longrightarrow> program_step (Connect cs target h) (h ec r)"
| append_answer: "append_answers ec r \<Longrightarrow> program_step (Call_Append s es v h p) (h ec r)"
| append_next: "program_step (Call_Append s es v h p) p"
| delete: "delete_answers ec r \<Longrightarrow> program_step (Call_Delete s v h) (h ec r)"
| start: "start_answers ec r \<Longrightarrow> program_step (Call_Start s v h) (h ec r)"
| transaction: "transaction_answers effect ec r \<Longrightarrow> program_step (Call_Transaction effect h) (h ec r)"
| read_event: "read_event_answers s n ec r \<Longrightarrow> program_step (Call_Read_Event s n links h) (h ec r)"
| read_stream: "read_stream_answers d s n ec r \<Longrightarrow> program_step (Call_Read_Stream d s n k links h) (h ec r)"
| read_all: "read_all_answers d ec r \<Longrightarrow> program_step (Call_Read_All d pos k links h) (h ec r)"
| set_metadata: "append_answers ec r \<Longrightarrow> program_step (Call_Set_Metadata s v m h) (h ec r)"
| get_metadata: "metadata_answers s ec r \<Longrightarrow> program_step (Call_Get_Metadata s h) (h ec r)"
| persistent: "persistent_answers call ec reason \<Longrightarrow> program_step (Call_Persistent call h) (h ec reason)"
| event: "program_step (Subscribe call on_event on_dropped) (on_event e retry)"
| dropped: "program_step (Subscribe call on_event on_dropped) (on_dropped ec)"

inductive_simps program_step_simps [simp]:
  "program_step Return q"
  "program_step (Uncaught x) q"
  "program_step (Log_Call l m args p) q"
  "program_step (Default_Level name p) q"
  "program_step (Start_Thread p) q"
  "program_step (Join p) q"
  "program_step (New_Guid f) q"
  "program_step (Clock fc) q"
  "program_step (Once p p') q"
  "program_step (Connect cs target h) q"
  "program_step (Call_Append s es v h p) q"
  "program_step (Call_Delete s v h) q"
  "program_step (Call_Start s v h) q"
  "program_step (Call_Transaction effect h) q"
  "program_step (Call_Read_Event s n links h) q"
  "program_step (Call_Read_Stream d s n k links h) q"
  "program_step (Call_Read_All d pos k links h) q"
  "program_step (Call_Set_Metadata s v m h) q"
  "program_step (Call_Get_Metadata s h) q"
  "program_step (Call_Persistent call h) q"
  "program_step (Subscribe call on_event on_dropped) q"

definition reaches :: "program \<Rightarrow> program \<Rightarrow> bool" where
  "reaches = rtranclp program_step"

text \<open>What holds of everything a program can come to.\<close>

definition always :: "(program \<Rightarrow> bool) \<Rightarrow> program \<Rightarrow> bool" where
  "always P p \<longleftrightarrow> (\<forall>q. reaches p q \<longrightarrow> P q)"

definition survives :: "program \<Rightarrow> bool" where
  "survives p \<longleftrightarrow> always (\<lambda>q. q \<noteq> Uncaught Bad_Optional_Access) p"


section \<open>Threads\<close>

text \<open>The state beside the program: whether a thread has been started that has not been joined.\<close>

inductive thread_step :: "bool \<times> program \<Rightarrow> bool \<times> program \<Rightarrow> bool" where
  start_thread: "thread_step (joinable, Start_Thread p) (True, p)"
| join_thread: "thread_step (joinable, Join p) (False, p)"
| same_thread: "program_step p q \<Longrightarrow> \<forall>p'. p \<noteq> Start_Thread p' \<and> p \<noteq> Join p' \<Longrightarrow> thread_step (joinable, p) (joinable, q)"

definition thread_reaches :: "bool \<times> program \<Rightarrow> bool \<times> program \<Rightarrow> bool" where
  "thread_reaches = rtranclp thread_step"

text \<open>How a program ends.  \<open>main\<close> destroys its \<open>std::thread\<close> when it returns: the destructor of one that is still
  joinable calls \<open>std::terminate\<close>, as an exception does that leaves \<open>main\<close> or the function of a thread.\<close>

datatype program_outcome = Returns | Terminates

fun ending :: "bool \<times> program \<Rightarrow> program_outcome option" where
  "ending (joinable, Return) = Some (if joinable then Terminates else Returns)"
| "ending (joinable, Uncaught x) = Some Terminates"
| "ending _ = None"

definition ends_in :: "bool \<times> program \<Rightarrow> program_outcome \<Rightarrow> bool" where
  "ends_in s outcome \<longleftrightarrow> (\<exists>s'. thread_reaches s s' \<and> ending s' = Some outcome) \<and>
     (\<forall>s' other. thread_reaches s s' \<and> ending s' = Some other \<longrightarrow> other = outcome)"

text \<open>The program comes to its \<open>async_connect\<close>; when the connection fails, it logs the error and then what \<open>rest\<close> says,
  and ends as said; when the connection is made, it does not end with the thread unjoined.\<close>

definition connects :: "program \<Rightarrow> bool" where
  "connects p \<longleftrightarrow> (\<exists>joinable cs target h. thread_reaches (False, p) (joinable, Connect cs target h))"

definition fails_by :: "program_outcome \<Rightarrow> program \<Rightarrow> program \<Rightarrow> bool" where
  "fails_by outcome rest p \<longleftrightarrow> (\<forall>joinable cs target h ec r.
     thread_reaches (False, p) (joinable, Connect cs target h) \<and> failed ec \<and> ec \<noteq> connection_error Authentication_Failed \<longrightarrow>
     h ec r = ES_ERROR ''client has failed to identify with server, {}'' [Message ec] rest \<and>
     ends_in (joinable, h ec r) outcome)"

definition joins_when_connected :: "program \<Rightarrow> bool" where
  "joins_when_connected p \<longleftrightarrow> (\<forall>joinable cs target h result s.
     thread_reaches (False, p) (joinable, Connect cs target h) \<and> thread_reaches (joinable, h success (Some result)) s \<and>
     ending s = Some Terminates \<longrightarrow> (\<exists>x. snd s = Uncaught x))"

text \<open>The arguments a program takes: their number, the positions of those that are converted to \<open>int\<close> and to
  \<open>int64_t\<close>, those of the addresses, and whether the eighth is a direction.\<close>

definition takes ::
  "nat \<Rightarrow> nat list \<Rightarrow> nat list \<Rightarrow> nat list \<Rightarrow> bool \<Rightarrow> address_parser \<Rightarrow> string list \<Rightarrow> bool"
where
  "takes n ints longs addresses directed parse argv \<longleftrightarrow> length argv = n \<and>
     list_all (\<lambda>i. \<exists>k. stoi (argv ! i) = Inr k) ints \<and> list_all (\<lambda>i. \<exists>k. stoll (argv ! i) = Inr k) longs \<and>
     list_all (\<lambda>i. parse (argv ! i) \<noteq> None) addresses \<and>
     (if directed then argv ! 8 = ''forward'' \<or> argv ! 8 = ''backward'' else True)"

section \<open>Lemmas\<close>

lemma reaches_unfold: "reaches p q \<longleftrightarrow> p = q \<or> (\<exists>p'. program_step p p' \<and> reaches p' q)"
  unfolding reaches_def by (metis converse_rtranclpE converse_rtranclp_into_rtranclp rtranclp.rtrancl_refl)

lemma always_unfold: "always P p \<longleftrightarrow> P p \<and> (\<forall>p'. program_step p p' \<longrightarrow> always P p')"
  unfolding always_def by (metis reaches_unfold)

lemma always_ends [simp]:
  "always P Return \<longleftrightarrow> P Return"
  "always P (Uncaught x) \<longleftrightarrow> P (Uncaught x)"
  by (subst always_unfold, simp)+

lemma always_silent [simp]:
  "always P (Log_Call l m args p) \<longleftrightarrow> P (Log_Call l m args p) \<and> always P p"
  "always P (Default_Level name p) \<longleftrightarrow> P (Default_Level name p) \<and> always P p"
  "always P (Start_Thread p) \<longleftrightarrow> P (Start_Thread p) \<and> always P p"
  "always P (Join p) \<longleftrightarrow> P (Join p) \<and> always P p"
  "always P (New_Guid f) \<longleftrightarrow> P (New_Guid f) \<and> (\<forall>g. is_guid g \<longrightarrow> always P (f g))"
  "always P (Clock fc) \<longleftrightarrow> P (Clock fc) \<and> (\<forall>t. always P (fc t))"
  "always P (Once p q) \<longleftrightarrow> P (Once p q) \<and> always P p \<and> always P q"
  by (subst always_unfold, (auto)[1])+

lemma always_calls [simp]:
  "always P (Connect cs target hc) \<longleftrightarrow>
     P (Connect cs target hc) \<and> (\<forall>ec r. connection_answers cs ec r \<longrightarrow> always P (hc ec r))"
  "always P (Call_Append s es v h p) \<longleftrightarrow>
     P (Call_Append s es v h p) \<and> (\<forall>ec r. append_answers ec r \<longrightarrow> always P (h ec r)) \<and> always P p"
  "always P (Call_Delete s v hx) \<longleftrightarrow>
     P (Call_Delete s v hx) \<and> (\<forall>ec r. delete_answers ec r \<longrightarrow> always P (hx ec r))"
  "always P (Call_Start s v hs) \<longleftrightarrow>
     P (Call_Start s v hs) \<and> (\<forall>ec r. start_answers ec r \<longrightarrow> always P (hs ec r))"
  "always P (Call_Transaction effect ht) \<longleftrightarrow>
     P (Call_Transaction effect ht) \<and> (\<forall>ec r. transaction_answers effect ec r \<longrightarrow> always P (ht ec r))"
  "always P (Call_Read_Event s n links he) \<longleftrightarrow>
     P (Call_Read_Event s n links he) \<and> (\<forall>ec r. read_event_answers s n ec r \<longrightarrow> always P (he ec r))"
  "always P (Call_Read_Stream d s n k links hr) \<longleftrightarrow>
     P (Call_Read_Stream d s n k links hr) \<and> (\<forall>ec r. read_stream_answers d s n ec r \<longrightarrow> always P (hr ec r))"
  "always P (Call_Read_All d pos k links ha) \<longleftrightarrow>
     P (Call_Read_All d pos k links ha) \<and> (\<forall>ec r. read_all_answers d ec r \<longrightarrow> always P (ha ec r))"
  "always P (Call_Set_Metadata s v m h) \<longleftrightarrow>
     P (Call_Set_Metadata s v m h) \<and> (\<forall>ec r. append_answers ec r \<longrightarrow> always P (h ec r))"
  "always P (Call_Get_Metadata s hm) \<longleftrightarrow>
     P (Call_Get_Metadata s hm) \<and> (\<forall>ec r. metadata_answers s ec r \<longrightarrow> always P (hm ec r))"
  "always P (Call_Persistent call hp) \<longleftrightarrow>
     P (Call_Persistent call hp) \<and> (\<forall>ec reason. persistent_answers call ec reason \<longrightarrow> always P (hp ec reason))"
  "always P (Subscribe sub on_event on_dropped) \<longleftrightarrow>
     P (Subscribe sub on_event on_dropped) \<and> (\<forall>e retry. always P (on_event e retry)) \<and> (\<forall>ec. always P (on_dropped ec))"
  by (subst always_unfold, (auto)[1])+

text \<open>An answer that reports success comes with a result.\<close>

lemma handle_response_called:
  assumes "handle_response no_result reply checked v = Some (Called ec r)" and "\<not> failed ec"
  shows "\<exists>e m. \<not> failed e \<and> reply e m = Some (Called ec r)"
  using assms by (auto simp: handle_response_def split: Option.bind_splits if_splits)

lemma append_reply_result: "append_reply w parse e m = Some (Called ec r) \<Longrightarrow> \<not> failed ec \<Longrightarrow> \<exists>x. r = Some x"
  by (auto simp: append_reply_def Let_def split: option.splits if_splits)

lemma append_answers_result: "append_answers ec r \<Longrightarrow> \<not> failed ec \<Longrightarrow> \<exists>x. r = Some x"
  unfolding append_answers_def append_response_def by (metis handle_response_called append_reply_result)

lemma delete_reply_result: "delete_reply parse e m = Some (Called ec r) \<Longrightarrow> \<not> failed ec \<Longrightarrow> \<exists>x. r = Some x"
  by (auto simp: delete_reply_def Let_def split: if_splits)

lemma delete_answers_result: "delete_answers ec r \<Longrightarrow> \<not> failed ec \<Longrightarrow> \<exists>x. r = Some x"
  unfolding delete_answers_def delete_stream_response_def by (metis handle_response_called delete_reply_result)

lemma start_reply_result: "start_reply parse e m = Some (Called ec r) \<Longrightarrow> \<not> failed ec \<Longrightarrow> \<exists>x. r = Some x"
  by (auto simp: start_reply_def Let_def split: if_splits)

lemma start_answers_result: "start_answers ec r \<Longrightarrow> \<not> failed ec \<Longrightarrow> \<exists>x. r = Some x"
  unfolding start_answers_def start_transaction_response_def by (metis handle_response_called start_reply_result)

lemma commit_reply_result: "commit_reply parse e m = Some (Called ec r) \<Longrightarrow> \<not> failed ec \<Longrightarrow> \<exists>x. r = Some x"
  by (auto simp: commit_reply_def Let_def split: option.splits if_splits)

lemma commit_answers_result:
  "transaction_answers (Commit_Operation i) ec r \<Longrightarrow> \<not> failed ec \<Longrightarrow> \<exists>x. r = Some x"
  unfolding transaction_answers.simps commit_transaction_response_def
  by (metis handle_response_called commit_reply_result)

lemma read_event_switch_failed: "read_event_switch x = Inl ec \<Longrightarrow> failed ec"
  by (cases x) auto

lemma read_event_reply_result:
  "read_event_reply parse s n e m = Some (Called ec r) \<Longrightarrow> \<not> failed ec \<Longrightarrow> \<exists>x. r = Some x"
  by (auto simp: read_event_reply_def Let_def dest: read_event_switch_failed split: sum.splits Option.bind_splits) metis+

lemma read_event_called:
  "read_event_response parse s n ec' v = Some (Called ec r) \<Longrightarrow> \<not> failed ec \<Longrightarrow> \<exists>x. r = Some x"
  unfolding read_event_response_def by (metis handle_response_called read_event_reply_result)

lemma read_event_answers_result: "read_event_answers s n ec r \<Longrightarrow> \<not> failed ec \<Longrightarrow> \<exists>x. r = Some x"
  unfolding read_event_answers_def using read_event_called by blast

lemma read_stream_reply_result:
  "read_stream_events_reply parse s n d e m = Some (Called ec r) \<Longrightarrow> \<not> failed ec \<Longrightarrow> \<exists>x. r = Some x"
  by (auto simp: read_stream_events_reply_def Let_def split: if_splits Option.bind_splits) metis+

lemma read_stream_answers_result: "read_stream_answers d s n ec r \<Longrightarrow> \<not> failed ec \<Longrightarrow> \<exists>x. r = Some x"
  unfolding read_stream_answers_def read_stream_events_response_def
  by (metis handle_response_called read_stream_reply_result)

lemma read_all_reply_result:
  "read_all_events_reply parse d e m = Some (Called ec r) \<Longrightarrow> \<not> failed ec \<Longrightarrow> \<exists>x. r = Some x"
  by (auto simp: read_all_events_reply_def Let_def split: if_splits Option.bind_splits) metis+

lemma read_all_answers_result: "read_all_answers d ec r \<Longrightarrow> \<not> failed ec \<Longrightarrow> \<exists>x. r = Some x"
  unfolding read_all_answers_def read_all_events_response_def
  by (metis handle_response_called read_all_reply_result)

lemma on_metadata_event_result:
  "on_metadata_event s ec' r' = Inr (Called ec r) \<Longrightarrow> \<not> failed ec \<Longrightarrow> \<exists>x. r = Some x"
  by (auto simp: on_metadata_event_def split: if_splits option.splits event_read_status.splits)

lemma metadata_answers_result:
  assumes "metadata_answers s ec r" and "\<not> failed ec"
  shows "\<exists>x. r = Some x"
proof -
  from assms(1) obtain parse ec' v c where "read_event_response parse (meta_stream_of s) (- 1) ec' v = Some c"
      "(case c of Not_called \<Rightarrow> Inr Not_called | Called ec r \<Rightarrow> on_metadata_event s ec r) = Inr (Called ec r)"
    by (auto simp: metadata_answers_def get_stream_metadata_response_def split: Option.bind_splits)
  with assms(2) show ?thesis
    by (cases c) (auto dest: on_metadata_event_result)
qed

lemma connection_answers_result:
  assumes "connection_answers cs ec r" and "\<not> failed ec \<or> ec = connection_error Authentication_Failed"
  shows "\<exists>x. r = Some x"
proof -
  from assms(1) obtain env es c m where c: "connect_run env es c" "(m, ec, r) \<in> set (hc_completions c)"
    by (auto simp: connection_answers_def)
  have "told_truly env es (handshake_view c) ec r"
    using handshake_run_inv [of env es "handshake_view c"] connect_run_refines [OF c(1)] c(2)
    by (auto simp: handshake_inv_def handshake_view_def)
  with assms(2) show ?thesis
    by (cases r) (auto simp: told_truly_def)
qed

lemmas answers_result = append_answers_result delete_answers_result start_answers_result commit_answers_result
  read_event_answers_result read_stream_answers_result read_all_answers_result metadata_answers_result
  connection_answers_result

text \<open>The shared parts of the programs.\<close>

lemma always_throws [simp]:
  "always P (or_throw e f) \<longleftrightarrow> (case e of Inl x \<Rightarrow> P (Uncaught x) | Inr a \<Rightarrow> always P (f a))"
  "always P (get_value o' g) \<longleftrightarrow> (case o' of None \<Rightarrow> P (Uncaught Bad_Optional_Access) | Some a \<Rightarrow> always P (g a))"
  by (cases e; simp) (cases o'; simp)

text \<open>A port is taken modulo 65536: the program connects to another port without an error.\<close>

lemma port_wraps: "example_node a 66649 = example_node a 1113"
  by (simp add: example_node_def port_of_def)

lemma stoi_throws: "stoi s \<noteq> Inl Bad_Optional_Access" "stoll s \<noteq> Inl Bad_Optional_Access"
  by (auto simp: stoi_def stoll_def parse_integer_def Let_def split: prod.splits if_splits)

lemma make_address_throws: "make_address_v4 parse s \<noteq> Inl Bad_Optional_Access"
  by (simp add: make_address_v4_def split: option.splits)

lemmas example_defs = ES_INFO_def ES_ERROR_def ES_TRACE_def usage_of_writer_def usage_of_data_def

lemma survives_connected:
  assumes "connection_answers cs ec r" and "survives (after True)" and "survives (after False)"
  shows "survives (connected_handler after ec r)"
  using assms connection_answers_result [OF assms(1)]
  by (auto simp: survives_def connected_handler_def example_defs)

lemma survives_connect:
  assumes "survives run"
  shows "survives (polling_connect cs target run)" and "survives (threaded_connect cs target run)"
proof -
  let ?poll = "\<lambda>c. if \<not> c then ES_ERROR ''failed to connect to EventStore'' [] Return else run"
    and ?thread = "\<lambda>c. if \<not> c then Return else run"
  have "survives (?poll c)" "survives (?thread c)" for c
    using assms by (cases c; simp add: survives_def example_defs)+
  then show "survives (polling_connect cs target run)" "survives (threaded_connect cs target run)"
    using survives_connected [of cs _ _ ?poll, OF _ \<open>survives (?poll True)\<close> \<open>survives (?poll False)\<close>]
      survives_connected [of cs _ _ ?thread, OF _ \<open>survives (?thread True)\<close> \<open>survives (?thread False)\<close>]
    unfolding polling_connect_def threaded_connect_def survives_def by simp_all
qed

lemma survives_node:
  assumes "survives run"
  shows "survives (connect_node polling_connect parse argv port run)"
    and "survives (connect_node threaded_connect parse argv port run)"
  using survives_connect [OF assms] make_address_throws
  by (auto simp: connect_node_def survives_def split: sum.splits)

lemma survives_appended: "append_answers ec r \<Longrightarrow> survives (appended_handler s ec r)"
  by (auto simp: appended_handler_def survives_def example_defs dest: append_answers_result)

lemma survives_append_run: "survives append_to_stream_run"
  using survives_appended by (simp add: append_to_stream_run_def survives_def)

lemma survives_batch_events: "(\<And>es. survives (f es)) \<Longrightarrow> survives (batch_events n events f)"
  by (induction n arbitrary: events) (simp_all add: survives_def)

lemma survives_batch_run: "survives (append_batch_run n)"
proof -
  have "survives (batch_handler s t ec r)" if "append_answers ec r" for s t ec r
    using append_answers_result [OF that] by (auto simp: batch_handler_def survives_def example_defs)
  then have "survives (Clock (\<lambda>start. Call_Append s es v (\<lambda>ec r. Join (batch_handler s start ec r)) (Join Return)))" for s es v
    by (simp add: survives_def)
  from survives_batch_events [of "\<lambda>es. Clock (\<lambda>start. Call_Append ''test-stream'' es (expected_version_value Any)
      (\<lambda>ec r. Join (batch_handler ''test-stream'' start ec r)) (Join Return))", OF this]
  show ?thesis
    by (auto simp: append_batch_run_def survives_def example_defs)
qed

lemma survives_transaction_run: "survives (transaction_run v)"
proof -
  have committed: "survives (committed_handler s ec r)" if "transaction_answers (Commit_Operation i) ec r" for s ec r i
    using commit_answers_result [OF that] by (auto simp: committed_handler_def survives_def example_defs)
  have posted: "survives (committed_handler s ec None)" if "failed ec" for s ec
    using that by (simp add: committed_handler_def survives_def example_defs)
  have "survives (Call_Transaction (fst (tx_async_commit t)) (committed_handler s))" for s t
    using committed posted by (auto simp: survives_def tx_async_commit_def Let_def)
  then have "survives (transaction_started s started)" for s started
    by (auto simp: transaction_started_def survives_def example_defs split: option.splits prod.splits)
      (metis fst_conv)
  then show ?thesis
    by (auto simp: transaction_run_def survives_def example_defs)
qed

lemma survives_metadata_run: "survives stream_metadata_run"
proof -
  have "survives (get_metadata_handler s ec r)" if "metadata_answers s ec r" for s ec r
    using metadata_answers_result [OF that] by (auto simp: get_metadata_handler_def survives_def example_defs)
  then have "survives (set_metadata_handler s ec r)" if "append_answers ec r" for s ec r
    using append_answers_result [OF that] by (auto simp: set_metadata_handler_def survives_def example_defs)
  then show ?thesis
    by (simp add: stream_metadata_run_def survives_def)
qed

lemma survives_trace_events:
  "survives p \<Longrightarrow> survives (trace_events es p) \<longleftrightarrow> list_all (\<lambda>e. event e \<noteq> None) es"
  by (induction es) (auto simp: survives_def example_defs split: option.splits)

lemma survives_show_original: "survives p \<Longrightarrow> survives (show_original e p) \<longleftrightarrow> link e \<noteq> None \<or> event e \<noteq> None"
  by (auto simp: show_original_def survives_def example_defs original_event_number_def original_stream_id_def
      original_event_def split: option.splits)



lemma reaches_ends [simp]:
  "reaches Return q \<longleftrightarrow> q = Return"
  "reaches (Uncaught x) q \<longleftrightarrow> q = Uncaught x"
  by (subst reaches_unfold, (auto)[1])+












text \<open>No program connects twice, or starts a thread once it is connected.\<close>

fun sets_up :: "program \<Rightarrow> bool" where
  "sets_up (Connect cs target h) = True"
| "sets_up (Start_Thread p) = True"
| "sets_up _ = False"

definition connected_run :: "program \<Rightarrow> bool" where
  "connected_run p \<longleftrightarrow> always (\<lambda>q. \<not> sets_up q) p"

lemma connected_trace_events: "connected_run p \<Longrightarrow> connected_run (trace_events es p)"
  by (induction es) (auto simp: connected_run_def example_defs split: option.splits)

lemma connected_batch_events: "(\<And>es. connected_run (f es)) \<Longrightarrow> connected_run (batch_events n es f)"
  by (induction n arbitrary: es) (simp_all add: connected_run_def)

lemma connected_slices:
  "connected_run (read_stream_handler stream start ec r)" "connected_run (read_all_handler direction ec r')"
proof -
  have "connected_run (trace_events es (ES_INFO m args Return))" for es m args
    by (rule connected_trace_events) (simp add: connected_run_def example_defs)
  then show "connected_run (read_stream_handler stream start ec r)" "connected_run (read_all_handler direction ec r')"
    by (auto simp: read_stream_handler_def read_all_handler_def connected_run_def example_defs split: option.splits)
qed

lemma connected_handlers:
  "connected_run (appended_handler s ec w)" "connected_run (batch_handler s start ec w)"
  "connected_run (read_event_handler s n ec re)" "connected_run (committed_handler s ec w)"
  "connected_run (get_metadata_handler s ec md)" "connected_run (persistent_handler m m' ec reason)"
  "connected_run (dropped_handler ec)" "connected_run (volatile_event e retry)" "connected_run (show_event e)"
  by (auto simp: appended_handler_def batch_handler_def read_event_handler_def committed_handler_def
      get_metadata_handler_def persistent_handler_def dropped_handler_def volatile_event_def show_event_def
      connected_run_def example_defs split: option.splits)

lemma connected_shown: "connected_run p \<Longrightarrow> connected_run (show_original e p)"
  by (auto simp: show_original_def connected_run_def example_defs split: sum.splits)

lemma connected_runs:
  "connected_run append_to_stream_run" "connected_run (append_batch_run n)" "connected_run (delete_stream_run s v)"
  "connected_run (read_event_run s n)" "connected_run (read_stream_run s n k d)" "connected_run (read_all_run i j k d)"
  "connected_run (transaction_run v)" "connected_run stream_metadata_run" "connected_run (volatile_run s)"
  "connected_run (catchup_program s n)" "connected_run (catchup_all_program i j k)" "connected_run (persistent_run s g k)"
  "connected_run (persistent_operations_run a s g)"
proof -
  note handlers = connected_handlers [unfolded connected_run_def] connected_slices [unfolded connected_run_def]
  show "connected_run append_to_stream_run"
    using handlers by (simp add: append_to_stream_run_def connected_run_def)
  have "connected_run (Clock (\<lambda>start. Call_Append s es v (\<lambda>ec r. Join (batch_handler s start ec r)) (Join Return)))" for s es v
    using handlers by (simp add: connected_run_def)
  from connected_batch_events [of "\<lambda>es. Clock (\<lambda>start. Call_Append ''test-stream'' es (expected_version_value Any)
      (\<lambda>ec r. Join (batch_handler ''test-stream'' start ec r)) (Join Return))", OF this]
  show "connected_run (append_batch_run n)"
    by (simp add: append_batch_run_def connected_run_def example_defs)
  show "connected_run (delete_stream_run s v)"
    by (auto simp: delete_stream_run_def connected_run_def example_defs split: option.splits)
  show "connected_run (read_event_run s n)"
    using handlers by (simp add: read_event_run_def connected_run_def)
  show "connected_run (read_stream_run s n k d)" "connected_run (read_all_run i j k d)"
    using handlers by (simp_all add: read_stream_run_def read_all_run_def connected_run_def)
  have "connected_run (transaction_started s t)" for s t
    using handlers by (auto simp: transaction_started_def connected_run_def example_defs split: option.splits prod.splits)
  then show "connected_run (transaction_run v)"
    by (simp add: transaction_run_def connected_run_def example_defs)
  have "connected_run (set_metadata_handler s ec w)" for s ec w
    using handlers by (auto simp: set_metadata_handler_def connected_run_def example_defs split: option.splits)
  then show "connected_run stream_metadata_run"
    by (simp add: stream_metadata_run_def connected_run_def)
  show "connected_run (volatile_run s)"
    using handlers by (simp add: volatile_run_def connected_run_def example_defs Let_def)
  have "connected_run (catchup_event e retry)" for e retry
    unfolding catchup_event_def by (rule connected_shown) (rule connected_handlers)
  then show "connected_run (catchup_program s n)"
    using handlers by (simp add: catchup_program_def connected_run_def example_defs Let_def)
  have "connected_run (append_test (show_event e))" for e
    using handlers by (simp add: append_test_def connected_run_def)
  then have "connected_run (catchup_all_event e retry)" for e retry
    unfolding catchup_all_event_def by (rule connected_shown)
  then show "connected_run (catchup_all_program i j k)"
    using handlers by (simp add: catchup_all_program_def connected_run_def example_defs Let_def)
  have "connected_run (persistent_event e retry)" for e retry
    by (auto simp: persistent_event_def connected_run_def example_defs split: sum.splits)
  then show "connected_run (persistent_run s g k)"
    using handlers by (simp add: persistent_run_def connected_run_def example_defs)
  show "connected_run (persistent_operations_run a s g)"
    using handlers by (simp add: persistent_operations_run_def connected_run_def)
qed

text \<open>Threads.\<close>

inductive_simps thread_step_simps [simp]:
  "thread_step (j, Start_Thread p) s"
  "thread_step (j, Join p) s"

lemma thread_step_program: "thread_step s s' \<Longrightarrow> program_step (snd s) (snd s')"
  by (induction rule: thread_step.induct) simp_all

lemma thread_reaches_program: "thread_reaches s s' \<Longrightarrow> reaches (snd s) (snd s')"
  unfolding thread_reaches_def reaches_def
  by (induction rule: rtranclp_induct) (auto dest: thread_step_program)

lemma thread_reaches_self [simp]: "thread_reaches s s"
  by (simp add: thread_reaches_def)

lemma thread_reaches_unfold: "thread_reaches s s' \<longleftrightarrow> s = s' \<or> (\<exists>t. thread_step s t \<and> thread_reaches t s')"
  unfolding thread_reaches_def by (metis converse_rtranclpE converse_rtranclp_into_rtranclp rtranclp.rtrancl_refl)

lemma thread_reaches_trans: "thread_reaches s t \<Longrightarrow> thread_reaches t u \<Longrightarrow> thread_reaches s u"
  by (simp add: thread_reaches_def)

lemma thread_reaches_commands:
  "thread_reaches (j, Start_Thread p) s \<longleftrightarrow> s = (j, Start_Thread p) \<or> thread_reaches (True, p) s"
  "thread_reaches (j, Join p) s \<longleftrightarrow> s = (j, Join p) \<or> thread_reaches (False, p) s"
  by (subst thread_reaches_unfold, (auto)[1])+

lemma thread_reaches_other:
  assumes "\<forall>p'. p \<noteq> Start_Thread p' \<and> p \<noteq> Join p'"
  shows "thread_reaches (j, p) s \<longleftrightarrow> s = (j, p) \<or> (\<exists>p'. program_step p p' \<and> thread_reaches (j, p') s)"
proof -
  have "thread_step (j, p) t \<longleftrightarrow> (\<exists>p'. t = (j, p') \<and> program_step p p')" for t
    using assms by (auto elim: thread_step.cases intro: same_thread)
  then show ?thesis
    by (subst thread_reaches_unfold) auto
qed

lemma thread_reaches_simps:
  "thread_reaches (j, Return) s \<longleftrightarrow> s = (j, Return)"
  "thread_reaches (j, Uncaught x) s \<longleftrightarrow> s = (j, Uncaught x)"
  "thread_reaches (j, Log_Call l m args p) s \<longleftrightarrow> s = (j, Log_Call l m args p) \<or> thread_reaches (j, p) s"
  "thread_reaches (j, Default_Level name p) s \<longleftrightarrow> s = (j, Default_Level name p) \<or> thread_reaches (j, p) s"
  "thread_reaches (j, Connect cs target h) s \<longleftrightarrow>
     s = (j, Connect cs target h) \<or> (\<exists>ec r. connection_answers cs ec r \<and> thread_reaches (j, h ec r) s)"
  by (subst thread_reaches_other; (auto)[1])+

lemma thread_reaches_throws:
  "thread_reaches (j, or_throw e f) s \<longleftrightarrow> (case e of Inl x \<Rightarrow> s = (j, Uncaught x) | Inr a \<Rightarrow> thread_reaches (j, f a) s)"
  by (cases e; simp add: thread_reaches_simps)

text \<open>A run without \<open>Start_Thread\<close> does not set the flag, and one without \<open>Connect\<close> comes to none.\<close>

lemma connected_run_connects:
  assumes "connected_run p" and "thread_reaches (j, p) (j', Connect cs target h)"
  shows False
  using assms thread_reaches_program [OF assms(2)] by (auto simp: connected_run_def always_def)

lemma connected_run_joined:
  assumes "thread_reaches s t" and "connected_run (snd s)" and "\<not> fst s"
  shows "\<not> fst t"
proof -
  have "connected_run (snd t) \<and> \<not> fst t"
    using assms unfolding thread_reaches_def
  proof (induction rule: rtranclp_induct)
    case (step t u)
    from step(2) have "always (\<lambda>q. \<not> sets_up q) (snd u)"
      using step(3-5) thread_step_program [OF step(2)] always_unfold [of _ "snd t"] by (auto simp: connected_run_def)
    moreover have "\<not> sets_up (snd t)"
      using step(3-5) always_unfold [of _ "snd t"] by (auto simp: connected_run_def)
    ultimately show ?case
      using step(2-5) by (auto simp: connected_run_def elim!: thread_step.cases)
  qed simp
  then show ?thesis
    by simp
qed

text \<open>Programs that join their thread before they return.\<close>

definition joined :: "program \<Rightarrow> bool" where
  "joined p \<longleftrightarrow> (\<forall>s. thread_reaches (True, p) s \<and> ending s = Some Terminates \<longrightarrow> (\<exists>x. snd s = Uncaught x))"

lemma unjoined_end: "ending s = Some Terminates \<Longrightarrow> \<not> fst s \<Longrightarrow> \<exists>x. snd s = Uncaught x"
  by (cases s rule: ending.cases) auto

lemma joined_join:
  assumes "connected_run p"
  shows "joined (Join p)"
  unfolding joined_def
proof (intro allI impI, elim conjE)
  fix s
  assume s: "thread_reaches (True, Join p) s" and e: "ending s = Some Terminates"
  then have "thread_reaches (False, p) s"
    by (auto simp: thread_reaches_commands)
  from connected_run_joined [OF this] assms have "\<not> fst s"
    by simp
  with e show "\<exists>x. snd s = Uncaught x"
    by (rule unjoined_end)
qed

lemma joined_other:
  assumes "\<forall>p'. p \<noteq> Start_Thread p' \<and> p \<noteq> Join p'" and "p \<noteq> Return" and "\<And>p'. program_step p p' \<Longrightarrow> joined p'"
  shows "joined p"
proof -
  have "ending (True, p) = Some Terminates \<Longrightarrow> \<exists>x. p = Uncaught x"
    using assms(2) by (cases p) auto
  then show ?thesis
    using assms(3) unfolding joined_def thread_reaches_other [OF assms(1)] by auto
qed

lemma joined_intros:
  "joined (Uncaught x)"
  "(\<And>g. joined (f g)) \<Longrightarrow> joined (New_Guid f)"
  "(\<And>t. joined (fc t)) \<Longrightarrow> joined (Clock fc)"
  "joined p \<Longrightarrow> joined (Log_Call l m args p)"
  "(\<And>ec r. joined (h ec r)) \<Longrightarrow> joined p \<Longrightarrow> joined (Call_Append s es v h p)"
  "(\<And>ec r. joined (hr ec r)) \<Longrightarrow> joined (Call_Read_Event s n links hr)"
  "(\<And>ec r. joined (h ec r)) \<Longrightarrow> joined (Call_Set_Metadata s v m h)"
  by (rule joined_other; auto)+

lemma joined_batch_events: "(\<And>es. joined (f es)) \<Longrightarrow> joined (batch_events n es f)"
  by (induction n arbitrary: es) (simp_all add: joined_intros)

lemma joined_runs:
  "joined append_to_stream_run" "joined (append_batch_run n)" "joined (read_event_run s k)" "joined stream_metadata_run"
proof -
  have return: "connected_run Return"
    by (simp add: connected_run_def)
  note joins = joined_join [OF return] connected_handlers [THEN joined_join] joined_intros
  show "joined append_to_stream_run"
    unfolding append_to_stream_run_def by (intro joins)
  have batch: "joined (Clock (\<lambda>start. Call_Append s es v (\<lambda>ec r. Join (batch_handler s start ec r)) (Join Return)))" for s es v
    by (intro joins)
  show "joined (append_batch_run n)"
    unfolding append_batch_run_def ES_INFO_def using joins joined_batch_events [OF batch] by simp
  show "joined (read_event_run s k)"
    unfolding read_event_run_def by (intro joins)
  have "connected_run (set_metadata_handler s ec w)" for s ec w
    using connected_handlers(5)
    by (auto simp: set_metadata_handler_def connected_run_def example_defs split: option.splits)
  then show "joined stream_metadata_run"
    unfolding stream_metadata_run_def by (intro joins joined_join)
qed

text \<open>The connections the programs come to.\<close>

definition poll_after :: "program \<Rightarrow> bool \<Rightarrow> program" where
  "poll_after run is_connected =
     (if \<not> is_connected then ES_ERROR ''failed to connect to EventStore'' [] Return else run)"

definition thread_after :: "program \<Rightarrow> bool \<Rightarrow> program" where
  "thread_after run is_connected = (if \<not> is_connected then Return else run)"

lemma handler_connects:
  assumes "connected_run (after True)" and "connected_run (after False)"
  shows "\<not> thread_reaches (j, connected_handler after ec r) (j', Connect cs target h)"
proof -
  have "connected_run (connected_handler after ec r)"
    using assms by (auto simp: connected_handler_def connected_run_def example_defs split: option.splits)
  then show ?thesis
    using connected_run_connects by blast
qed

lemma connect_after:
  "polling_connect cs target run = Connect cs target (connected_handler (poll_after run))"
  "threaded_connect cs target run = Start_Thread (Connect cs target (connected_handler (thread_after run)))"
  unfolding polling_connect_def threaded_connect_def poll_after_def [abs_def] thread_after_def [abs_def] by (rule refl)+

lemma connect_reached:
  assumes "connected_run run"
  shows "thread_reaches (j, polling_connect cs target run) (j', Connect cs' target' h) \<longleftrightarrow>
      j' = j \<and> cs' = cs \<and> target' = target \<and> h = connected_handler (poll_after run)"
    and "thread_reaches (j, threaded_connect cs target run) (j', Connect cs' target' h) \<longleftrightarrow>
      j' \<and> cs' = cs \<and> target' = target \<and> h = connected_handler (thread_after run)"
proof -
  have "connected_run (poll_after run c)" "connected_run (thread_after run c)" for c
    using assms by (simp_all add: poll_after_def thread_after_def connected_run_def example_defs)
  note none = handler_connects [of "poll_after run", OF this(1,1)] handler_connects [of "thread_after run", OF this(2,2)]
  show "thread_reaches (j, polling_connect cs target run) (j', Connect cs' target' h) \<longleftrightarrow>
      j' = j \<and> cs' = cs \<and> target' = target \<and> h = connected_handler (poll_after run)"
    and "thread_reaches (j, threaded_connect cs target run) (j', Connect cs' target' h) \<longleftrightarrow>
      j' \<and> cs' = cs \<and> target' = target \<and> h = connected_handler (thread_after run)"
    unfolding connect_after by (simp_all add: thread_reaches_simps thread_reaches_commands none)
qed

lemma node_reached:
  assumes "connected_run run"
  shows "thread_reaches (False, connect_node polling_connect parse argv port run) (j, Connect cs target h) \<Longrightarrow>
      \<not> j \<and> h = connected_handler (poll_after run)"
    and "thread_reaches (False, connect_node threaded_connect parse argv port run) (j, Connect cs target h) \<Longrightarrow>
      j \<and> h = connected_handler (thread_after run)"
    and "connects (connect_node polling_connect parse argv port run) \<longleftrightarrow> parse (argv ! 1) \<noteq> None"
    and "connects (connect_node threaded_connect parse argv port run) \<longleftrightarrow> parse (argv ! 1) \<noteq> None"
proof -
  have poll: "thread_reaches (False, connect_node polling_connect parse argv port run) (j, Connect cs target h) \<longleftrightarrow>
      (\<exists>a. parse (argv ! 1) = Some a \<and> \<not> j \<and> cs = example_settings (argv ! 3) (argv ! 4) \<and>
        target = example_node a port \<and> h = connected_handler (poll_after run))"
    and thread: "thread_reaches (False, connect_node threaded_connect parse argv port run) (j, Connect cs target h) \<longleftrightarrow>
      (\<exists>a. parse (argv ! 1) = Some a \<and> j \<and> cs = example_settings (argv ! 3) (argv ! 4) \<and>
        target = example_node a port \<and> h = connected_handler (thread_after run))" for j cs target h
    unfolding connect_node_def thread_reaches_throws make_address_v4_def
    by (cases "parse (argv ! 1)"; simp add: connect_reached [OF assms])+
  show "thread_reaches (False, connect_node polling_connect parse argv port run) (j, Connect cs target h) \<Longrightarrow>
      \<not> j \<and> h = connected_handler (poll_after run)"
    and "thread_reaches (False, connect_node threaded_connect parse argv port run) (j, Connect cs target h) \<Longrightarrow>
      j \<and> h = connected_handler (thread_after run)"
    unfolding poll thread by auto
  show "connects (connect_node polling_connect parse argv port run) \<longleftrightarrow> parse (argv ! 1) \<noteq> None"
    and "connects (connect_node threaded_connect parse argv port run) \<longleftrightarrow> parse (argv ! 1) \<noteq> None"
    unfolding connects_def poll thread by auto
qed

text \<open>How they end.\<close>

definition ends_well :: "bool \<Rightarrow> program \<Rightarrow> bool" where
  "ends_well threads p \<longleftrightarrow> (\<forall>j cs target h. thread_reaches (False, p) (j, Connect cs target h) \<longrightarrow>
     (\<exists>run. connected_run run \<and> (threads \<longrightarrow> joined run) \<and> j = threads \<and>
        h = connected_handler (if threads then thread_after run else poll_after run)))"

lemma ends_wellD:
  assumes "ends_well threads p" and "thread_reaches (False, p) (j, Connect cs target h)"
  shows "\<exists>run. connected_run run \<and> (threads \<longrightarrow> joined run) \<and> j = threads \<and>
    h = connected_handler (if threads then thread_after run else poll_after run)"
  by (rule assms(1) [unfolded ends_well_def, rule_format, OF assms(2)])

lemma ends_in_simps:
  "ends_in (j, Log_Call l m args p) outcome \<longleftrightarrow> ends_in (j, p) outcome"
  "ends_in (j, Return) outcome \<longleftrightarrow> outcome = (if j then Terminates else Returns)"
proof -
  have "thread_reaches (j, Log_Call l m args p) s \<and> ending s = Some e \<longleftrightarrow> thread_reaches (j, p) s \<and> ending s = Some e" for s e
    by (auto simp: thread_reaches_simps)
  then show "ends_in (j, Log_Call l m args p) outcome \<longleftrightarrow> ends_in (j, p) outcome"
    unfolding ends_in_def by simp
  show "ends_in (j, Return) outcome \<longleftrightarrow> outcome = (if j then Terminates else Returns)"
    unfolding ends_in_def thread_reaches_simps by auto
qed

lemma failed_handler:
  assumes "failed ec" and "ec \<noteq> connection_error Authentication_Failed"
  shows "connected_handler after ec r = ES_ERROR ''client has failed to identify with server, {}'' [Message ec] (after False)"
  using assms by (simp add: connected_handler_def)

lemma ends_well_fails:
  "ends_well True p \<Longrightarrow> fails_by Terminates Return p"
  "ends_well False p \<Longrightarrow> fails_by Returns (ES_ERROR ''failed to connect to EventStore'' [] Return) p"
proof -
  have "ends_in (True, ES_ERROR m args (thread_after run False)) Terminates"
      "ends_in (False, ES_ERROR m args (poll_after run False)) Returns" for m args run
    by (simp_all add: thread_after_def poll_after_def example_defs ends_in_simps)
  note ends = this [of "''client has failed to identify with server, {}''"]
  show "fails_by Terminates Return p" if well: "ends_well True p"
    unfolding fails_by_def
  proof (intro allI impI, elim conjE)
    fix j cs target h ec r
    assume "thread_reaches (False, p) (j, Connect cs target h)" and ec: "failed ec" "ec \<noteq> connection_error Authentication_Failed"
    then obtain run where "j" "h = connected_handler (thread_after run)"
      using ends_wellD [OF well] by fastforce
    with ends(1) [of "[Message ec]" run] show
      "h ec r = ES_ERROR ''client has failed to identify with server, {}'' [Message ec] Return \<and> ends_in (j, h ec r) Terminates"
      by (simp add: failed_handler [OF ec] thread_after_def)
  qed
  show "fails_by Returns (ES_ERROR ''failed to connect to EventStore'' [] Return) p" if well: "ends_well False p"
    unfolding fails_by_def
  proof (intro allI impI, elim conjE)
    fix j cs target h ec r
    assume "thread_reaches (False, p) (j, Connect cs target h)" and ec: "failed ec" "ec \<noteq> connection_error Authentication_Failed"
    then obtain run where "\<not> j" "h = connected_handler (poll_after run)"
      using ends_wellD [OF well] by fastforce
    with ends(2) [of "[Message ec]" run] show "h ec r = ES_ERROR ''client has failed to identify with server, {}'' [Message ec]
        (ES_ERROR ''failed to connect to EventStore'' [] Return) \<and> ends_in (j, h ec r) Returns"
      by (simp add: failed_handler [OF ec] poll_after_def)
  qed
qed

lemma ends_well_joins:
  assumes "ends_well threads p"
  shows "joins_when_connected p"
  unfolding joins_when_connected_def
proof (intro allI impI, elim conjE)
  fix j cs target h result s
  assume "thread_reaches (False, p) (j, Connect cs target h)" and s: "thread_reaches (j, h success (Some result)) s"
    and e: "ending s = Some Terminates"
  then obtain run where run: "connected_run run" "threads \<longrightarrow> joined run" "j = threads"
      "h = connected_handler (if threads then thread_after run else poll_after run)"
    using ends_wellD [OF assms] by blast
  then have "thread_reaches (threads, run) s"
    using s e by (auto simp: connected_handler_def example_defs thread_reaches_simps thread_after_def poll_after_def
        split: if_splits)
  then consider "joined run" "thread_reaches (True, run) s" | "thread_reaches (False, run) s"
    using run(2) by (cases threads) simp_all
  then show "\<exists>x. snd s = Uncaught x"
  proof cases
    case 1
    then show ?thesis
      using e unfolding joined_def by blast
  next
    case 2
    with run(1) e show ?thesis
      using connected_run_joined [OF 2] unjoined_end by simp
  qed
qed

lemmas ends_well_ends = ends_well_fails ends_well_joins

text \<open>Every main comes to its connection exactly with the arguments it takes.\<close>

lemma connects_simps:
  "\<not> connects Return"
  "\<not> connects (Uncaught x)"
  "connects (Log_Call l m args p) \<longleftrightarrow> connects p"
  "connects (Default_Level name p) \<longleftrightarrow> connects p"
  unfolding connects_def thread_reaches_simps by simp_all

lemma ends_well_simps:
  "ends_well threads Return"
  "ends_well threads (Uncaught x)"
  "ends_well threads (Log_Call l m args p) \<longleftrightarrow> ends_well threads p"
  "ends_well threads (Default_Level name p) \<longleftrightarrow> ends_well threads p"
  unfolding ends_well_def thread_reaches_simps by simp_all

lemma throws_reached:
  "connects (or_throw e f) \<longleftrightarrow> (\<exists>a. e = Inr a \<and> connects (f a))"
  "ends_well threads (or_throw e f) \<longleftrightarrow> (\<forall>a. e = Inr a \<longrightarrow> ends_well threads (f a))"
  by (cases e; simp add: connects_simps ends_well_simps)+

lemma ends_well_node:
  "connected_run run \<Longrightarrow> ends_well False (connect_node polling_connect parse argv port run)"
  "connected_run run \<Longrightarrow> joined run \<Longrightarrow> ends_well True (connect_node threaded_connect parse argv port run)"
  unfolding ends_well_def using node_reached(1,2) by simp_all blast+

lemma cluster_reached:
  "connects (threaded_connect cs target append_to_stream_run)" "ends_well True (threaded_connect cs target append_to_stream_run)"
proof -
  note reached = connect_reached(2) [OF connected_runs(1)]
  show "connects (threaded_connect cs target append_to_stream_run)"
    unfolding connects_def reached by blast
  show "ends_well True (threaded_connect cs target append_to_stream_run)"
    unfolding ends_well_def reached using connected_runs(1) joined_runs(1) by auto
qed

lemma make_address_accepts:
  "(\<exists>a. make_address_v4 parse s = Inr a \<and> P) \<longleftrightarrow> parse s \<noteq> None \<and> P"
  "(\<exists>a. make_address_v4 parse s = Inr a) \<longleftrightarrow> parse s \<noteq> None"
  by (auto simp: make_address_v4_def split: option.splits)

lemmas main_reached = connects_simps ends_well_simps throws_reached make_address_accepts
  connected_runs [THEN node_reached(3)] connected_runs [THEN node_reached(4)]
  connected_runs [THEN ends_well_node(1)] ends_well_node(2) [OF connected_runs(1) joined_runs(1)]
  ends_well_node(2) [OF connected_runs(2) joined_runs(2)] ends_well_node(2) [OF connected_runs(4) joined_runs(3)]
  ends_well_node(2) [OF connected_runs(8) joined_runs(4)] cluster_reached

lemma threaded_mains:
  "(takes 6 [2] [] [1] False parse argv \<longleftrightarrow> connects (append_to_stream_main parse argv)) \<and> ends_well True (append_to_stream_main parse argv)"
  "(takes 7 [2, 5] [] [1] False parse argv \<longleftrightarrow> connects (append_batch_main parse argv)) \<and> ends_well True (append_batch_main parse argv)"
  "(takes 10 [4, 6, 8] [] [3, 5, 7] False parse argv \<longleftrightarrow> connects (append_cluster_main parse argv)) \<and>
     ends_well True (append_cluster_main parse argv)"
  "(takes 8 [2] [6] [1] False parse argv \<longleftrightarrow> connects (read_event_main parse argv)) \<and> ends_well True (read_event_main parse argv)"
  "(takes 6 [2] [] [1] False parse argv \<longleftrightarrow> connects (stream_metadata_main parse argv)) \<and> ends_well True (stream_metadata_main parse argv)"
  by (auto simp: takes_def append_to_stream_main_def append_batch_main_def append_cluster_main_def read_event_main_def
      stream_metadata_main_def example_defs main_reached Let_def)

lemma polling_mains:
  "(takes 8 [2] [6] [1] False parse argv \<longleftrightarrow> connects (delete_stream_main parse argv)) \<and> ends_well False (delete_stream_main parse argv)"
  "(takes 10 [2, 7] [6] [1] True parse argv \<longleftrightarrow> connects (read_stream_main parse argv)) \<and> ends_well False (read_stream_main parse argv)"
  "(takes 10 [2, 7] [5, 6] [1] True parse argv \<longleftrightarrow> connects (read_all_main parse argv)) \<and> ends_well False (read_all_main parse argv)"
  "(takes 7 [2] [5] [1] False parse argv \<longleftrightarrow> connects (transaction_main parse argv)) \<and> ends_well False (transaction_main parse argv)"
  "(takes 7 [2] [] [1] False parse argv \<longleftrightarrow> connects (volatile_main parse argv)) \<and> ends_well False (volatile_main parse argv)"
  "(takes 8 [2] [6] [1] False parse argv \<longleftrightarrow> connects (catchup_main parse argv)) \<and> ends_well False (catchup_main parse argv)"
  "(takes 9 [2, 7] [5, 6] [1] False parse argv \<longleftrightarrow> connects (catchup_all_main parse argv)) \<and> ends_well False (catchup_all_main parse argv)"
  "(takes 9 [2, 7] [] [1] False parse argv \<longleftrightarrow> connects (persistent_main parse argv)) \<and> ends_well False (persistent_main parse argv)"
  "(takes 9 [2] [] [1] False parse argv \<longleftrightarrow> connects (persistent_operations_main parse argv)) \<and>
     ends_well False (persistent_operations_main parse argv)"
  by (auto simp: takes_def delete_stream_main_def read_stream_main_def read_all_main_def transaction_main_def volatile_main_def
      catchup_main_def catchup_all_main_def persistent_main_def persistent_operations_main_def example_defs main_reached)






lemma numeral_argument:
  assumes "ds \<noteq> []" and "\<forall>c \<in> set ds. is_digit c" and "digits_value ds < 2 ^ 31"
  shows "stoi ds = Inr (digits_value ds)" and "stoll ds = Inr (digits_value ds)"
proof -
  obtain c cs where ds: "ds = c # cs"
    using assms(1) by (cases ds) simp_all
  then have "is_digit c"
    using assms(2) by simp
  then have "\<not> is_space c" "c \<noteq> CHR ''-''" "c \<noteq> CHR ''+''"
    by (auto simp: is_digit_def is_space_def Let_def)
  then have s: "signed_value (dropWhile is_space ds) = (1, ds)"
    by (simp add: ds)
  have t: "takeWhile is_digit ds = ds"
    using assms(2) by (simp add: takeWhile_eq_all_conv)
  have "0 \<le> foldl (\<lambda>n c. 10 * n + (of_char c - 48)) n xs" if "0 \<le> n" "\<forall>c \<in> set xs. is_digit c" for n :: int and xs
    using that
  proof (induction xs arbitrary: n)
    case (Cons x xs)
    have "48 \<le> (of_char x :: nat)"
      using Cons.prems(2) by (simp add: is_digit_def Let_def)
    then have "48 \<le> (of_char x :: int)"
      by (metis of_nat_le_iff of_nat_numeral of_nat_of_char)
    then show ?case
      using Cons.IH [of "10 * n + (of_char x - 48)"] Cons.prems by simp
  qed simp
  then have "0 \<le> digits_value ds"
    using assms(2) by (simp add: digits_value_def)
  then show "stoi ds = Inr (digits_value ds)" and "stoll ds = Inr (digits_value ds)"
    using assms(1,3) by (simp_all add: stoi_def stoll_def parse_integer_def s t)
qed


text \<open>The first candidate that answers.\<close>

lemma first_candidate_unprefered:
  assumes "\<forall>x \<in> set xs. try_get_gossip_from io x = Inr None" and "try_get_gossip_from io c = Inr (Some gossip)"
    and "ci_members gossip \<noteq> []" and "cl_node_preference s = None"
  shows "try_candidates io s (xs @ c # ys) old = None"
  using assms by (induction xs) (simp_all add: try_determine_best_node_def)

section \<open>Properties\<close>

text \<open>C37: what the library answers never breaks a program that writes.  Whatever the library can answer to the
  connection and to the calls, none of the programs that append, delete, commit, set metadata or
  administer subscriptions looks for a result that is not there.  The handlers of the two programs that read
  slices, of the one that reads an event and of the volatile subscription do exactly when a resolved event has no
  event of its own, also if it has a link.  The handlers of the two catch-up subscriptions and of the persistent one
  do exactly when it has no original event, neither a link nor an event; the one of the subscription to all appends
  its test event in between.\<close>

theorem examples_survive_answers:
  "survives (append_to_stream_main parse argv) \<and> survives (append_batch_main parse argv) \<and>
   survives (append_cluster_main parse argv) \<and> survives (delete_stream_main parse argv) \<and>
   survives (transaction_main parse argv) \<and> survives (stream_metadata_main parse argv) \<and>
   survives (persistent_operations_main parse argv) \<and>
   survives (read_stream_handler stream start success (Some page)) =
     list_all (\<lambda>e. event e \<noteq> None) (ses_events page) \<and>
   survives (read_all_handler direction success (Some all_page)) =
     list_all (\<lambda>e. event e \<noteq> None) (aes_events all_page) \<and>
   survives (read_event_handler stream number success (Some (read\<lparr>err_event := Some e\<rparr>))) = (event e \<noteq> None) \<and>
   survives (volatile_event e retry) = (event e \<noteq> None) \<and>
   survives (catchup_event e retry) = (link e \<noteq> None \<or> event e \<noteq> None) \<and>
   survives (catchup_all_event e retry) = (link e \<noteq> None \<or> event e \<noteq> None) \<and>
   survives (persistent_event e retry) = (link e \<noteq> None \<or> event e \<noteq> None)"
proof (intro conjI)
  note node = survives_node [OF survives_append_run] survives_node [OF survives_batch_run]
    survives_node [OF survives_transaction_run] survives_node [OF survives_metadata_run]
    and throws = stoi_throws make_address_throws
  show "survives (append_to_stream_main parse argv)"
    using node(2) throws by (auto simp: append_to_stream_main_def survives_def example_defs split: sum.splits)
  show "survives (append_batch_main parse argv)"
    using node(4) throws by (auto simp: append_batch_main_def survives_def example_defs split: sum.splits)
  show "survives (append_cluster_main parse argv)"
    using survives_connect(2) [OF survives_append_run] throws
    by (auto simp: append_cluster_main_def survives_def example_defs Let_def split: sum.splits)
  show "survives (transaction_main parse argv)"
    using node(5) throws by (auto simp: transaction_main_def survives_def example_defs split: sum.splits)
  show "survives (stream_metadata_main parse argv)"
    using node(8) throws by (auto simp: stream_metadata_main_def survives_def example_defs split: sum.splits)
  have "survives (delete_stream_run s v)" for s v
    by (auto simp: delete_stream_run_def survives_def example_defs dest: delete_answers_result)
  from survives_node(1) [OF this] show "survives (delete_stream_main parse argv)"
    using throws by (auto simp: delete_stream_main_def survives_def example_defs split: sum.splits)
  have "survives (persistent_operations_run a s g)" for a s g
    by (auto simp: persistent_operations_run_def persistent_handler_def survives_def example_defs)
  from survives_node(1) [OF this] show "survives (persistent_operations_main parse argv)"
    using throws by (auto simp: persistent_operations_main_def survives_def example_defs split: sum.splits)
  show "survives (read_stream_handler stream start success (Some page)) = list_all (\<lambda>e. event e \<noteq> None) (ses_events page)"
    using survives_trace_events [of "ES_INFO _ _ Return" "ses_events page"]
    by (auto simp: read_stream_handler_def survives_def example_defs)
  show "survives (read_all_handler direction success (Some all_page)) = list_all (\<lambda>e. event e \<noteq> None) (aes_events all_page)"
    using survives_trace_events [of "ES_INFO _ _ Return" "aes_events all_page"]
    by (auto simp: read_all_handler_def survives_def example_defs)
  show "survives (read_event_handler stream number success (Some (read\<lparr>err_event := Some e\<rparr>))) = (event e \<noteq> None)"
    by (auto simp: read_event_handler_def survives_def example_defs split: option.splits)
  show "survives (volatile_event e retry) = (event e \<noteq> None)"
    by (auto simp: volatile_event_def survives_def example_defs split: option.splits)
  have shown: "survives (show_event e)"
    by (simp add: show_event_def survives_def example_defs split: option.splits)
  then have tested: "survives (append_test (show_event e))"
    using survives_appended by (simp add: append_test_def survives_def)
  show "survives (catchup_event e retry) = (link e \<noteq> None \<or> event e \<noteq> None)"
    unfolding catchup_event_def using survives_show_original [OF shown] .
  show "survives (catchup_all_event e retry) = (link e \<noteq> None \<or> event e \<noteq> None)"
    unfolding catchup_all_event_def using survives_show_original [OF tested] .
  show "survives (persistent_event e retry) = (link e \<noteq> None \<or> event e \<noteq> None)"
    by (auto simp: persistent_event_def survives_def example_defs original_event_number_def original_stream_id_def
        original_event_def split: option.splits)
qed

text \<open>A catch-up subscription shows a link whose event is gone, the volatile one does not survive it.\<close>

theorem examples_survive_answers_witness:
  "survives (append_to_stream_main Some [''append'', ''127.0.0.1'', ''1113'', ''u'', ''p'', ''info'']) \<and>
   survives (catchup_event ((plain_event 0)\<lparr>event := None, link := event (plain_event 0)\<rparr>) None) \<and>
   \<not> survives (volatile_event ((plain_event 0)\<lparr>event := None, link := event (plain_event 0)\<rparr>) None)"
  using examples_survive_answers [where e = "(plain_event 0)\<lparr>event := None, link := event (plain_event 0)\<rparr>" and
      parse = Some and argv = "[''append'', ''127.0.0.1'', ''1113'', ''u'', ''p'', ''info'']" and retry = None]
  by (simp add: plain_event_def)

text \<open>C38: a connection that fails.  Each of the fourteen programs comes to its \<open>async_connect\<close> exactly when it is
  given the arguments it takes: their number, with the port, the other numbers, the addresses and the direction
  readable.  When the connection then fails, the nine programs that poll log the error and that they failed to connect, and
  return.  The five that run the event loop in a thread of their own log the error and end in \<open>std::terminate\<close>, in every
  way they can go on: \<open>main\<close> returns with the thread started and not joined.  After a connection that is made no program
  ends in this way, only an exception can still terminate it: the thread is joined before \<open>main\<close> returns.\<close>

theorem failed_connections_end:
  "list_all (\<lambda>(accepts, main). (accepts parse argv \<longleftrightarrow> connects (main parse argv)) \<and>
       fails_by Terminates Return (main parse argv) \<and> joins_when_connected (main parse argv))
     [(takes 6 [2] [] [1] False, append_to_stream_main), (takes 7 [2, 5] [] [1] False, append_batch_main),
      (takes 10 [4, 6, 8] [] [3, 5, 7] False, append_cluster_main), (takes 8 [2] [6] [1] False, read_event_main),
      (takes 6 [2] [] [1] False, stream_metadata_main)] \<and>
   list_all (\<lambda>(accepts, main). (accepts parse argv \<longleftrightarrow> connects (main parse argv)) \<and>
       fails_by Returns (ES_ERROR ''failed to connect to EventStore'' [] Return) (main parse argv) \<and>
       joins_when_connected (main parse argv))
     [(takes 8 [2] [6] [1] False, delete_stream_main), (takes 10 [2, 7] [6] [1] True, read_stream_main),
      (takes 10 [2, 7] [5, 6] [1] True, read_all_main), (takes 7 [2] [5] [1] False, transaction_main),
      (takes 7 [2] [] [1] False, volatile_main), (takes 8 [2] [6] [1] False, catchup_main),
      (takes 9 [2, 7] [5, 6] [1] False, catchup_all_main), (takes 9 [2, 7] [] [1] False, persistent_main),
      (takes 9 [2] [] [1] False, persistent_operations_main)]"
  using threaded_mains polling_mains ends_well_fails
    threaded_mains [THEN conjunct2, THEN ends_well_joins] polling_mains [THEN conjunct2, THEN ends_well_joins] by simp

theorem failed_connections_end_witness:
  "\<exists>cs target h. thread_reaches (False, append_to_stream_main Some [''append'', ''127.0.0.1'', ''1113'', ''u'', ''p'', ''info''])
      (True, Connect cs target h) \<and>
    ends_in (True, h (connection_error Operation_Timeout) None) Terminates"
proof -
  let ?argv = "[''append'', ''127.0.0.1'', ''1113'', ''u'', ''p'', ''info'']"
  let ?p = "append_to_stream_main Some ?argv"
  have "stoi ''1113'' = Inr 1113"
    using numeral_argument(1) [of "''1113''"] by (simp add: is_digit_def digits_value_def Let_def)
  then have "takes 6 [2] [] [1] False Some ?argv"
    by (simp add: takes_def)
  with failed_connections_end [of Some ?argv] have "connects ?p" and fails: "fails_by Terminates Return ?p"
    by simp_all
  then obtain j cs target h where c: "thread_reaches (False, ?p) (j, Connect cs target h)"
    by (auto simp: connects_def)
  have "failed (connection_error Operation_Timeout)" "connection_error Operation_Timeout \<noteq> connection_error Authentication_Failed"
    by simp_all
  with fails c have e: "h (connection_error Operation_Timeout) None =
      ES_ERROR ''client has failed to identify with server, {}'' [Message (connection_error Operation_Timeout)] Return"
      "ends_in (j, h (connection_error Operation_Timeout) None) Terminates"
    unfolding fails_by_def by blast+
  then have j
    by (simp add: example_defs ends_in_simps split: if_splits)
  with c e(2) show ?thesis
    by auto
qed



text \<open>The cluster program reads a preference nobody set.  Its settings ask for at most ten attempts, the call of
  \<open>keep_discovering\<close> being overwritten, and leave the node preference indeterminate: as soon as one of the
  candidates answers with members, the behaviour of the discovery is undefined.\<close>

theorem cluster_example_undefined:
  assumes "get_dns_candidates (env 1) (example_cluster cs) = xs @ c # ys"
    and "\<forall>x \<in> set xs. try_get_gossip_from (env 1) x = Inr None"
    and "try_get_gossip_from (env 1) c = Inr (Some gossip)" and "ci_members gossip \<noteq> []"
  shows "cluster_discover env (example_cluster cs) [] = None \<and> cl_max_discover_attempts (example_cluster cs) = Some 10"
proof -
  have s: "cl_node_preference (example_cluster cs) = None" "cl_max_discover_attempts (example_cluster cs) = Some 10"
    by (simp_all add: example_cluster_def cl_with_gossip_timeout_def cl_with_max_discover_attempts_def
        cl_with_gossip_seeds_def keep_discovering_def cluster_settings_default_def)
  have "discover_endpoints (env 1) (example_cluster cs) [] = None"
    using first_candidate_unprefered [OF assms(2-4) s(1), of ys "[]"] by (simp add: discover_endpoints_def assms(1))
  then have "do_discover_node_endpoints (env 1) (example_cluster cs) 1 [] = None"
    by (simp add: do_discover_node_endpoints_def s(2))
  then show ?thesis
    unfolding cluster_discover_def by (subst perform_discovery.simps) (simp add: s(2))
qed

theorem cluster_example_undefined_witness:
  "cluster_discover (\<lambda>_. (sample_io [sample_member VS_Master True 1113])\<lparr>dio_guid := (\<lambda>_. Inr [])\<rparr>)
     (example_cluster (with_gossip_seed_endpoints [(''127.0.0.1'', 2113)] (example_settings ''admin'' ''changeit''))) [] = None"
proof -
  let ?io = "(sample_io [sample_member VS_Master True 1113])\<lparr>dio_guid := (\<lambda>_. Inr [])\<rparr>"
  let ?cs = "with_gossip_seed_endpoints [(''127.0.0.1'', 2113)] (example_settings ''admin'' ''changeit'')"
  have c: "get_dns_candidates ?io (example_cluster ?cs) = [] @ seed_of_endpoint (''127.0.0.1'', 2113) # []"
    by (simp add: get_dns_candidates_def sample_io_def example_cluster_def with_gossip_seed_endpoints_def
        cl_with_gossip_timeout_def cl_with_max_discover_attempts_def cl_with_gossip_seeds_def)
  have "\<exists>g. try_get_gossip_from ?io (seed_of_endpoint (''127.0.0.1'', 2113)) = Inr (Some g) \<and> ci_members g \<noteq> []"
    by (simp add: try_get_gossip_from_def sample_io_def cluster_from_json_def member_from_json_def access_to_def
        member_to_json_def sample_member_def member_info_null_def vns_from_string_def)
  then obtain g where "try_get_gossip_from ?io (seed_of_endpoint (''127.0.0.1'', 2113)) = Inr (Some g)" "ci_members g \<noteq> []"
    by blast
  with cluster_example_undefined [of "\<lambda>_. ?io" ?cs, OF c] show ?thesis
    by simp
qed

end
