(* ===== verification/Spec2Isabelle.thy ===== *)
theory Spec2Isabelle
  imports Buffer_Queue Write_Operations Read_Operations Persistent_Admin Client_Safety Heartbeat
    Connect_Start Connection_Info Subscription_Client Catchup_All_Runs Catchup_Lives Example_Runs
begin

text \<open>
  A verification of the EventStore client library: the headers under \<open>src/include\<close>, C++ templates over
  Boost.Asio.  The application hands operations to a connection; the connection frames them, sends
  them over one socket, receives frames, and dispatches each frame by its correlation id to the
  operation or the subscription that waits for it.

  How the parts interact.  An operation (\<open>async_append_to_stream\<close> and so on) serializes a message, builds a
  frame for it and calls \<open>async_send(package, handler)\<close>, which posts the frame to the send queue and
  registers the handler with a deadline.  The receive loop reads frame after frame and calls
  \<open>on_package_received\<close>, which runs the registered handler; the handler turns the message into a result
  for the user.  Subscriptions register themselves in a second map and stay registered.  Connecting
  discovers an endpoint, opens the socket, starts authenticating and identifying the client, the receive
  loop and the heartbeats, whose first request goes out at once.

  \<^bold>\<open>The theories\<close> (file names are relative to \<open>src/include\<close>).

  \<^item> \<open>Es_Prelude\<close>: the C++ types, bounded memory, little-endian cells, generic lemmas.  \<open>Es_Error\<close>:
    \<open>error/error.hpp\<close>.
  \<^item> \<open>Tcp_Commands\<close>, \<open>Tcp_Package\<close>: \<open>tcp/tcp_commands.hpp\<close>, \<open>tcp/tcp_flags.hpp\<close>, \<open>guid.hpp\<close>, \<open>tcp/tcp_package.hpp\<close>: the
    frame builder works on allocated cells, the view reads bounded memory.  The lemmas compute the
    bytes of every frame and what a view of a frame reads.
  \<^item> \<open>Buffer_Queue\<close>: \<open>buffer/buffer_queue.hpp\<close>, with the interface \<open>fifo_queue\<close> that the catch-up
    subscriptions use; the lemmas refine the chunks and their unsigned indices to a list.
  \<^item> \<open>Proto_Messages\<close>, \<open>Es_Values\<close>, \<open>Es_Settings\<close>: \<open>proto/messages.proto\<close>; positions, events, slices and
    results; all settings and their builders.
  \<^item> \<open>Request_Response\<close>: what every operation shares, with the interface \<open>response_handler\<close>.
    \<open>Write_Operations\<close>, \<open>Read_Operations\<close>, \<open>Persistent_Admin\<close>: one request and one response definition for
    each operation, each response an interpretation of the interface.
  \<^item> \<open>Operations_Map\<close>: \<open>operations_map.hpp\<close> with the interface \<open>registry\<close>.  \<open>Operation_Timeout\<close>:
    \<open>tcp/operation.hpp\<close> as a step relation over answers, expiries and completions of deadlines.
  \<^item> \<open>Read_Package\<close>: \<open>tcp/read.hpp\<close> and the receive loop.  \<open>Tcp_Connection\<close>:
    \<open>connection/basic_tcp_connection.hpp\<close>; \<open>send_run\<close> is the relation of what the application, the event
    loop and the socket can do to the send queue.  \<open>Heartbeat\<close>: \<open>tcp/heartbeat.hpp\<close>.  \<open>Handshake\<close>:
    \<open>tcp/connect.hpp\<close>, \<open>tcp/authenticate.hpp\<close>, \<open>tcp/identify.hpp\<close>.  \<open>Handshake_Runs\<close>: the relation \<open>handshake_run\<close> of
    frames and deadlines in any order, its invariant and the agreement it gives.  \<open>Handshake_Client\<close>: the
    handshake on the connection of \<open>Tcp_Connection\<close>, from the bytes read to the user's handler; its runs
    (\<open>connect_run\<close>) refine \<open>handshake_run\<close>.  \<open>Connect_Start\<close>: \<open>async_connect\<close> from the user's call on, with the
    tasks and the timer of either discovery service, the outstanding connect of the socket and the owner of
    the connection; its runs (\<open>connecting_run\<close>) end where those of \<open>Handshake_Client\<close> begin.
    \<open>Connection_Info\<close>: the info classes of the connection and the names of \<open>system/metadata.hpp\<close>.
  \<^item> \<open>Client_Operations\<close>: the connection with the operations that wait on it, as one step relation
    (\<open>client_step\<close>) of the application, the event loop, the timers, the socket and the server; it refines
    the model of \<open>Operation_Timeout\<close> through \<open>op_view\<close>, and carries the end-to-end properties.
    \<open>Client_Safety\<close>: the well-typed states of this client, preserved by every step, and that sending drains the
    queue.
  \<^item> \<open>Subscription_Base\<close>: \<open>subscription/subscription_base.hpp\<close> with the interface \<open>derived_subscription\<close> and
    the relation \<open>sub_run\<close> of a subscription's life.  \<open>Live_Subscriptions\<close>: volatile and persistent
    subscriptions.  \<open>Catchup_Subscriptions\<close>: the two catch-up subscriptions.  All four interpret the
    interface.  \<open>Catchup_Runs\<close>: the relation \<open>catchup_runs\<close> of live events, answered reads and posted tasks in
    any order, and its invariant.  \<open>Catchup_All_Runs\<close>: the same for the subscription to the all stream
    (\<open>catchup_all_runs\<close>), whose order holds only between what is handed over in one way.  \<open>Catchup_Lives\<close>: the
    whole life of both from \<open>async_start\<close> on (\<open>reading_run\<close>), with reads that may fail at any time, and its
    interface \<open>reading_subscription\<close>, which extends \<open>derived_subscription\<close>; both classes interpret it.
  \<^item> \<open>Subscription_Client\<close>: a subscription on the connection of \<open>Client_Operations\<close>.  The effects of
    \<open>Subscription_Base\<close> are carried out (\<open>perform\<close>): lambdas in both maps under one id, packages in the send
    queue, posted tasks.  The interface \<open>wired_subscription\<close> extends \<open>derived_subscription\<close>; under it every run of
    the connection (\<open>sub_client_run\<close>) is a run of \<open>sub_run\<close>, and the event loop alone brings every end that
    began to the user in three steps.  Interpreted for volatile and persistent subscriptions; it
    assumes that the handlers of the user do not call the connection.
  \<^item> \<open>Cluster_Messages\<close>, \<open>Cluster_Discovery\<close>: \<open>message/cluster_messages.hpp\<close>, \<open>tcp/discovery_service.hpp\<close>,
    \<open>tcp/cluster_discovery_service.hpp\<close>, with the interface \<open>node_discovery\<close>.
  \<^item> \<open>Logging\<close>: \<open>logger.hpp\<close>, levels and what is written at them; spdlog is used through its documented
    behaviour.  \<open>Example_Programs\<close>, \<open>Example_Mains\<close>: the programs under \<open>src/examples\<close>, each as the tree of what
    its \<open>main\<close> and its handlers do.  \<open>Example_Runs\<close>: the trees run against the models of the operations
    (\<open>program_step\<close>), so that a handler sees exactly what the library can answer; \<open>thread_step\<close> keeps beside it
    whether a thread has been started and not joined, which decides how \<open>main\<close> ends.
  \<^item> this theory: the properties that span several components.

  \<^bold>\<open>Conventions.\<close>  State is passed explicitly; a handler is a function of the state.  \<open>None\<close> is undefined
  behaviour, \<open>Inl\<close> an exception, \<open>Called ec r\<close> a call of the user's handler.  Machine integers are
  words where the code's arithmetic may wrap.  Where the order of events is not determined (posted
  tasks, timers, the network), it is the choice of a step relation, and the properties hold for
  every order.

  \<^bold>\<open>Termination.\<close>  All definitions are total.  The receive loop recurses on the unread bytes, the
  discovery on the attempts that are left; the loop that empties the buffer of a catch-up subscription is
  bounded by the code's own limit per posted task.  The runs of tasks in \<open>Catchup_Subscriptions\<close> take a number of
  steps, and the properties that use them hold from some number of steps on or state the steps.

  \<^bold>\<open>Not in the repository\<close>, and so parameters: the generated protobuf code (serializing and parsing), the
  JSON library, the DNS resolver and HTTP exchange, the random generator behind new guids and shuffles.
  The documented behaviour of Asio and of the standard library that the code relies on is written
  down where it is used.

  \<^bold>\<open>Not modelled.\<close>  The entries the library itself logs; \<open>buffer/basic_mutable_buffer_sequence.hpp\<close>, an array
  no code uses; the lifetime of the shared and weak pointers outside \<open>Connect_Start\<close> (elsewhere the connection
  is considered alive); the catch-up subscriptions on the bytes of the connection, whose reads are
  answered in \<open>Catchup_Runs\<close> and \<open>Catchup_All_Runs\<close> without frames; TLS, which the code does not use; \<open>examples/connect-to-es-01.cpp\<close>, which is
  not built (its handler has another signature than the library asks for), and the unit tests.
\<close>

section \<open>From a request to the bytes on the wire and back\<close>

record client_request =
  rq_command :: tcp_command
  rq_credentials :: user_credentials
  rq_id :: guid
  rq_message :: bytes

text \<open>The requests whose frame can express them: the credentials fit their length bytes and the frame is one
  that a peer with the limits of \<open>read.hpp\<close> accepts.\<close>

definition request_fits :: "client_request \<Rightarrow> bool" where
  "request_fits r \<longleftrightarrow> is_named (rq_command r) \<and> is_guid (rq_id r) \<and>
     length (username (rq_credentials r)) < 256 \<and> length (password (rq_credentials r)) < 256 \<and>
     20 + length (username (rq_credentials r)) + length (password (rq_credentials r)) + length (rq_message r)
       \<le> 64 * 1024 * 1024"

definition sent_as :: "client_request \<Rightarrow> tcp_package \<Rightarrow> bool" where
  "sent_as r p \<longleftrightarrow> request_package (rq_command r) (rq_credentials r) (rq_id r) (rq_message r) = Some p"

definition reads_as :: "bytes \<Rightarrow> client_request \<Rightarrow> bool" where
  "reads_as f r \<longleftrightarrow> (\<exists>v. mk_view (Some f) (word_of_nat (length f)) = Some v \<and> view_is_valid v \<and>
     view_command v = Some (rq_command r) \<and> view_correlation_id v = Some (rq_id r) \<and>
     view_message v = Some (rq_message r) \<and>
     view_is_authenticated v = Some (\<not> credentials_null (rq_credentials r)))"

lemma request_package_owned:
  assumes "request_fits r" and "sent_as r p"
  shows "owns_frame p \<and> is_frame (frame_of p)"
proof (cases "credentials_null (rq_credentials r)")
  case True
  let ?b = "command_code (rq_command r) # flags_none # rq_id r @ rq_message r"
  have g: "is_guid (rq_id r)" and z: "and flags_none flags_authenticated = 0"
    using assms(1) by (simp_all add: request_fits_def flags_none_def)
  then have p: "p = \<lparr>p_package = Some (unauthenticated_frame (rq_command r) flags_none (rq_id r) (rq_message r)),
      p_length = 18 + length (rq_message r)\<rparr>"
    using assms(2) True unauthenticated_package_frame [OF z g]
    by (simp add: sent_as_def request_package_def)
  have "length ?b = 18 + length (rq_message r)"
    using g by (simp add: is_guid_def)
  then have "is_frame (unauthenticated_frame (rq_command r) flags_none (rq_id r) (rq_message r))"
    unfolding is_frame_def unauthenticated_frame_def using assms(1)
    by (intro exI [of _ ?b]) (simp add: request_fits_def)
  then show ?thesis
    using p g by (simp add: owns_frame_def frame_of_def length_unauthenticated_frame)
next
  case False
  let ?l = "username (rq_credentials r)" and ?p = "password (rq_credentials r)"
  let ?b = "command_code (rq_command r) # flags_authenticated # rq_id r @ [word_of_nat (length ?l)] @ to_bytes ?l @
    [word_of_nat (length ?p)] @ to_bytes ?p @ rq_message r"
  have g: "is_guid (rq_id r)" and z: "and flags_authenticated flags_authenticated \<noteq> 0"
    using assms(1) by (simp_all add: request_fits_def flags_authenticated_def)
  then have p: "p = \<lparr>p_package = Some (authenticated_frame (rq_command r) flags_authenticated (rq_id r) ?l ?p (rq_message r)),
      p_length = 18 + 1 + length ?l + 1 + length ?p + length (rq_message r)\<rparr>"
    using assms(2) False authenticated_package_frame [OF z g]
    by (simp add: sent_as_def request_package_def)
  have "length ?b = 18 + 1 + length ?l + 1 + length ?p + length (rq_message r)"
    using g by (simp add: is_guid_def)
  then have "is_frame (authenticated_frame (rq_command r) flags_authenticated (rq_id r) ?l ?p (rq_message r))"
    unfolding is_frame_def authenticated_frame_def using assms(1)
    by (intro exI [of _ ?b]) (simp add: request_fits_def add.assoc)
  then show ?thesis
    using p g by (simp add: owns_frame_def frame_of_def length_authenticated_frame)
qed

lemma request_package_reads:
  assumes "request_fits r" and "sent_as r p"
  shows "reads_as (frame_of p) r"
proof -
  have "24 + length (username (rq_credentials r)) + length (password (rq_credentials r)) + length (rq_message r) < 2 ^ 32"
    using assms(1) by (simp add: request_fits_def)
  with request_package_view [of "rq_command r" "rq_id r" "rq_credentials r" "rq_message r"] assms
  obtain v where "to_view p = Some v" "view_is_valid v" "view_command v = Some (rq_command r)"
      "view_correlation_id v = Some (rq_id r)" "view_message v = Some (rq_message r)"
      "view_is_authenticated v = Some (\<not> credentials_null (rq_credentials r))"
    by (auto simp: request_fits_def sent_as_def)
  moreover have "to_view p = mk_view (Some (frame_of p)) (word_of_nat (length (frame_of p)))"
    using request_package_owned [OF assms] by (auto simp: owns_frame_def frame_of_def to_view_def)
  ultimately show ?thesis
    by (auto simp: reads_as_def)
qed

lemma requests_as_frames:
  assumes "list_all2 sent_as rs ps" and "\<forall>r \<in> set rs. request_fits r"
  shows "list_all2 reads_as (map frame_of ps) rs \<and> (\<forall>f \<in> set (map frame_of ps). is_frame f)"
  using assms
  by (induction rule: list_all2_induct) (auto simp: request_package_reads request_package_owned)

section \<open>Properties that span components\<close>

text \<open>C1: requests arrive.  Whatever requests the application hands to the connection and however the posted
  tasks and the writes interleave, once everything posted has been written without an error, the
  bytes on the wire, framed as the receive loop of this client frames them, are exactly these
  requests: as many frames as requests, none lost, merged, split or sent twice, and each frame reads
  back the command, the correlation id, the serialized message and the authentication of its
  request.  Only their order is the order in which the event loop ran the tasks.\<close>

theorem requests_arrive:
  assumes "send_run evs c" and "\<not> write_failed evs" and "posted c = []" and "message_queue c = []"
    and "list_all2 sent_as rs (asked evs)" and "\<forall>r \<in> set rs. request_fits r"
  shows "\<exists>rs'. mset rs' = mset rs \<and> receive_frames b (concat (finished evs)) = Some (finished evs, end_of_file) \<and>
    list_all2 reads_as (finished evs) rs'"
proof -
  have inv: "queue_inv evs c"
    by (rule send_run_inv [OF assms(1)])
  then have fin: "finished evs = map frame_of (accepted evs)" and perm: "mset (asked evs) = mset (accepted evs)"
    using assms(2-4) by (simp_all add: queue_inv_def queue_ok_def)
  have "list_all2 sent_as\<inverse>\<inverse> (asked evs) rs"
    using assms(5) by (simp add: list.rel_flip)
  from list_all2_reorder_left_invariance [OF this perm [symmetric]]
  obtain rs' where rs': "mset rs' = mset rs" "list_all2 sent_as rs' (accepted evs)"
    by (auto simp: list.rel_flip)
  then have fits: "\<forall>r \<in> set rs'. request_fits r"
    using assms(6) mset_eq_setD [OF rs'(1)] by simp
  note frames = requests_as_frames [OF rs'(2) fits, folded fin]
  obtain b' where "receive_frames b (concat (finished evs) @ []) =
      map_option (\<lambda>(gs, e). (finished evs @ gs, e)) (receive_frames b' [])"
    using receive_frames_append [of "finished evs" b "[]"] frames by blast
  then have "receive_frames b (concat (finished evs)) = Some (finished evs, end_of_file)"
    by (simp add: receive_frames_short)
  with rs'(1) frames show ?thesis
    by blast
qed

definition sample_request :: client_request where
  "sample_request = \<lparr>rq_command = Ping_Command, rq_credentials = credentials_default, rq_id = replicate 16 7, rq_message = []\<rparr>"

lemma sample_request_sent: "request_fits sample_request" "sent_as sample_request sample_package"
proof -
  have z: "and flags_none flags_authenticated = 0" and g: "is_guid (replicate 16 7)"
    by (simp_all add: flags_none_def is_guid_def)
  show "sent_as sample_request sample_package"
    using unauthenticated_package_frame [OF z g, of Ping_Command "[]"]
    by (simp add: sent_as_def sample_request_def sample_package_def request_package_def credentials_default_def
        credentials_null_def flags_none_def)
qed (simp add: request_fits_def sample_request_def is_named_def is_guid_def credentials_default_def)

lemma sample_written:
  "\<exists>c :: nat connection. send_run [Asked sample_package, Accepted sample_package, Finished (frame_of sample_package)] c \<and>
     message_queue c = [] \<and> posted c = []"
proof -
  obtain c :: "nat connection" where c: "send_run [Asked sample_package, Accepted sample_package] c"
      "writing c = Some (frame_of sample_package)" "message_queue c = [sample_package]" "posted c = []"
    using sample_send by blast
  obtain c' where c': "write_completed success c = Some c'" "message_queue c' = []" "posted c' = []"
    using write_completed_spec [OF c(3)] c(4) by auto
  from send_run.written [OF c(1,2) c'(1)] c' show ?thesis
    by auto
qed

theorem requests_arrive_witness:
  "receive_frames \<lparr>readable = [], prepared = []\<rparr> (frame_of sample_package) = Some ([frame_of sample_package], end_of_file) \<and>
   reads_as (frame_of sample_package) sample_request"
proof -
  let ?evs = "[Asked sample_package, Accepted sample_package, Finished (frame_of sample_package)]"
  obtain c :: "nat connection" where c: "send_run ?evs c" "message_queue c = []" "posted c = []"
    using sample_written by blast
  have "\<not> write_failed ?evs"
    by (simp add: write_failed_def)
  moreover have "list_all2 sent_as [sample_request] (asked ?evs)" "\<forall>r \<in> set [sample_request]. request_fits r"
    using sample_request_sent by simp_all
  ultimately obtain rs' where "mset rs' = mset [sample_request]"
      "receive_frames \<lparr>readable = [], prepared = []\<rparr> (concat (finished ?evs)) = Some (finished ?evs, end_of_file)"
      "list_all2 reads_as (finished ?evs) rs'"
    using requests_arrive [OF c(1) _ c(3,2)] by blast
  then show ?thesis
    by (auto simp: list_all2_Cons1)
qed

text \<open>C11: every subscription ends once and quietly, or once more for every failed read.  Whatever
  packages and errors reach a volatile or persistent subscription, however often the user unsubscribes, and
  whether the answer to the unsubscription comes or fails: the user's dropped handler is called at most once,
  and after the moment at which the drop was caused nothing hands over an event any more.  For the two catch-up
  subscriptions, whose reads and posted tasks run in between, in any order and with any outcome, it is called at
  most once plus once for each read that failed; from the moment the drop was caused its call is
  pending or done, and no package and no error that reaches the subscription has an effect any more.\<close>

theorem all_subscriptions_end_once:
  "(sub_run ser parse (\<lambda>s. s) (volatile_on_package pc pe) (xs @ ys) pending reg vs \<longrightarrow>
      dropped_calls (xs @ ys) \<le> 1 \<and> (0 < drops xs \<longrightarrow> \<not> (\<exists>e \<in> set ys. is_event e))) \<and>
   (sub_run ser parse (\<lambda>s. s) (persistent_on_package codec creds) (xs @ ys) pending reg ps \<longrightarrow>
      dropped_calls (xs @ ys) \<le> 1 \<and> (0 < drops xs \<longrightarrow> \<not> (\<exists>e \<in> set ys. is_event e))) \<and>
   (reading_run ser parse catchup_shutdown (catchup_on_package ck) catchup_async_start (stream_handler ck creds)
        log pending reg n cs \<longrightarrow>
      dropped_calls log \<le> 1 + n \<and> (0 < drops log \<longrightarrow> 1 \<le> dropped_calls log + drops pending \<and>
        subscription_received ser parse catchup_shutdown (catchup_on_package ck) ec v cs = Some (Inr ([], cs)))) \<and>
   (reading_run ser parse catchup_all_shutdown (catchup_all_on_package ck) catchup_all_async_start (all_handler ck creds)
        log pending reg n as \<longrightarrow>
      dropped_calls log \<le> 1 + n \<and> (0 < drops log \<longrightarrow> 1 \<le> dropped_calls log + drops pending \<and>
        subscription_received ser parse catchup_all_shutdown (catchup_all_on_package ck) ec v as = Some (Inr ([], as))))"
proof (intro conjI)
  show "sub_run ser parse (\<lambda>s. s) (volatile_on_package pc pe) (xs @ ys) pending reg vs \<longrightarrow>
      dropped_calls (xs @ ys) \<le> 1 \<and> (0 < drops xs \<longrightarrow> \<not> (\<exists>e \<in> set ys. is_event e))"
    using volatile_sub.run_dropped_once volatile_sub.run_quiet by blast
  show "sub_run ser parse (\<lambda>s. s) (persistent_on_package codec creds) (xs @ ys) pending reg ps \<longrightarrow>
      dropped_calls (xs @ ys) \<le> 1 \<and> (0 < drops xs \<longrightarrow> \<not> (\<exists>e \<in> set ys. is_event e))"
    using persistent_sub.run_dropped_once persistent_sub.run_quiet by blast
qed (intro conjI impI;
    (erule stream_reads.reading_run_ends(1) all_reads.reading_run_ends(1)
      | erule stream_reads.reading_run_ends(2) [THEN conjunct1] stream_reads.reading_run_ends(2) [THEN conjunct2]
          all_reads.reading_run_ends(2) [THEN conjunct1] all_reads.reading_run_ends(2) [THEN conjunct2], assumption))+

definition sample_confirmation :: "bytes \<Rightarrow> subscription_confirmation" where
  "sample_confirmation = (\<lambda>_. \<lparr>sc_last_commit_position = 0, sc_last_event_number = None\<rparr>)"

definition sample_appeared :: "bytes \<Rightarrow> stream_event_appeared" where
  "sample_appeared = (\<lambda>_. \<lparr>sea_event = \<lparr>re_event = None, re_link = None, re_commit_position = 0, re_prepare_position = 0\<rparr>\<rparr>)"

definition sample_dropped :: "bytes \<Rightarrow> subscription_dropped" where
  "sample_dropped = (\<lambda>_. \<lparr>sd_reason = SD_Unsubscribed\<rparr>)"

text \<open>A volatile subscription that ends once, and a catch-up subscription with a failed read that ends twice.\<close>

theorem all_subscriptions_end_once_witness:
  "(\<exists>s. sub_run [] sample_dropped (\<lambda>s. s) (volatile_on_package sample_confirmation sample_appeared)
      ([Post_Drop operation_aborted] @ [Erase (replicate 16 1), Dropped operation_aborted]) [] False s \<and>
    dropped_calls ([Post_Drop operation_aborted] @ [Erase (replicate 16 1), Dropped operation_aborted]) \<le> 1) \<and>
   (\<exists>log pending s. reading_run [] sample_dropped catchup_shutdown (catchup_on_package (sample_catchup_codec 3))
      catchup_async_start (stream_handler (sample_catchup_codec 3) credentials_default) log pending False 1 s \<and>
    dropped_calls log = 2 \<and> dropped_calls log \<le> 1 + 1)"
proof -
  let ?run = "sub_run [] sample_dropped (\<lambda>s. s) (volatile_on_package sample_confirmation sample_appeared)"
  let ?reading = "reading_run [] sample_dropped catchup_shutdown (catchup_on_package (sample_catchup_codec 3))
      catchup_async_start (stream_handler (sample_catchup_codec 3) credentials_default)"
  note ends = all_subscriptions_end_once [of "[]" sample_dropped]
  obtain s where s: "?run ([Post_Drop operation_aborted] @ [Erase (replicate 16 1), Dropped operation_aborted]) [] False s"
    using sample_volatile_dropped by blast
  obtain log r where r: "?reading log ([] @ Catch_Up_Missed 0 3 # []) True 0 r" "\<not> sb_handle_guard r" "dropped_calls log = 0"
    using sample_reading_run by blast
  obtain es r1 where u: "unsubscribe [] catchup_shutdown operation_aborted r = Some (es, r1)"
    by (auto simp: unsubscribe_def operation_aborted_def subscription_error_def Let_def)
  obtain log' pending' r' where r': "?reading (log @ log') pending' False (Suc 0) r'"
      "filter is_dropped log' = [Dropped operation_aborted, Dropped (connection_error Operation_Timeout)]"
    using reads_report_again [OF r(1,2) _ u, of "connection_error Operation_Timeout"] by auto
  then have "dropped_calls (log @ log') = 2"
    using r(3) by (simp add: dropped_calls_def)
  moreover have "dropped_calls (log @ log') \<le> 1 + Suc 0"
    using ends r'(1) by blast
  moreover have "dropped_calls ([Post_Drop operation_aborted] @ [Erase (replicate 16 1), Dropped operation_aborted]) \<le> 1"
    using ends s by blast
  ultimately show ?thesis
    using s r'(1) by (intro conjI exI [of _ s] exI [of _ "log @ log'"] exI [of _ pending'] exI [of _ r']) simp_all
qed

text \<open>What a handler promises about errors: one it is called with is passed on as it is, without a look at
  the view, and a response with another command than the expected one is reported as unexpected.\<close>

definition reports_errors ::
  "(error_code \<Rightarrow> tcp_package_view \<Rightarrow> 'r completion option) \<Rightarrow> tcp_command \<Rightarrow> 'r \<Rightarrow> bool"
where
  "reports_errors handle expected no_result \<longleftrightarrow>
     (\<forall>ec v. failed ec \<longrightarrow> handle ec v = Some (Called ec no_result)) \<and>
     (\<forall>ec v c. \<not> failed ec \<longrightarrow> view_command v = Some c \<longrightarrow> c \<noteq> expected \<longrightarrow>
        handle ec v = Some (Called (communication_error Unexpected_Response) no_result))"

lemma response_handler_reports_errors:
  assumes "response_handler handle expected no_result reply"
  shows "reports_errors handle expected no_result"
  using response_handler.forwards_error [OF assms] response_handler.rejects_command [OF assms]
  by (simp add: reports_errors_def)

text \<open>C35: the operations that share \<open>handle_response\<close> swallow no error.  For the twelve operations
  whose handler is the shared one (append, conditional append, delete a stream, start, write to and
  commit a transaction, read an event, a stream and the all stream, create, update and delete a persistent
  subscription), the handler calls the user's handler with every error of the connection (a timeout, a
  lost connection) and no result, without a look at the view, and with \<open>unexpected_response\<close> when the server
  answers with another command than the one that completes the operation.  Authentication and identification have
  handlers of their own and are not among them.\<close>

theorem operations_forward_errors:
  "reports_errors (append_response parse_append) Write_Events_Completed_Command None \<and>
   reports_errors (conditional_append_response parse_append) Write_Events_Completed_Command None \<and>
   reports_errors (delete_stream_response parse_delete) Delete_Stream_Completed_Command None \<and>
   reports_errors (start_transaction_response parse_start) Transaction_Start_Completed_Command None \<and>
   reports_errors (transactional_write_response parse_write) Transaction_Write_Completed_Command () \<and>
   reports_errors (commit_transaction_response parse_commit) Transaction_Commit_Completed_Command None \<and>
   reports_errors (read_event_response parse_event stream number) Read_Event_Completed_Command None \<and>
   reports_errors (read_stream_events_response parse_slice stream number direction)
     (if direction = Forward then Read_Stream_Events_Forward_Completed_Command
      else Read_Stream_Events_Backward_Completed_Command) None \<and>
   reports_errors (read_all_events_response parse_all direction)
     (if direction = Forward then Read_All_Events_Forward_Completed_Command
      else Read_All_Events_Backward_Completed_Command) None \<and>
   reports_errors (create_persistent_response parse_create) Create_Persistent_Subscription_Completed_Command [] \<and>
   reports_errors (update_persistent_response parse_update) Update_Persistent_Subscription_Completed_Command [] \<and>
   reports_errors (delete_persistent_response parse_drop) Delete_Persistent_Subscription_Completed_Command []"
  by (intro conjI; rule response_handler_reports_errors; unfold_locales)

text \<open>An append: a lost connection, and an answer to something else.\<close>

theorem operations_forward_errors_witness:
  "append_response (\<lambda>_. \<lparr>wec_result = OR_Success, wec_first_event_number = 0, wec_last_event_number = 0,
       wec_prepare_position = None, wec_commit_position = None\<rparr>) operation_aborted null_view =
     Some (Called operation_aborted None) \<and>
   append_response (\<lambda>_. \<lparr>wec_result = OR_Success, wec_first_event_number = 0, wec_last_event_number = 0,
       wec_prepare_position = None, wec_commit_position = None\<rparr>) success
       (frame_view (sample_frame_of Read_Event_Completed_Command) 22) =
     Some (Called (communication_error Unexpected_Response) None)"
proof -
  have "is_named Read_Event_Completed_Command"
    by (simp add: is_named_def)
  then have "view_command (frame_view (sample_frame_of Read_Event_Completed_Command) 22) = Some Read_Event_Completed_Command"
    by (rule sample_frame_view)
  with conjunct1 [OF operations_forward_errors] show ?thesis
    by (simp add: reports_errors_def)
qed

text \<open>An unsubscription is ended by any frame.  The request to unsubscribe is sent under the correlation id
  of the subscription itself, so that from then on the connection takes the next frame with this id for
  its answer, whatever its command: an event that was already on its way is not handed to the
  subscription, the subscription is erased, and its user is told that it has ended.\<close>

theorem any_frame_ends_unsubscription:
  assumes "client_reachable c" and "cl_thrown c = None" and "is_guid (sb_key s)"
    and "map_of (cl_deadlines c) (sb_key s) = None" and "sb_key (shutdown (s\<lparr>sb_subscribed := False, sb_handle_guard := True\<rparr>)) = sb_key s"
    and "22 + length serialized < 2 ^ 32"
    and "unsubscribe serialized shutdown (subscription_error Unsubscribed) s = Some (effects, s')"
    and "frame_ok f n" and "n < 2 ^ 32" and "is_guid g" and "take 16 (drop 6 f) = sb_key s"
  shows "\<exists>p c1 c2 v. effects = [Send_Unsubscribe p (subscription_error Unsubscribed)] \<and>
    client_send p h c = Some c1 \<and> package_read client_call g success f n c1 = Some (c2, True) \<and>
    cl_calls c2 = cl_calls c @ [(sb_key s, h, success, v)] \<and> cl_sub_calls c2 = cl_sub_calls c \<and>
    unsubscribe_answered serialized shutdown (subscription_error Unsubscribed) success s' =
      Some ([Erase (sb_key s), Dropped (subscription_error Unsubscribed)], s')"
proof -
  have z: "and flags_none flags_authenticated = 0" and nm: "is_named Unsubscribe_From_Stream_Command"
    by (simp_all add: flags_none_def is_named_def)
  obtain p where p: "unauthenticated_package Unsubscribe_From_Stream_Command flags_none (sb_key s) (to_bytes serialized) = Some p"
      "effects = [Send_Unsubscribe p (subscription_error Unsubscribed)]"
      "s' = shutdown (s\<lparr>sb_subscribed := False, sb_handle_guard := True\<rparr>)"
    using assms(5,7) by (auto simp: unsubscribe_def Let_def split: Option.bind_splits)
  have key: "package_key p = Some (sb_key s)"
    using unauthenticated_package_view [OF nm z assms(3), of "to_bytes serialized"] assms(3,6) p(1)
    by (auto simp: package_key_def)
  then obtain c1 where c1: "client_send p h c = Some c1" "c1 = client_initiate (sb_key s) h (async_send p c)"
    by (simp add: client_send_def)
  have R: "keys_ok c" "op_reachable (op_view c)"
    using client_reachable_refines [OF assms(1)] by simp_all
  have fresh: "\<not> om_contains (sb_key s) (operations_map c)"
    using reachable_once(3) [OF R(2), of "sb_key s"] assms(4) by simp
  have "keys_ok (async_send p c)"
    using R(1) by (simp add: keys_ok_def async_send_def)
  then have k1: "keys_ok c1"
    by (simp add: c1(2) keys_ok_initiate)
  have at: "om_at (sb_key s) (operations_map c1) = Inr (Op_Handler (sb_key s) h)"
    and same: "cl_calls c1 = cl_calls c" "cl_sub_calls c1 = cl_sub_calls c"
    using fresh by (simp_all add: c1(2) client_initiate_def set_timer_def async_send_def)
  obtain c2 where "package_read client_call g success f n c1 = Some (c2, True)"
      "cl_calls c2 = cl_calls c1 @ [(sb_key s, h, success, frame_view f n)]" "cl_sub_calls c2 = cl_sub_calls c1"
    using receive_operation [OF assms(8-10) k1 assms(11) [symmetric] at] by blast
  moreover have "unsubscribe_answered serialized shutdown (subscription_error Unsubscribed) success s' =
      Some ([Erase (sb_key s), Dropped (subscription_error Unsubscribed)], s')"
    using assms(5) p(3) by (simp add: unsubscribe_answered_def)
  ultimately show ?thesis
    using p(2) c1(1) same by auto
qed

definition sample_event_frame :: bytes where
  "sample_event_frame = unauthenticated_frame Stream_Event_Appeared_Command flags_none (replicate 16 1) []"

theorem any_frame_ends_unsubscription_witness:
  "\<exists>p c1 c2 v. client_send p 0 sample_client = Some c1 \<and>
     package_read client_call (replicate 16 5) success sample_event_frame 22 c1 = Some (c2, True) \<and>
     cl_calls c2 = [(replicate 16 1, 0, success, v)] \<and> cl_sub_calls c2 = []"
proof -
  have g: "is_guid (replicate 16 (x :: byte))" for x
    by (simp add: is_guid_def)
  have z: "and flags_none flags_authenticated = 0"
    by (simp add: flags_none_def)
  have f: "frame_ok sample_event_frame 22" "take 16 (drop 6 sample_event_frame) = sb_key sample_volatile"
    using unauthenticated_frame_ok [OF g [of 1] z, of Stream_Event_Appeared_Command "[]"]
    by (simp_all add: sample_event_frame_def sample_volatile_def mk_volatile_subscription_def
        subscription_base.defs volatile_subscription.defs mk_subscription_base_def)
  have key: "sb_key sample_volatile = replicate 16 1"
    by (simp add: sample_volatile_def mk_volatile_subscription_def subscription_base.defs volatile_subscription.defs
        mk_subscription_base_def)
  obtain effects s' where u: "unsubscribe [] (\<lambda>s. s) (subscription_error Unsubscribed) sample_volatile = Some (effects, s')"
    using unauthenticated_package_frame [OF z g [of 1]] by (auto simp: unsubscribe_def key Let_def)
  have start: "cl_calls sample_client = []" "cl_sub_calls sample_client = []"
    by (simp_all add: sample_client_def mk_client_def mk_connection_def connection.defs)
  from any_frame_ends_unsubscription [OF sample_client_start(1,2) _ sample_client_start(3) _ _ u f(1) _ g [of 5] f(2), of 0]
  show ?thesis
    by (auto simp: key g start)
qed

end
